(* ===== verification/Prelude.thy ===== *)
theory Prelude
  imports Complex_Main "HOL-Library.Word" "HOL-Library.Monad_Syntax"
begin

section \<open>Shared types, machine arithmetic and generic lemmas\<close>

text \<open>
  The vocabulary every component uses.

  Rust's unsigned integers are words of their width, so that \<open>+\<close>, \<open>-\<close> and
  \<open>*\<close> wrap exactly as the release profile's arithmetic and the atomics'
  \<open>fetch_add\<close> do; \<open>saturating_add\<close>, \<open>saturating_sub\<close> and
  \<open>checked_add\<close> are written out.  A \<open>String\<close> is a \<open>string\<close>, a
  \<open>Duration\<close> is its number of nanoseconds.

  A panic (an \<open>expect\<close> on a failed \<open>checked_add\<close>) is the value
  \<open>None\<close> of an \<open>'a exec\<close>.

  A reading of the wall clock is taken from a \<open>clock\<close>, the infinite sequence
  of the values that successive calls of \<open>current_timestamp\<close> return; nothing is
  assumed about it, so the clock may stand still, jump forward or run backwards.
  In the same way \<open>random\<close> is the sequence of the numbers drawn by
  \<open>rand::rng\<close>, each reduced to the requested range.
\<close>

type_synonym u8 = "8 word"
type_synonym u16 = "16 word"
type_synonym u32 = "32 word"
type_synonym u64 = "64 word"
type_synonym usize = "64 word"
type_synonym i64 = "64 word"

type_synonym 'a exec = "'a option"
type_synonym duration = nat
type_synonym clock = "nat \<Rightarrow> u64"
type_synonym random = "nat \<Rightarrow> nat"

named_theorems word_nat \<comment> \<open>readings of machine arithmetic as natural numbers\<close>
named_theorems op_defs \<comment> \<open>unfolding of the components' non-recursive operations\<close>

subsection \<open>Durations, clock and random readings\<close>

definition from_secs :: "u64 \<Rightarrow> duration" where
  "from_secs s = unat s * 1000000000"

definition later :: "nat \<Rightarrow> clock \<Rightarrow> clock" where
  "later n clk = (\<lambda>i. clk (i + n))"

definition random_range :: "nat \<Rightarrow> nat \<Rightarrow> nat" where
  "random_range r n = r mod n"

lemma later_apply [simp]: "later n clk i = clk (i + n)"
  by (simp add: later_def)

lemma random_range_less [simp, intro]: "0 < n \<Longrightarrow> random_range r n < n"
  by (simp add: random_range_def)

lemma random_range_surj: "i < n \<Longrightarrow> \<exists>r. random_range r n = i"
  by (rule exI [of _ i]) (simp add: random_range_def)

subsection \<open>Decimal text\<close>

fun decimal :: "nat \<Rightarrow> string" where
  "decimal n =
     (if n < 10 then [char_of (48 + n)] else decimal (n div 10) @ [char_of (48 + n mod 10)])"

declare decimal.simps [simp del]

subsection \<open>Saturating and checked arithmetic\<close>

definition max_value :: "'a::len word" where
  "max_value = - 1"

definition saturating_add :: "'a::len word \<Rightarrow> 'a word \<Rightarrow> 'a word" where
  "saturating_add a b = (if unat a + unat b < 2 ^ LENGTH('a) then a + b else max_value)"

definition saturating_sub :: "'a::len word \<Rightarrow> 'a word \<Rightarrow> 'a word" where
  "saturating_sub a b = (if a < b then 0 else a - b)"

definition checked_add :: "'a::len word \<Rightarrow> 'a word \<Rightarrow> 'a word option" where
  "checked_add a b = (if unat a + unat b < 2 ^ LENGTH('a) then Some (a + b) else None)"

definition checked_div :: "'a::len word \<Rightarrow> 'a word \<Rightarrow> 'a word option" where
  "checked_div a b = (if b = 0 then None else Some (a div b))"

lemma unat_max_value [word_nat]: "unat (max_value :: 'a::len word) = 2 ^ LENGTH('a) - 1"
  by (simp add: max_value_def unsigned_minus_1_eq_mask mask_eq_exp_minus_1)

lemma unat_less_exp: "unat (a :: 'a::len word) < 2 ^ LENGTH('a)"
  by (rule unsigned_less)

lemma unat_le_max_value: "unat (a :: 'a::len word) \<le> 2 ^ LENGTH('a) - 1"
  using unat_less_exp [of a] by linarith

lemma le_max_value [simp, intro]: "a \<le> (max_value :: 'a::len word)"
  unfolding word_le_nat_alt unat_max_value by (rule unat_le_max_value)

lemma unat_add_small:
  "unat a + unat b < 2 ^ LENGTH('a) \<Longrightarrow> unat (a + b :: 'a::len word) = unat a + unat b"
  by (simp add: unat_word_ariths)

lemma unat_mult_small:
  "unat a * unat b < 2 ^ LENGTH('a) \<Longrightarrow> unat (a * b :: 'a::len word) = unat a * unat b"
  by (simp add: unat_word_ariths)

lemma unat_two_power: "unat ((2 :: 'a::len word) ^ n) = 2 ^ n mod 2 ^ LENGTH('a)"
proof -
  have "(2 :: 'a word) ^ n = of_nat (2 ^ n)"
    by simp
  then show ?thesis
    by (simp only: unat_of_nat take_bit_eq_mod)
qed

lemma unat_saturating_add [word_nat]:
  "unat (saturating_add a b :: 'a::len word) = min (unat a + unat b) (2 ^ LENGTH('a) - 1)"
proof (cases "unat a + unat b < 2 ^ LENGTH('a)")
  case True
  then have "unat a + unat b \<le> 2 ^ LENGTH('a) - 1"
    by linarith
  with True show ?thesis
    by (simp add: saturating_add_def unat_add_small min_absorb1)
next
  case False
  then have "2 ^ LENGTH('a) - 1 \<le> unat a + unat b"
    by linarith
  with False show ?thesis
    by (simp add: saturating_add_def unat_max_value min_absorb2)
qed

lemma unat_saturating_sub [word_nat]: "unat (saturating_sub a b) = unat a - unat b"
  by (auto simp: saturating_sub_def unat_sub_if' word_less_nat_alt word_le_nat_alt)

lemma checked_add_Some_iff:
  "checked_add a b = Some c \<longleftrightarrow> c = a + b \<and> unat a + unat b < 2 ^ LENGTH('a)"
  for a :: "'a::len word"
  by (auto simp: checked_add_def)

lemma checked_add_one_Some:
  "checked_add (a :: 'a::len word) 1 = Some c \<Longrightarrow> unat c = Suc (unat a)"
  by (auto simp: checked_add_Some_iff unat_add_small)

lemma checked_add_one_neq: "checked_add a 1 = Some c \<Longrightarrow> c \<noteq> (a :: 'a::len word)"
  by (drule checked_add_one_Some) auto

lemma word_max_unat [word_nat]: "unat (max a b :: 'a::len word) = max (unat a) (unat b)"
  by (auto simp: max_def word_le_nat_alt)

lemma word_min_unat [word_nat]: "unat (min a b :: 'a::len word) = min (unat a) (unat b)"
  by (auto simp: min_def word_le_nat_alt)

lemma unsigned_real_le [word_nat]: "(unsigned a :: real) \<le> unsigned b \<longleftrightarrow> a \<le> b"
  for a b :: "'a::len word"
proof -
  have "(unsigned a :: real) \<le> unsigned b \<longleftrightarrow> real (unat a) \<le> real (unat b)"
    by simp
  then show ?thesis
    unfolding of_nat_le_iff word_le_nat_alt .
qed

lemma unat_sub_le: "b \<le> a \<Longrightarrow> unat (a - b :: 'a::len word) = unat a - unat b"
  by (simp add: unat_sub)

lemma unat_Suc_less: "a < b \<Longrightarrow> unat (a + 1) = Suc (unat a)" for b :: "'a::len word"
proof -
  assume "a < b"
  then have "unat a + unat (1 :: 'a word) \<le> unat b"
    by (simp add: word_less_nat_alt)
  then have "unat a + unat (1 :: 'a word) < 2 ^ LENGTH('a)"
    using unat_less_exp [of b] by (rule le_less_trans)
  then show ?thesis
    by (simp add: unat_add_small)
qed

lemma word_less_add_one: "a < b \<Longrightarrow> 0 < a + 1 \<and> a + 1 \<le> (b :: 'a::len word)"
  by (simp only: word_less_nat_alt word_le_nat_alt unat_Suc_less) simp

subsection \<open>Invariants of transition systems\<close>

text \<open>
  The contract of a component that is a state machine: an invariant of the initial
  states that every step keeps.  Every component with a step relation interprets it
  and takes the conclusion for all reachable states from here.
\<close>

locale invariant_system =
  fixes init :: "'s \<Rightarrow> bool"
    and step :: "'s \<Rightarrow> 's \<Rightarrow> bool"
    and inv :: "'s \<Rightarrow> bool"
  assumes init_inv: "init s \<Longrightarrow> inv s"
    and step_inv: "step s t \<Longrightarrow> inv s \<Longrightarrow> inv t"
begin

lemma run_inv: "rtranclp step s t \<Longrightarrow> inv s \<Longrightarrow> inv t"
  by (induction rule: rtranclp_induct) (auto intro: step_inv)

lemma reachable_inv: "init s \<Longrightarrow> rtranclp step s t \<Longrightarrow> inv t"
  by (rule run_inv) (auto intro: init_inv)

end

lemma sum_list_map_update:
  fixes f :: "'a \<Rightarrow> nat"
  assumes "i < length xs"
  shows "sum_list (map f (xs[i := x])) = sum_list (map f xs) + f x - f (xs ! i)"
  using assms by (simp add: map_update sum_list_update)

lemma sum_list_map_ge:
  fixes f :: "'a \<Rightarrow> nat"
  shows "i < length xs \<Longrightarrow> f (xs ! i) \<le> sum_list (map f xs)"
  by (rule member_le_sum_list) (simp_all add: nth_mem)

end
