(* ===== verification/Deployment.thy ===== *)
theory Deployment
  imports Prelude
begin

section \<open>Deployments and their runtime state\<close>

text \<open>
  Models \<^verbatim>\<open>src/core/router/deployment.rs\<close>,
  \<^verbatim>\<open>deployment/local_admission.rs\<close> and \<^verbatim>\<open>deployment/probe_state.rs\<close>:
  health states, configuration, the lazily rolled per-minute counters, the token
  ledger with its one-shot reservations, the outcome recorders and the publication
  of probe results.

  The atomics of \<open>DeploymentStateInner\<close> and the values behind the locks of a
  \<open>DeploymentState\<close> are the fields of one record, and an operation is a function
  from the state before to the state after it, so an interleaving is a sequence of
  operations.  A compare-exchange loop has no competitor inside one operation and ends
  in its first successful round.  An operation that reads the wall clock takes the
  reading as an argument: \<open>now\<close> the first one, \<open>reset_now\<close> the second one
  that \<open>with_current_minute\<close> takes on its slow path.
\<close>

subsection \<open>Health states\<close>

datatype health_status = Unknown | Healthy | Degraded | Unhealthy | Cooldown

definition health_from_u8 :: "u8 \<Rightarrow> health_status" where
  "health_from_u8 v =
     (if v = 1 then Healthy
      else if v = 2 then Degraded
      else if v = 3 then Unhealthy
      else if v = 4 then Cooldown
      else Unknown)"

primrec health_to_u8 :: "health_status \<Rightarrow> u8" where
  "health_to_u8 Unknown = 0"
| "health_to_u8 Healthy = 1"
| "health_to_u8 Degraded = 2"
| "health_to_u8 Unhealthy = 3"
| "health_to_u8 Cooldown = 4"

lemma health_roundtrip [simp]: "health_from_u8 (health_to_u8 h) = h"
  by (cases h) (simp_all add: health_from_u8_def)

lemma health_from_u8_simps [simp]:
  "health_from_u8 0 = Unknown" "health_from_u8 1 = Healthy" "health_from_u8 2 = Degraded"
  "health_from_u8 3 = Unhealthy" "health_from_u8 4 = Cooldown"
  by (simp_all add: health_from_u8_def)

definition valid_health :: "u8 \<Rightarrow> bool" where
  "valid_health v \<longleftrightarrow> v = health_to_u8 (health_from_u8 v)"

lemma valid_health_simps [simp]:
  "valid_health (health_to_u8 h)" "valid_health 0" "valid_health 1" "valid_health 2"
  "valid_health 3" "valid_health 4"
  by (simp_all add: valid_health_def)

lemma health_to_u8_inject [simp]: "health_to_u8 a = health_to_u8 b \<longleftrightarrow> a = b"
  by (metis health_roundtrip)

subsection \<open>Configuration\<close>

record retry_schedule =
  base_delay_ms :: u64
  max_delay_ms :: u64
  backoff_multiplier :: real
  jitter_ratio :: real

datatype provider_endpoint_access = PublicOnly | PrivateNetwork

record health_check_policy =
  hc_provider_name :: string
  interval_secs :: u64
  failure_threshold :: u32
  recovery_timeout_secs :: u64
  endpoint :: "string option"
  endpoint_access :: provider_endpoint_access
  expected_codes :: "u16 list"

record deployment_config =
  tpm_limit :: "u64 option"
  rpm_limit :: "u64 option"
  max_parallel_requests :: "u32 option"
  weight :: u32
  timeout_secs :: u64
  priority :: u32
  retry_schedule :: "retry_schedule option"
  health_check_policy :: "health_check_policy option"

definition deployment_config_default :: deployment_config where
  "deployment_config_default =
     \<lparr>tpm_limit = None, rpm_limit = None, max_parallel_requests = None, weight = 1,
      timeout_secs = 60, priority = 0, retry_schedule = None, health_check_policy = None\<rparr>"

subsection \<open>Runtime state\<close>

record local_token_ledger =
  active_estimate :: u64
  retained_unobserved :: u64

record local_circuit_fence =
  generation :: u64
  local_cooldown_until :: u64
  failure_window :: u64
  local_failure_floor :: u32
  local_recovery_successes :: "u32 option"

text \<open>
  \<open>provider_instance_identity\<close> is the address of the provider construction and
  \<open>runtime_identity\<close> the digest of its settings.  \<open>probe_lifecycle\<close> is the
  generation behind the lock of \<open>ProbeLifecycle\<close>, shared by all handles of a
  resource; \<open>probe_generation\<close> is the one this handle was created with.
\<close>

record deployment_state =
  health :: u8
  probe_unhealthy :: bool
  tpm_current :: u64
  rpm_current :: u64
  active_requests :: u32
  total_requests :: u64
  success_requests :: u64
  fail_requests :: u64
  successes_this_minute :: u64
  fails_this_minute :: u32
  cooldown_until :: u64
  last_request_at :: u64
  avg_latency_us :: u64
  consecutive_successes :: u32
  minute_reset_at :: u64
  minute_window_generation :: u64
  local_admission :: local_token_ledger
  circuit_updates :: local_circuit_fence
  provider_instance_identity :: nat
  runtime_identity :: "u8 list option"
  probe_health :: u8
  probe_last_checked_at_millis :: u64
  probe_lifecycle :: u64
  probe_generation :: u64

definition new_for_provider_instance :: "nat \<Rightarrow> u64 \<Rightarrow> deployment_state" where
  "new_for_provider_instance identity now =
     \<lparr>health = health_to_u8 Healthy, probe_unhealthy = False, tpm_current = 0, rpm_current = 0,
      active_requests = 0, total_requests = 0, success_requests = 0, fail_requests = 0,
      successes_this_minute = 0, fails_this_minute = 0, cooldown_until = 0,
      last_request_at = 0, avg_latency_us = 0, consecutive_successes = 0,
      minute_reset_at = now, minute_window_generation = 0,
      local_admission = \<lparr>active_estimate = 0, retained_unobserved = 0\<rparr>,
      circuit_updates = \<lparr>generation = 0, local_cooldown_until = 0, failure_window = 0,
                         local_failure_floor = 0, local_recovery_successes = None\<rparr>,
      provider_instance_identity = identity, runtime_identity = None,
      probe_health = health_to_u8 Unknown, probe_last_checked_at_millis = 0,
      probe_lifecycle = 0, probe_generation = 0\<rparr>"

abbreviation ledger_of :: "deployment_state \<Rightarrow> local_token_ledger" where
  "ledger_of \<equiv> local_admission"

abbreviation fence_of :: "deployment_state \<Rightarrow> local_circuit_fence" where
  "fence_of \<equiv> circuit_updates"

definition health_status_of :: "deployment_state \<Rightarrow> health_status" where
  "health_status_of s = health_from_u8 (health s)"

definition probe_health_status :: "deployment_state \<Rightarrow> health_status" where
  "probe_health_status s = health_from_u8 (probe_health s)"

definition probe_last_checked :: "deployment_state \<Rightarrow> u64 option" where
  "probe_last_checked s =
     (if probe_last_checked_at_millis s = 0 then None
      else Some (probe_last_checked_at_millis s))"

definition circuit_update_generation :: "deployment_state \<Rightarrow> u64" where
  "circuit_update_generation s = generation (circuit_updates s)"

subsection \<open>The minute window\<close>

definition minute_window_needs_roll :: "u64 \<Rightarrow> u64 \<Rightarrow> bool" where
  "minute_window_needs_roll now last_reset \<longleftrightarrow>
     now < last_reset \<or> now - last_reset \<ge> 60"

record minute_counters =
  window_generation :: u64
  mc_tpm :: u64
  mc_rpm :: u64
  mc_successes :: u64
  mc_failures :: u32

definition finish_minute_reset :: "u64 \<Rightarrow> deployment_state \<Rightarrow> deployment_state" where
  "finish_minute_reset now s =
     s\<lparr>local_admission := (local_admission s)\<lparr>retained_unobserved := 0\<rparr>,
       minute_window_generation := minute_window_generation s + 1,
       tpm_current := 0,
       rpm_current := 0,
       successes_this_minute := 0,
       fails_this_minute := 0,
       minute_reset_at := now\<rparr>"

definition reset_minute :: "u64 \<Rightarrow> deployment_state \<Rightarrow> deployment_state" where
  "reset_minute now s = finish_minute_reset now s"

text \<open>
  \<open>enter_minute\<close> is the part of \<open>with_current_minute\<close> that runs before the
  operation: the fast path leaves the state alone, the slow path re-reads the clock
  (\<open>reset_now\<close>) under the write lock and rolls the window if it still needs to.
\<close>

definition enter_minute :: "u64 \<Rightarrow> u64 \<Rightarrow> deployment_state \<Rightarrow> deployment_state" where
  "enter_minute now reset_now s =
     (if \<not> minute_window_needs_roll now (minute_reset_at s) then s
      else if minute_window_needs_roll reset_now (minute_reset_at s)
      then finish_minute_reset reset_now s
      else s)"

definition with_current_minute ::
  "u64 \<Rightarrow> u64 \<Rightarrow> (deployment_state \<Rightarrow> 'a \<times> deployment_state) \<Rightarrow> deployment_state
     \<Rightarrow> 'a \<times> deployment_state" where
  "with_current_minute now reset_now operation s = operation (enter_minute now reset_now s)"

definition roll_minute_window :: "u64 \<Rightarrow> u64 \<Rightarrow> deployment_state \<Rightarrow> deployment_state" where
  "roll_minute_window now reset_now s =
     snd (with_current_minute now reset_now (\<lambda>s. ((), s)) s)"

definition observed_minute_counters :: "deployment_state \<Rightarrow> minute_counters" where
  "observed_minute_counters s =
     \<lparr>window_generation = minute_window_generation s, mc_tpm = tpm_current s,
      mc_rpm = rpm_current s, mc_successes = successes_this_minute s,
      mc_failures = fails_this_minute s\<rparr>"

definition minute_counters ::
  "u64 \<Rightarrow> u64 \<Rightarrow> deployment_state \<Rightarrow> minute_counters \<times> deployment_state" where
  "minute_counters now reset_now s =
     (let s' = roll_minute_window now reset_now s in (observed_minute_counters s', s'))"

subsection \<open>Local token reservations\<close>

datatype completion = Cancel | Settle | Retain u64

text \<open>
  A hold names no deployment state: it is always applied to the state it was reserved
  on.  \<open>completion\<close> is \<open>None\<close> once the reservation has been completed.
\<close>

record local_admission_hold =
  estimate :: u64
  completion :: "completion option"

definition admission_tpm :: "u64 \<Rightarrow> u64 \<Rightarrow> deployment_state \<Rightarrow> u64 \<times> deployment_state" where
  "admission_tpm now reset_now =
     with_current_minute now reset_now
       (\<lambda>s. (saturating_add
               (saturating_add (mc_tpm (observed_minute_counters s))
                  (active_estimate (ledger_of s)))
               (retained_unobserved (ledger_of s)), s))"

definition reserve_local_tokens ::
  "u64 \<Rightarrow> u64 \<Rightarrow> u64 \<Rightarrow> u64 \<Rightarrow> deployment_state
     \<Rightarrow> local_admission_hold option \<times> deployment_state" where
  "reserve_local_tokens est limit now reset_now =
     with_current_minute now reset_now
       (\<lambda>s. let total = unat (tpm_current s) + unat (active_estimate (ledger_of s))
                        + unat (retained_unobserved (ledger_of s)) + unat est
            in if total > unat limit then (None, s)
               else (Some \<lparr>estimate = est, completion = Some Cancel\<rparr>,
                     s\<lparr>local_admission :=
                         (ledger_of s)\<lparr>active_estimate := active_estimate (ledger_of s) + est\<rparr>\<rparr>))"

definition prepare :: "completion \<Rightarrow> local_admission_hold \<Rightarrow> local_admission_hold" where
  "prepare desired hold =
     (if completion hold \<noteq> None then hold\<lparr>completion := Some desired\<rparr> else hold)"

definition prepare_settlement :: "local_admission_hold \<Rightarrow> local_admission_hold" where
  "prepare_settlement = prepare Settle"

definition prepare_retention :: "u64 \<Rightarrow> local_admission_hold \<Rightarrow> local_admission_hold" where
  "prepare_retention minimum = prepare (Retain minimum)"

definition prepare_cancellation :: "local_admission_hold \<Rightarrow> local_admission_hold" where
  "prepare_cancellation = prepare Cancel"

definition apply_completion ::
  "local_admission_hold \<Rightarrow> completion \<Rightarrow> u64 \<Rightarrow> local_token_ledger \<Rightarrow> local_token_ledger" where
  "apply_completion hold c observed l =
     (let l1 = l\<lparr>active_estimate := active_estimate l - estimate hold\<rparr>
      in case c of
           Retain minimum \<Rightarrow>
             (let extra = saturating_sub (max (estimate hold) minimum) observed
              in l1\<lparr>retained_unobserved := saturating_add (retained_unobserved l1) extra\<rparr>)
         | _ \<Rightarrow> l1)"

text \<open>
  \<open>record_observation\<close> runs inside the minute gate of the caller; \<open>record\<close> is
  the update of the counters that it wraps.
\<close>

definition record_observation ::
  "u64 \<Rightarrow> (deployment_state \<Rightarrow> deployment_state) \<Rightarrow> local_admission_hold \<Rightarrow> deployment_state
     \<Rightarrow> local_admission_hold \<times> deployment_state" where
  "record_observation observed record_op hold s =
     (let s1 = record_op s
      in case completion hold of
           None \<Rightarrow> (hold, s1)
         | Some c \<Rightarrow> (hold\<lparr>completion := None\<rparr>,
                     s1\<lparr>local_admission := apply_completion hold c observed (ledger_of s1)\<rparr>))"

definition finish_prepared ::
  "completion option \<Rightarrow> local_admission_hold \<Rightarrow> u64 \<Rightarrow> u64 \<Rightarrow> deployment_state \<Rightarrow> deployment_state"
  where
  "finish_prepared c hold now reset_now s =
     (case c of
        None \<Rightarrow> s
      | Some c \<Rightarrow>
          snd (with_current_minute now reset_now
                 (\<lambda>s. let observed = (case c of Retain minimum \<Rightarrow> minimum | _ \<Rightarrow> 0)
                      in ((), s\<lparr>local_admission := apply_completion hold c observed (ledger_of s)\<rparr>))
                 s))"

definition hold_finish ::
  "string \<Rightarrow> u64 \<Rightarrow> u64 \<Rightarrow> u64 \<Rightarrow> local_admission_hold \<Rightarrow> deployment_state
     \<Rightarrow> local_admission_hold \<times> deployment_state" where
  "hold_finish op minimum now reset_now hold s =
     (let desired = (if op = ''settle'' then Settle
                     else if op = ''retain'' then Retain minimum
                     else Cancel);
          c = map_option (\<lambda>_. desired) (completion hold)
      in (hold\<lparr>completion := None\<rparr>, finish_prepared c hold now reset_now s))"

definition hold_drop ::
  "u64 \<Rightarrow> u64 \<Rightarrow> local_admission_hold \<Rightarrow> deployment_state
     \<Rightarrow> local_admission_hold \<times> deployment_state" where
  "hold_drop now reset_now hold s =
     (hold\<lparr>completion := None\<rparr>, finish_prepared (completion hold) hold now reset_now s)"

subsection \<open>Deployments\<close>

text \<open>The provider client is opaque to routing: its type is the parameter \<open>'p\<close>.\<close>

record 'p deployment =
  dep_id :: string
  provider :: 'p
  model :: string
  model_name :: string
  config :: deployment_config
  state :: deployment_state
  tags :: "string list"

definition new_with_provider_instance ::
  "string \<Rightarrow> 'p \<Rightarrow> string \<Rightarrow> string \<Rightarrow> nat \<Rightarrow> u64 \<Rightarrow> 'p deployment" where
  "new_with_provider_instance i p m n identity now =
     \<lparr>dep_id = i, provider = p, model = m, model_name = n,
      config = deployment_config_default,
      state = new_for_provider_instance identity now, tags = []\<rparr>"

definition with_config :: "deployment_config \<Rightarrow> 'p deployment \<Rightarrow> 'p deployment" where
  "with_config c d = d\<lparr>config := c\<rparr>"

definition with_tags :: "string list \<Rightarrow> 'p deployment \<Rightarrow> 'p deployment" where
  "with_tags ts d = d\<lparr>tags := ts\<rparr>"

definition is_healthy :: "deployment_state \<Rightarrow> bool" where
  "is_healthy s \<longleftrightarrow> health_status_of s = Healthy \<or> health_status_of s = Degraded"

definition is_in_cooldown :: "u64 \<Rightarrow> deployment_state \<Rightarrow> bool \<times> deployment_state" where
  "is_in_cooldown now s =
     (if cooldown_until s = 0 then (False, s)
      else if cooldown_until s > now then (True, s)
      else
        (let nxt = (if probe_unhealthy s then Unhealthy else Degraded)
         in (False,
             if health s = health_to_u8 Cooldown then s\<lparr>health := health_to_u8 nxt\<rparr> else s)))"

subsection \<open>Recording outcomes\<close>

text \<open>
  The admission hold of a request is a local reservation or a lease held by the shared
  backend; only the former takes part in the local observation.  A shared hold keeps the
  completion that its owner still owes the backend, \<open>None\<close> once it has been delivered.
\<close>

datatype admission_completion = CancelShared | SettleShared int | RetainShared int

record shared_hold =
  hold_lease_id :: string
  hold_deployment_id :: string
  shared_completion :: "admission_completion option"

datatype admission_hold = InProcess local_admission_hold | Redis shared_hold

definition record_local_observation ::
  "u64 \<Rightarrow> (deployment_state \<Rightarrow> deployment_state) \<Rightarrow> admission_hold option \<Rightarrow> deployment_state
     \<Rightarrow> admission_hold option \<times> deployment_state" where
  "record_local_observation tokens record_op admission s =
     (case admission of
        None \<Rightarrow> (None, record_op s)
      | Some (Redis inner) \<Rightarrow> (Some (Redis inner), record_op s)
      | Some (InProcess hold) \<Rightarrow>
          (let (hold', s') = record_observation tokens record_op hold s
           in (Some (InProcess hold'), s')))"

definition updated_avg_latency :: "u64 \<Rightarrow> u64 \<Rightarrow> u64" where
  "updated_avg_latency current_avg latency_us =
     (if current_avg = 0 then latency_us else (latency_us + 4 * current_avg) div 5)"

definition success_fence :: "u64 \<Rightarrow> u64 \<Rightarrow> local_circuit_fence \<Rightarrow> local_circuit_fence" where
  "success_fence g now fence =
     (let fence = fence\<lparr>generation := g\<rparr>
      in if now \<ge> local_cooldown_until fence
         then fence\<lparr>local_recovery_successes :=
                map_option (\<lambda>n. saturating_add n 1) (local_recovery_successes fence)\<rparr>
         else fence)"

definition count_success :: "u64 \<Rightarrow> deployment_state \<Rightarrow> deployment_state" where
  "count_success tokens s =
     s\<lparr>tpm_current := tpm_current s + tokens,
       rpm_current := rpm_current s + 1,
       successes_this_minute := successes_this_minute s + 1\<rparr>"

definition record_success_with_admission ::
  "u64 \<Rightarrow> u64 \<Rightarrow> admission_hold option \<Rightarrow> u64 \<Rightarrow> u64 \<Rightarrow> deployment_state
     \<Rightarrow> (admission_hold option \<times> deployment_state) exec" where
  "record_success_with_admission tokens latency_us admission now reset_now s =
     do {
       g \<leftarrow> checked_add (generation (fence_of s)) 1;
       let s = s\<lparr>circuit_updates := success_fence g now (fence_of s),
                 total_requests := total_requests s + 1,
                 success_requests := success_requests s + 1\<rparr>;
       let (admission, s) =
         with_current_minute now reset_now
           (record_local_observation tokens (count_success tokens) admission) s;
       Some (admission,
             s\<lparr>last_request_at := now,
               avg_latency_us := updated_avg_latency (avg_latency_us s) latency_us,
               consecutive_successes := consecutive_successes s + 1\<rparr>)
     }"

definition record_success ::
  "u64 \<Rightarrow> u64 \<Rightarrow> u64 \<Rightarrow> u64 \<Rightarrow> deployment_state \<Rightarrow> deployment_state exec" where
  "record_success tokens latency_us now reset_now s =
     map_option snd (record_success_with_admission tokens latency_us None now reset_now s)"

definition count_partial :: "u64 \<Rightarrow> deployment_state \<Rightarrow> deployment_state" where
  "count_partial tokens s = s\<lparr>tpm_current := tpm_current s + tokens\<rparr>"

definition record_partial_tokens_with_admission ::
  "u64 \<Rightarrow> admission_hold option \<Rightarrow> u64 \<Rightarrow> u64 \<Rightarrow> deployment_state
     \<Rightarrow> admission_hold option \<times> deployment_state" where
  "record_partial_tokens_with_admission tokens admission now reset_now =
     with_current_minute now reset_now
       (record_local_observation tokens (count_partial tokens) admission)"

definition count_interrupted :: "u64 \<Rightarrow> deployment_state \<Rightarrow> deployment_state" where
  "count_interrupted tokens s =
     s\<lparr>tpm_current := tpm_current s + tokens, rpm_current := rpm_current s + 1\<rparr>"

definition record_interrupted_usage_with_admission ::
  "u64 \<Rightarrow> admission_hold option \<Rightarrow> u64 \<Rightarrow> u64 \<Rightarrow> deployment_state
     \<Rightarrow> admission_hold option \<times> deployment_state" where
  "record_interrupted_usage_with_admission tokens admission now reset_now =
     with_current_minute now reset_now
       (record_local_observation tokens (count_interrupted tokens) admission)"

definition record_failure_with_minute_counters ::
  "u64 \<Rightarrow> u64 \<Rightarrow> deployment_state \<Rightarrow> minute_counters \<times> deployment_state" where
  "record_failure_with_minute_counters now reset_now s =
     (let s = s\<lparr>total_requests := total_requests s + 1, fail_requests := fail_requests s + 1\<rparr>;
          (counters, s) =
            with_current_minute now reset_now
              (\<lambda>s. let s = s\<lparr>fails_this_minute := fails_this_minute s + 1\<rparr>
                   in (observed_minute_counters s, s)) s;
          s = s\<lparr>last_request_at := now, consecutive_successes := 0\<rparr>
      in (counters,
          if health_status_of s \<in> {Healthy, Unknown}
          then s\<lparr>health := health_to_u8 Degraded\<rparr> else s))"

definition promote_to_healthy_if_degraded :: "deployment_state \<Rightarrow> deployment_state" where
  "promote_to_healthy_if_degraded s =
     (if health s = health_to_u8 Degraded then s\<lparr>health := health_to_u8 Healthy\<rparr> else s)"

definition enter_cooldown :: "u64 \<Rightarrow> u64 \<Rightarrow> deployment_state \<Rightarrow> deployment_state" where
  "enter_cooldown duration_secs now s =
     (let s = s\<lparr>cooldown_until := now + duration_secs\<rparr>
      in if health_status_of s \<noteq> Cooldown then s\<lparr>health := health_to_u8 Cooldown\<rparr> else s)"

subsection \<open>Handles, probes and snapshots\<close>

definition next_generation :: "deployment_state \<Rightarrow> (u64 \<times> deployment_state) exec" where
  "next_generation s =
     do {
       g \<leftarrow> checked_add (probe_lifecycle s) 1;
       Some (g, s\<lparr>probe_lifecycle := g\<rparr>)
     }"

text \<open>
  The new handle shares everything but the probe evidence with the old one.  Its
  creation advances the shared lifecycle, which outdates the probes of all older
  handles.
\<close>

definition for_snapshot_insertion_with_provider ::
  "nat \<Rightarrow> deployment_state \<Rightarrow> deployment_state exec" where
  "for_snapshot_insertion_with_provider identity s =
     do {
       (g, s) \<leftarrow> next_generation s;
       Some (s\<lparr>provider_instance_identity := identity,
               probe_health := health_to_u8 Unknown,
               probe_last_checked_at_millis := 0,
               probe_generation := g\<rparr>)
     }"

definition for_snapshot_insertion :: "deployment_state \<Rightarrow> deployment_state exec" where
  "for_snapshot_insertion s =
     for_snapshot_insertion_with_provider (provider_instance_identity s) s"

definition clear_disabled_probe_failure :: "deployment_state \<Rightarrow> deployment_state" where
  "clear_disabled_probe_failure s =
     (if probe_unhealthy s
      then (let s = s\<lparr>probe_unhealthy := False\<rparr>
            in if health s = health_to_u8 Unhealthy
               then s\<lparr>health := health_to_u8 Healthy\<rparr> else s)
      else s)"

definition set_probe_health_status ::
  "health_status \<Rightarrow> u64 \<Rightarrow> deployment_state \<Rightarrow> deployment_state" where
  "set_probe_health_status status now_millis s =
     s\<lparr>probe_last_checked_at_millis := now_millis, probe_health := health_to_u8 status\<rparr>"

fun probe_transition :: "health_status \<Rightarrow> health_status \<Rightarrow> health_status option" where
  "probe_transition _ Cooldown = None"
| "probe_transition Degraded Unhealthy = None"
| "probe_transition Healthy _ = Some Healthy"
| "probe_transition Degraded _ = Some Degraded"
| "probe_transition Unhealthy _ = Some Unhealthy"
| "probe_transition Unknown _ = None"
| "probe_transition Cooldown _ = None"

definition publish_probe_health_unchecked ::
  "health_status \<Rightarrow> u64 \<Rightarrow> u64 \<Rightarrow> deployment_state \<Rightarrow> deployment_state" where
  "publish_probe_health_unchecked target now_millis now s =
     (let s = set_probe_health_status target now_millis s;
          s = s\<lparr>probe_unhealthy := (target = Unhealthy)\<rparr>;
          (cooling, s) = is_in_cooldown now s
      in if cooling then s
         else (case probe_transition target (health_status_of s) of
                 None \<Rightarrow> s
               | Some nxt \<Rightarrow>
                   if health_status_of s = nxt then s
                   else s\<lparr>health := health_to_u8 nxt\<rparr>))"

subsection \<open>What the operations leave alone\<close>

lemmas minute_gate_defs = with_current_minute_def enter_minute_def finish_minute_reset_def

text \<open>
  The frame of the minute gate: rolling the window touches the per-minute counters and
  the completed unknown usage, and nothing else.
\<close>

lemma enter_minute_frame [simp]:
  "health (enter_minute now rn s) = health s"
  "probe_unhealthy (enter_minute now rn s) = probe_unhealthy s"
  "active_requests (enter_minute now rn s) = active_requests s"
  "total_requests (enter_minute now rn s) = total_requests s"
  "success_requests (enter_minute now rn s) = success_requests s"
  "fail_requests (enter_minute now rn s) = fail_requests s"
  "cooldown_until (enter_minute now rn s) = cooldown_until s"
  "avg_latency_us (enter_minute now rn s) = avg_latency_us s"
  "consecutive_successes (enter_minute now rn s) = consecutive_successes s"
  "circuit_updates (enter_minute now rn s) = circuit_updates s"
  "active_estimate (local_admission (enter_minute now rn s)) = active_estimate (local_admission s)"
  "probe_lifecycle (enter_minute now rn s) = probe_lifecycle s"
  "probe_generation (enter_minute now rn s) = probe_generation s"
  by (simp_all add: enter_minute_def finish_minute_reset_def)

lemma enter_minute_retained_le:
  "retained_unobserved (local_admission (enter_minute now rn s))
     \<le> retained_unobserved (local_admission s)"
  by (simp add: enter_minute_def finish_minute_reset_def)

lemma enter_minute_cases:
  obtains "enter_minute now rn s = s"
  | "enter_minute now rn s = finish_minute_reset rn s"
    "minute_window_needs_roll rn (minute_reset_at s)"
  unfolding enter_minute_def by (cases "minute_window_needs_roll now (minute_reset_at s)";
      cases "minute_window_needs_roll rn (minute_reset_at s)") auto

lemma is_in_cooldown_fst [simp]: "fst (is_in_cooldown now s) \<longleftrightarrow> cooldown_until s > now"
  by (auto simp: is_in_cooldown_def Let_def)

lemma is_in_cooldown_frame [simp]:
  "local_admission (snd (is_in_cooldown now s)) = local_admission s"
  "circuit_updates (snd (is_in_cooldown now s)) = circuit_updates s"
  "cooldown_until (snd (is_in_cooldown now s)) = cooldown_until s"
  "active_requests (snd (is_in_cooldown now s)) = active_requests s"
  "total_requests (snd (is_in_cooldown now s)) = total_requests s"
  "success_requests (snd (is_in_cooldown now s)) = success_requests s"
  "fail_requests (snd (is_in_cooldown now s)) = fail_requests s"
  "probe_unhealthy (snd (is_in_cooldown now s)) = probe_unhealthy s"
  "rpm_current (snd (is_in_cooldown now s)) = rpm_current s"
  "tpm_current (snd (is_in_cooldown now s)) = tpm_current s"
  "minute_reset_at (snd (is_in_cooldown now s)) = minute_reset_at s"
  by (simp_all add: is_in_cooldown_def Let_def)

lemma record_local_observation_frame [simp]:
  "health (snd (record_local_observation t f a s)) = health (f s)"
  "total_requests (snd (record_local_observation t f a s)) = total_requests (f s)"
  "success_requests (snd (record_local_observation t f a s)) = success_requests (f s)"
  "fail_requests (snd (record_local_observation t f a s)) = fail_requests (f s)"
  "cooldown_until (snd (record_local_observation t f a s)) = cooldown_until (f s)"
  "circuit_updates (snd (record_local_observation t f a s)) = circuit_updates (f s)"
  "consecutive_successes (snd (record_local_observation t f a s)) = consecutive_successes (f s)"
  "active_requests (snd (record_local_observation t f a s)) = active_requests (f s)"
  "probe_unhealthy (snd (record_local_observation t f a s)) = probe_unhealthy (f s)"
  "avg_latency_us (snd (record_local_observation t f a s)) = avg_latency_us (f s)"
  by (simp_all add: record_local_observation_def record_observation_def Let_def
      split: option.splits admission_hold.splits)

lemma count_frame [simp]:
  "health (count_success t s) = health s" "health (count_partial t s) = health s"
  "health (count_interrupted t s) = health s"
  "total_requests (count_success t s) = total_requests s"
  "success_requests (count_success t s) = success_requests s"
  "fail_requests (count_success t s) = fail_requests s"
  "cooldown_until (count_success t s) = cooldown_until s"
  "circuit_updates (count_success t s) = circuit_updates s"
  "consecutive_successes (count_success t s) = consecutive_successes s"
  "active_requests (count_success t s) = active_requests s"
  "probe_unhealthy (count_success t s) = probe_unhealthy s"
  "avg_latency_us (count_success t s) = avg_latency_us s"
  by (simp_all add: count_success_def count_partial_def count_interrupted_def)

lemma success_fence_simps [simp]:
  "generation (success_fence g now fence) = g"
  "local_cooldown_until (success_fence g now fence) = local_cooldown_until fence"
  by (simp_all add: success_fence_def Let_def)

text \<open>The effect of recording a success on the fields outside the minute window.\<close>

lemma record_success_effect:
  assumes "record_success_with_admission tokens lat a now rn s = Some (a', s')"
  shows "\<exists>g. checked_add (generation (fence_of s)) 1 = Some g
             \<and> circuit_updates s' = success_fence g now (fence_of s)"
    and "total_requests s' = total_requests s + 1"
    and "success_requests s' = success_requests s + 1"
    and "fail_requests s' = fail_requests s"
    and "health s' = health s" and "cooldown_until s' = cooldown_until s"
    and "consecutive_successes s' = consecutive_successes s + 1"
    and "active_requests s' = active_requests s"
    and "probe_unhealthy s' = probe_unhealthy s"
    and "avg_latency_us s' = updated_avg_latency (avg_latency_us s) lat"
proof -
  from assms obtain g where g: "checked_add (generation (fence_of s)) 1 = Some g"
    by (cases "checked_add (generation (fence_of s)) 1")
      (simp_all add: record_success_with_admission_def)
  define s1 where "s1 = enter_minute now rn
    (s\<lparr>circuit_updates := success_fence g now (fence_of s),
       total_requests := total_requests s + 1, success_requests := success_requests s + 1\<rparr>)"
  obtain a2 s2 where obs: "record_local_observation tokens (count_success tokens) a s1 = (a2, s2)"
    by (metis surj_pair)
  from assms g obs have s': "s' = s2\<lparr>last_request_at := now,
      avg_latency_us := updated_avg_latency (avg_latency_us s2) lat,
      consecutive_successes := consecutive_successes s2 + 1\<rparr>"
    by (auto simp: record_success_with_admission_def with_current_minute_def Let_def s1_def)
  note fr = record_local_observation_frame
    [of tokens "count_success tokens" a s1, unfolded obs snd_conv count_frame]
  note red = s' fr s1_def
  show "\<exists>g. checked_add (generation (fence_of s)) 1 = Some g
             \<and> circuit_updates s' = success_fence g now (fence_of s)"
    using g by (simp add: red)
  show "total_requests s' = total_requests s + 1"
    "success_requests s' = success_requests s + 1" "fail_requests s' = fail_requests s"
    "health s' = health s" "cooldown_until s' = cooldown_until s"
    "consecutive_successes s' = consecutive_successes s + 1"
    "active_requests s' = active_requests s" "probe_unhealthy s' = probe_unhealthy s"
    "avg_latency_us s' = updated_avg_latency (avg_latency_us s) lat"
    by (simp_all add: red)
qed

lemma record_failure_frame [simp]:
  "local_admission (snd (record_failure_with_minute_counters now rn s))
     = local_admission (enter_minute now rn s)"
  "circuit_updates (snd (record_failure_with_minute_counters now rn s)) = circuit_updates s"
  "cooldown_until (snd (record_failure_with_minute_counters now rn s)) = cooldown_until s"
  "active_requests (snd (record_failure_with_minute_counters now rn s)) = active_requests s"
  "probe_unhealthy (snd (record_failure_with_minute_counters now rn s)) = probe_unhealthy s"
  by (simp_all add: record_failure_with_minute_counters_def with_current_minute_def Let_def
      enter_minute_def finish_minute_reset_def)

lemma record_failure_health:
  "health_status_of (snd (record_failure_with_minute_counters now rn s)) =
     (if health_status_of s \<in> {Healthy, Unknown} then Degraded else health_status_of s)"
  by (simp add: record_failure_with_minute_counters_def with_current_minute_def Let_def
      health_status_of_def)

lemma record_failure_counters:
  "mc_failures (fst (record_failure_with_minute_counters now rn s))
     = fails_this_minute (snd (record_failure_with_minute_counters now rn s))"
  "mc_successes (fst (record_failure_with_minute_counters now rn s))
     = successes_this_minute (snd (record_failure_with_minute_counters now rn s))"
  "window_generation (fst (record_failure_with_minute_counters now rn s))
     = minute_window_generation (snd (record_failure_with_minute_counters now rn s))"
  by (simp_all add: record_failure_with_minute_counters_def with_current_minute_def Let_def
      observed_minute_counters_def)

lemma record_failure_totals [simp]:
  "total_requests (snd (record_failure_with_minute_counters now rn s)) = total_requests s + 1"
  "fail_requests (snd (record_failure_with_minute_counters now rn s)) = fail_requests s + 1"
  "success_requests (snd (record_failure_with_minute_counters now rn s)) = success_requests s"
  "consecutive_successes (snd (record_failure_with_minute_counters now rn s)) = 0"
  by (simp_all add: record_failure_with_minute_counters_def with_current_minute_def Let_def)

lemma record_failure_minute:
  "fails_this_minute (snd (record_failure_with_minute_counters now rn s))
     = fails_this_minute (enter_minute now rn s) + 1"
  "successes_this_minute (snd (record_failure_with_minute_counters now rn s))
     = successes_this_minute (enter_minute now rn s)"
  "minute_window_generation (snd (record_failure_with_minute_counters now rn s))
     = minute_window_generation (enter_minute now rn s)"
  by (simp_all add: record_failure_with_minute_counters_def with_current_minute_def Let_def
      enter_minute_def finish_minute_reset_def)

lemma enter_cooldown_simps [simp]:
  "cooldown_until (enter_cooldown d now s) = now + d"
  "health_status_of (enter_cooldown d now s) = Cooldown"
  "circuit_updates (enter_cooldown d now s) = circuit_updates s"
  "local_admission (enter_cooldown d now s) = local_admission s"
  "total_requests (enter_cooldown d now s) = total_requests s"
  "success_requests (enter_cooldown d now s) = success_requests s"
  "fail_requests (enter_cooldown d now s) = fail_requests s"
  "active_requests (enter_cooldown d now s) = active_requests s"
  by (simp_all add: enter_cooldown_def Let_def health_status_of_def)

lemma new_state_simps [simp]:
  "health (new_for_provider_instance i now) = 1"
  "probe_unhealthy (new_for_provider_instance i now) = False"
  "tpm_current (new_for_provider_instance i now) = 0"
  "rpm_current (new_for_provider_instance i now) = 0"
  "active_requests (new_for_provider_instance i now) = 0"
  "total_requests (new_for_provider_instance i now) = 0"
  "success_requests (new_for_provider_instance i now) = 0"
  "fail_requests (new_for_provider_instance i now) = 0"
  "successes_this_minute (new_for_provider_instance i now) = 0"
  "fails_this_minute (new_for_provider_instance i now) = 0"
  "cooldown_until (new_for_provider_instance i now) = 0"
  "avg_latency_us (new_for_provider_instance i now) = 0"
  "consecutive_successes (new_for_provider_instance i now) = 0"
  "minute_reset_at (new_for_provider_instance i now) = now"
  "minute_window_generation (new_for_provider_instance i now) = 0"
  "local_admission (new_for_provider_instance i now)
     = \<lparr>active_estimate = 0, retained_unobserved = 0\<rparr>"
  "circuit_updates (new_for_provider_instance i now)
     = \<lparr>generation = 0, local_cooldown_until = 0, failure_window = 0, local_failure_floor = 0,
        local_recovery_successes = None\<rparr>"
  "runtime_identity (new_for_provider_instance i now) = None"
  "probe_lifecycle (new_for_provider_instance i now) = 0"
  "probe_generation (new_for_provider_instance i now) = 0"
  by (simp_all add: new_for_provider_instance_def)

subsection \<open>Properties of a single deployment\<close>

text \<open>
  The minute window is lazy but exact: whenever a caller enters it with one
  reading of the clock, the window it sees started less than 60 seconds before that
  reading and not after it, whatever the state was.  A clock that ran backwards also
  starts a fresh window.
\<close>

theorem enter_minute_fresh:
  "\<not> minute_window_needs_roll now (minute_reset_at (enter_minute now now s))
   \<and> unat now - unat (minute_reset_at (enter_minute now now s)) < 60
   \<and> minute_reset_at (enter_minute now now s) \<le> now"
proof -
  have fresh: "\<not> minute_window_needs_roll now (minute_reset_at (enter_minute now now s))"
    by (auto simp: enter_minute_def finish_minute_reset_def minute_window_needs_roll_def)
  then have le: "minute_reset_at (enter_minute now now s) \<le> now"
    by (auto simp: minute_window_needs_roll_def)
  with fresh have "unat (now - minute_reset_at (enter_minute now now s)) < unat (60 :: u64)"
    by (auto simp: minute_window_needs_roll_def word_le_nat_alt)
  with fresh le show ?thesis
    by (simp add: unat_sub word_le_nat_alt)
qed

text \<open>
  The latency average never leaves the interval spanned by the old average and the
  new sample (unless the product overflows 64 bits), and the first sample replaces the
  initial zero.
\<close>

theorem updated_avg_latency_between:
  assumes "unat latency + 4 * unat avg < 2 ^ 64"
  shows "if avg = 0 then updated_avg_latency avg latency = latency
         else min avg latency \<le> updated_avg_latency avg latency
              \<and> updated_avg_latency avg latency \<le> max avg latency"
proof (cases "avg = 0")
  case True
  then show ?thesis by (simp add: updated_avg_latency_def)
next
  case False
  have "unat (4 * avg) = 4 * unat avg"
    using assms by (simp add: unat_word_ariths)
  with False assms
  have val: "unat (updated_avg_latency avg latency) = (unat latency + 4 * unat avg) div 5"
    by (simp add: updated_avg_latency_def unat_div unat_add_small)
  have "min (unat avg) (unat latency) \<le> (unat latency + 4 * unat avg) div 5"
    by (simp add: min_def) linarith
  moreover have "(unat latency + 4 * unat avg) div 5 \<le> max (unat avg) (unat latency)"
    by (simp add: max_def) linarith
  ultimately show ?thesis
    using False by (simp add: word_le_nat_alt word_nat val)
qed

theorem updated_avg_latency_between_witness:
  "min 100 600 \<le> updated_avg_latency 100 600 \<and> updated_avg_latency 100 600 \<le> max 100 600
   \<and> updated_avg_latency 100 600 = 200"
  using updated_avg_latency_between [of 600 100] by (simp add: updated_avg_latency_def)

end
