(* ===== verification/Token_Ledger.thy ===== *)
theory Token_Ledger
  imports Deployment
begin

section \<open>The local token ledger as a state machine\<close>

text \<open>
  Requests reserve an estimate of their tokens before they are dispatched and complete
  the reservation once, by an observation, an explicit finish or the drop of its last
  owner.  This theory puts one deployment state together with every reservation ever
  granted on it and shows that the ledger's running sum is exactly the sum of the open
  reservations, so that its unchecked subtraction never wraps and a grant never exceeds
  the deployment's token limit.
\<close>

record ledger_system =
  ls_state :: deployment_state
  ls_holds :: "local_admission_hold list"

definition open_estimate :: "local_admission_hold \<Rightarrow> nat" where
  "open_estimate h = (if completion h = None then 0 else unat (estimate h))"

definition open_total :: "local_admission_hold list \<Rightarrow> nat" where
  "open_total hs = sum_list (map open_estimate hs)"

definition ledger_init :: "ledger_system \<Rightarrow> bool" where
  "ledger_init y \<longleftrightarrow> (\<exists>i now. y = \<lparr>ls_state = new_for_provider_instance i now, ls_holds = []\<rparr>)"

text \<open>The steps: every operation that touches the ledger, at any clock reading.\<close>

inductive ledger_step :: "ledger_system \<Rightarrow> ledger_system \<Rightarrow> bool" where
  reserve_granted:
    "reserve_local_tokens est limit now rn s = (Some h, s') \<Longrightarrow>
     ledger_step \<lparr>ls_state = s, ls_holds = hs\<rparr> \<lparr>ls_state = s', ls_holds = hs @ [h]\<rparr>"
| reserve_refused:
    "reserve_local_tokens est limit now rn s = (None, s') \<Longrightarrow>
     ledger_step \<lparr>ls_state = s, ls_holds = hs\<rparr> \<lparr>ls_state = s', ls_holds = hs\<rparr>"
| prepared:
    "i < length hs \<Longrightarrow>
     ledger_step \<lparr>ls_state = s, ls_holds = hs\<rparr>
       \<lparr>ls_state = s, ls_holds = hs[i := prepare c (hs ! i)]\<rparr>"
| success_with_hold:
    "i < length hs \<Longrightarrow>
     record_success_with_admission tokens lat (Some (InProcess (hs ! i))) now rn s
       = Some (Some (InProcess h'), s') \<Longrightarrow>
     ledger_step \<lparr>ls_state = s, ls_holds = hs\<rparr> \<lparr>ls_state = s', ls_holds = hs[i := h']\<rparr>"
| success_without_hold:
    "record_success tokens lat now rn s = Some s' \<Longrightarrow>
     ledger_step \<lparr>ls_state = s, ls_holds = hs\<rparr> \<lparr>ls_state = s', ls_holds = hs\<rparr>"
| partial_with_hold:
    "i < length hs \<Longrightarrow>
     record_partial_tokens_with_admission tokens (Some (InProcess (hs ! i))) now rn s
       = (Some (InProcess h'), s') \<Longrightarrow>
     ledger_step \<lparr>ls_state = s, ls_holds = hs\<rparr> \<lparr>ls_state = s', ls_holds = hs[i := h']\<rparr>"
| interrupted_with_hold:
    "i < length hs \<Longrightarrow>
     record_interrupted_usage_with_admission tokens (Some (InProcess (hs ! i))) now rn s
       = (Some (InProcess h'), s') \<Longrightarrow>
     ledger_step \<lparr>ls_state = s, ls_holds = hs\<rparr> \<lparr>ls_state = s', ls_holds = hs[i := h']\<rparr>"
| failure:
    "ledger_step \<lparr>ls_state = s, ls_holds = hs\<rparr>
       \<lparr>ls_state = snd (record_failure_with_minute_counters now rn s), ls_holds = hs\<rparr>"
| finished:
    "i < length hs \<Longrightarrow> hold_finish op minimum now rn (hs ! i) s = (h', s') \<Longrightarrow>
     ledger_step \<lparr>ls_state = s, ls_holds = hs\<rparr> \<lparr>ls_state = s', ls_holds = hs[i := h']\<rparr>"
| dropped:
    "i < length hs \<Longrightarrow> hold_drop now rn (hs ! i) s = (h', s') \<Longrightarrow>
     ledger_step \<lparr>ls_state = s, ls_holds = hs\<rparr> \<lparr>ls_state = s', ls_holds = hs[i := h']\<rparr>"
| rolled:
    "ledger_step \<lparr>ls_state = s, ls_holds = hs\<rparr>
       \<lparr>ls_state = roll_minute_window now rn s, ls_holds = hs\<rparr>"
| reset:
    "ledger_step \<lparr>ls_state = s, ls_holds = hs\<rparr> \<lparr>ls_state = reset_minute now s, ls_holds = hs\<rparr>"

definition ledger_balanced :: "ledger_system \<Rightarrow> bool" where
  "ledger_balanced y \<longleftrightarrow>
     unat (active_estimate (ledger_of (ls_state y))) = open_total (ls_holds y)"

subsection \<open>Completing a reservation\<close>

lemma open_estimate_completed [simp]: "open_estimate (h\<lparr>completion := None\<rparr>) = 0"
  by (simp add: open_estimate_def)

lemma open_estimate_prepare [simp]: "open_estimate (prepare c h) = open_estimate h"
  by (simp add: open_estimate_def prepare_def)

lemma open_total_update:
  "i < length hs \<Longrightarrow>
   open_total (hs[i := h]) = open_total hs + open_estimate h - open_estimate (hs ! i)"
  unfolding open_total_def by (rule sum_list_map_update)

lemma open_total_append [simp]: "open_total (hs @ [h]) = open_total hs + open_estimate h"
  by (simp add: open_total_def)

lemma active_apply_completion [simp]:
  "active_estimate (apply_completion h c observed l) = active_estimate l - estimate h"
  by (simp add: apply_completion_def Let_def split: completion.splits)

lemma completed_balance:
  assumes "i < length hs" "completion (hs ! i) = Some c"
    and "unat active = open_total hs"
  shows "unat (active - estimate (hs ! i)) = open_total (hs[i := (hs ! i)\<lparr>completion := None\<rparr>])"
proof -
  have e: "open_estimate (hs ! i) = unat (estimate (hs ! i))"
    using assms(2) by (simp add: open_estimate_def)
  have "open_estimate (hs ! i) \<le> open_total hs"
    unfolding open_total_def using assms(1) by (rule sum_list_map_ge)
  then have "estimate (hs ! i) \<le> active"
    by (simp add: word_le_nat_alt assms(3) e)
  with assms(1,3) show ?thesis
    by (simp add: unat_sub open_total_update e)
qed

lemma already_completed_balance:
  assumes "i < length hs" "completion (hs ! i) = None"
  shows "open_total (hs[i := (hs ! i)\<lparr>completion := None\<rparr>]) = open_total hs"
  using assms by (simp add: open_total_update) (simp add: open_estimate_def)

text \<open>
  An observation completes the hold it is given; what it counts besides does not reach
  the ledger.
\<close>

definition keeps_ledger :: "(deployment_state \<Rightarrow> deployment_state) \<Rightarrow> bool" where
  "keeps_ledger f \<longleftrightarrow> (\<forall>s. ledger_of (f s) = ledger_of s)"

lemma observation_balance:
  assumes "i < length hs" "keeps_ledger f"
    and "record_local_observation tokens f (Some (InProcess (hs ! i))) s
           = (Some (InProcess h'), s')"
    and "unat (active_estimate (ledger_of s)) = open_total hs"
  shows "unat (active_estimate (ledger_of s')) = open_total (hs[i := h'])"
proof (cases "completion (hs ! i)")
  case None
  with assms show ?thesis
    by (auto simp: record_local_observation_def record_observation_def keeps_ledger_def
        Let_def list_update_id)
next
  case (Some c)
  with assms(3) have "h' = (hs ! i)\<lparr>completion := None\<rparr>"
    and "active_estimate (ledger_of s') = active_estimate (ledger_of s) - estimate (hs ! i)"
    using assms(2)
    by (auto simp: record_local_observation_def record_observation_def keeps_ledger_def Let_def)
  with completed_balance [OF assms(1) Some assms(4)] show ?thesis
    by simp
qed

lemma finish_prepared_balance:
  assumes "i < length hs" "unat (active_estimate (ledger_of s)) = open_total hs"
    and "c = None \<longleftrightarrow> completion (hs ! i) = None"
  shows "unat (active_estimate (ledger_of (finish_prepared c (hs ! i) now rn s)))
           = open_total (hs[i := (hs ! i)\<lparr>completion := None\<rparr>])"
proof (cases c)
  case None
  with assms show ?thesis
    by (simp add: finish_prepared_def already_completed_balance)
next
  case (Some c')
  with assms(3) obtain d where "completion (hs ! i) = Some d"
    by auto
  from completed_balance [OF assms(1) this assms(2)] Some show ?thesis
    by (simp add: finish_prepared_def with_current_minute_def Let_def)
qed

lemma reserve_active:
  assumes "reserve_local_tokens est limit now rn s = (Some h, s')"
  shows "unat (active_estimate (ledger_of s')) = unat (active_estimate (ledger_of s)) + unat est"
    and "h = \<lparr>estimate = est, completion = Some Cancel\<rparr>"
    and "unat (tpm_current s') + unat (active_estimate (ledger_of s'))
           + unat (retained_unobserved (ledger_of s')) \<le> unat limit"
proof -
  let ?m = "enter_minute now rn s"
  from assms have fits: "unat (tpm_current ?m) + unat (active_estimate (ledger_of ?m))
      + unat (retained_unobserved (ledger_of ?m)) + unat est \<le> unat limit"
    and s': "s' = ?m\<lparr>local_admission :=
      (ledger_of ?m)\<lparr>active_estimate := active_estimate (ledger_of ?m) + est\<rparr>\<rparr>"
    and h: "h = \<lparr>estimate = est, completion = Some Cancel\<rparr>"
    by (auto simp: reserve_local_tokens_def with_current_minute_def Let_def not_less
        split: if_splits)
  show "h = \<lparr>estimate = est, completion = Some Cancel\<rparr>" by (rule h)
  have "unat (active_estimate (ledger_of ?m)) + unat est < 2 ^ 64"
    using fits unat_less_exp [of limit] by simp
  then have "unat (active_estimate (ledger_of ?m) + est)
      = unat (active_estimate (ledger_of ?m)) + unat est"
    by (intro unat_add_small) simp
  with s' fits
  show "unat (active_estimate (ledger_of s')) = unat (active_estimate (ledger_of s)) + unat est"
    and "unat (tpm_current s') + unat (active_estimate (ledger_of s'))
           + unat (retained_unobserved (ledger_of s')) \<le> unat limit"
    by simp_all
qed

subsection \<open>The ledger invariant\<close>

lemma counters_keep_ledger:
  "keeps_ledger (count_success tokens)" "keeps_ledger (count_partial tokens)"
  "keeps_ledger (count_interrupted tokens)"
  by (simp_all add: keeps_ledger_def count_success_def count_partial_def count_interrupted_def)

text \<open>Up to the ledger, recording a success is the observation inside its minute gate.\<close>

lemma record_success_observation:
  assumes "record_success_with_admission tokens lat a now rn s = Some (a', s')"
  obtains s1 s2 where "active_estimate (ledger_of s1) = active_estimate (ledger_of s)"
    and "record_local_observation tokens (count_success tokens) a s1 = (a', s2)"
    and "ledger_of s' = ledger_of s2"
proof -
  from assms obtain g where g: "checked_add (generation (fence_of s)) 1 = Some g"
    by (cases "checked_add (generation (fence_of s)) 1")
      (simp_all add: record_success_with_admission_def)
  define s1 where "s1 = enter_minute now rn
    (s\<lparr>circuit_updates := success_fence g now (fence_of s),
       total_requests := total_requests s + 1, success_requests := success_requests s + 1\<rparr>)"
  obtain a2 s2 where obs: "record_local_observation tokens (count_success tokens) a s1 = (a2, s2)"
    by (metis surj_pair)
  from assms g obs have "a' = a2 \<and> ledger_of s' = ledger_of s2"
    by (auto simp: record_success_with_admission_def with_current_minute_def Let_def s1_def)
  with obs show thesis
    by (intro that [of s1 s2]) (simp_all add: s1_def)
qed

lemma ledger_step_balanced: "ledger_step y z \<Longrightarrow> ledger_balanced y \<Longrightarrow> ledger_balanced z"
proof (induction rule: ledger_step.induct)
  case (reserve_granted est limit now rn s h s' hs)
  then show ?case
    using reserve_active [OF reserve_granted.hyps]
    by (simp add: ledger_balanced_def open_estimate_def)
next
  case (reserve_refused est limit now rn s s' hs)
  then show ?case
    by (auto simp: ledger_balanced_def reserve_local_tokens_def with_current_minute_def Let_def
        split: if_splits)
next
  case (prepared i hs s c)
  then show ?case
    by (simp add: ledger_balanced_def open_total_update)
next
  case (success_with_hold i hs tokens lat now rn s h' s')
  obtain s1 s2 where "active_estimate (ledger_of s1) = active_estimate (ledger_of s)"
    and "record_local_observation tokens (count_success tokens) (Some (InProcess (hs ! i))) s1
           = (Some (InProcess h'), s2)"
    and "ledger_of s' = ledger_of s2"
    using success_with_hold.hyps(2) by (rule record_success_observation)
  then show ?case
    using success_with_hold observation_balance [OF _ counters_keep_ledger(1)]
    by (simp add: ledger_balanced_def)
next
  case (success_without_hold tokens lat now rn s s' hs)
  then obtain a' where "record_success_with_admission tokens lat None now rn s = Some (a', s')"
    by (auto simp: record_success_def)
  then obtain s1 s2 where "active_estimate (ledger_of s1) = active_estimate (ledger_of s)"
    and "record_local_observation tokens (count_success tokens) None s1 = (a', s2)"
    and "ledger_of s' = ledger_of s2"
    by (rule record_success_observation)
  then show ?case
    using success_without_hold.prems
    by (auto simp: ledger_balanced_def record_local_observation_def count_success_def)
next
  case (partial_with_hold i hs tokens now rn s h' s')
  then show ?case
    using observation_balance [OF _ counters_keep_ledger(2), where s = "enter_minute now rn s"]
    by (simp add: ledger_balanced_def record_partial_tokens_with_admission_def
        with_current_minute_def)
next
  case (interrupted_with_hold i hs tokens now rn s h' s')
  then show ?case
    using observation_balance [OF _ counters_keep_ledger(3), where s = "enter_minute now rn s"]
    by (simp add: ledger_balanced_def record_interrupted_usage_with_admission_def
        with_current_minute_def)
next
  case (failure s hs now rn)
  then show ?case by (simp add: ledger_balanced_def)
next
  case (finished i hs op minimum now rn s h' s')
  then show ?case
    by (auto simp: ledger_balanced_def hold_finish_def Let_def finish_prepared_balance)
next
  case (dropped i hs now rn s h' s')
  then show ?case
    by (auto simp: ledger_balanced_def hold_drop_def finish_prepared_balance)
next
  case (rolled s hs now rn)
  then show ?case
    by (simp add: ledger_balanced_def roll_minute_window_def with_current_minute_def)
next
  case (reset s hs now)
  then show ?case
    by (simp add: ledger_balanced_def reset_minute_def finish_minute_reset_def)
qed

lemma ledger_init_balanced: "ledger_init y \<Longrightarrow> ledger_balanced y"
  by (auto simp: ledger_init_def ledger_balanced_def new_for_provider_instance_def open_total_def)

interpretation ledger: invariant_system ledger_init ledger_step ledger_balanced
  by unfold_locales (auto intro: ledger_init_balanced ledger_step_balanced)

definition charged :: "deployment_state \<Rightarrow> nat" where
  "charged s = unat (tpm_current s) + unat (active_estimate (ledger_of s))
               + unat (retained_unobserved (ledger_of s))"

lemma charged_le_admission:
  "charged (enter_minute now rn s) < 2 ^ 64 \<Longrightarrow>
   unat (fst (admission_tpm now rn s)) = charged (enter_minute now rn s)"
  by (simp add: admission_tpm_def with_current_minute_def charged_def word_nat
      observed_minute_counters_def)

subsection \<open>Properties of the ledger\<close>

text \<open>
  C26.  In every reachable state the ledger's running estimate is exactly the sum of the
  estimates of the reservations that have not been completed yet: the unchecked
  \<open>active_estimate -= estimate\<close> never wraps below zero, a rollover of the minute
  never drops a live reservation and none is released twice.
\<close>

theorem ledger_counts_open_reservations:
  assumes "ledger_init y" and "rtranclp ledger_step y z"
  shows "unat (active_estimate (ledger_of (ls_state z))) = open_total (ls_holds z)"
  using ledger.reachable_inv [OF assms] by (simp add: ledger_balanced_def)

lemma reserve_example:
  "reserve_local_tokens 6 10 5 5 (new_for_provider_instance 0 0)
     = (Some \<lparr>estimate = 6, completion = Some Cancel\<rparr>,
        (new_for_provider_instance 0 0)\<lparr>local_admission :=
           \<lparr>active_estimate = 6, retained_unobserved = 0\<rparr>\<rparr>)"
  by (simp add: reserve_local_tokens_def with_current_minute_def enter_minute_def
      minute_window_needs_roll_def new_for_provider_instance_def)

theorem ledger_counts_open_reservations_witness:
  "\<exists>y z. ledger_init y \<and> rtranclp ledger_step y z \<and> open_total (ls_holds z) = 6
     \<and> unat (active_estimate (ledger_of (ls_state z))) = 6"
proof -
  let ?y = "\<lparr>ls_state = new_for_provider_instance 0 0, ls_holds = []\<rparr>"
  let ?h = "\<lparr>estimate = 6, completion = Some Cancel\<rparr>"
  let ?z = "\<lparr>ls_state = (new_for_provider_instance 0 0)\<lparr>local_admission :=
      \<lparr>active_estimate = 6, retained_unobserved = 0\<rparr>\<rparr>, ls_holds = [] @ [?h]\<rparr>"
  have i: "ledger_init ?y" by (auto simp: ledger_init_def)
  have r: "rtranclp ledger_step ?y ?z"
    by (rule r_into_rtranclp) (rule ledger_step.reserve_granted [OF reserve_example])
  from ledger_counts_open_reservations [OF i r] i r show ?thesis
    by (intro exI [of _ ?y] exI [of _ ?z]) (simp add: open_total_def open_estimate_def)
qed

text \<open>
  A reservation is granted exactly when the observed, reserved and retained tokens
  of the current minute together with the new estimate stay within the limit, computed
  without overflow; a grant charges exactly the estimate and a refusal charges nothing.
\<close>

theorem reserve_local_tokens_exact:
  "case reserve_local_tokens est limit now rn s of
     (None, s') \<Rightarrow> charged (enter_minute now rn s) + unat est > unat limit
                   \<and> s' = enter_minute now rn s
   | (Some h, s') \<Rightarrow> charged s' = charged (enter_minute now rn s) + unat est
                   \<and> charged s' \<le> unat limit \<and> estimate h = est \<and> completion h = Some Cancel"
proof (cases "reserve_local_tokens est limit now rn s")
  case (Pair r s')
  show ?thesis
  proof (cases r)
    case None
    with Pair show ?thesis
      by (auto simp: reserve_local_tokens_def with_current_minute_def charged_def Let_def
          split: if_splits)
  next
    case (Some h)
    with Pair have "reserve_local_tokens est limit now rn s = (Some h, s')" by simp
    from reserve_active [OF this]
    have "charged s' \<le> unat limit" "h = \<lparr>estimate = est, completion = Some Cancel\<rparr>"
      "unat (active_estimate (ledger_of s')) = unat (active_estimate (ledger_of s)) + unat est"
      by (simp_all add: charged_def)
    moreover from Pair Some have "tpm_current s' = tpm_current (enter_minute now rn s)"
      "retained_unobserved (ledger_of s') = retained_unobserved (ledger_of (enter_minute now rn s))"
      by (auto simp: reserve_local_tokens_def with_current_minute_def Let_def split: if_splits)
    ultimately show ?thesis
      using Pair Some by (simp add: charged_def)
  qed
qed

text \<open>
  Completion is one-shot: once a hold has been finished, no later finish, drop or
  observation through any of its owners changes the ledger again, and no later
  preparation revives it.
\<close>

theorem completion_one_shot:
  "let h' = fst (hold_finish op m now rn h s)
   in snd (hold_finish op2 m2 now2 rn2 h' t) = t
      \<and> snd (hold_drop now2 rn2 h' t) = t
      \<and> snd (record_observation tokens f h' t) = f t
      \<and> prepare c h' = h'"
  by (simp add: hold_finish_def hold_drop_def finish_prepared_def record_observation_def
      prepare_def Let_def)

text \<open>
  Recording the usage of a reserved request replaces its estimate in one step.  A
  settled or cancelled hold is charged exactly what was observed; a retained one is
  charged the largest of its estimate, the known minimum and the observation.
\<close>

theorem observation_replaces_estimate:
  assumes "completion h = Some c" and "estimate h \<le> active_estimate (ledger_of s)"
    and "unat (tpm_current s) + unat tokens < 2 ^ 64"
    and "unat (retained_unobserved (ledger_of s))
           + (case c of Retain m \<Rightarrow> unat (max (estimate h) m) - unat tokens | _ \<Rightarrow> 0) < 2 ^ 64"
  shows "charged (snd (record_observation tokens (count_partial tokens) h s)) + unat (estimate h)
           = charged s + (case c of Retain m \<Rightarrow> unat (max (max (estimate h) m) tokens)
                                  | _ \<Rightarrow> unat tokens)"
proof -
  have act: "unat (active_estimate (ledger_of s) - estimate h) + unat (estimate h)
      = unat (active_estimate (ledger_of s))"
    using assms(2) by (simp add: unat_sub word_le_nat_alt)
  have tpm: "unat (tpm_current s + tokens) = unat (tpm_current s) + unat tokens"
    using assms(3) by (simp add: unat_add_small)
  show ?thesis
  proof (cases c)
    case (Retain m)
    have "unat (saturating_add (retained_unobserved (ledger_of s))
            (saturating_sub (max (estimate h) m) tokens))
        = unat (retained_unobserved (ledger_of s)) + (unat (max (estimate h) m) - unat tokens)"
      using assms(4) Retain by (simp add: unat_saturating_add unat_saturating_sub)
    with Retain act tpm assms(1) show ?thesis
      by (simp add: record_observation_def apply_completion_def count_partial_def charged_def
          Let_def word_max_unat)
  qed (use act tpm assms(1) in \<open>simp_all add: record_observation_def apply_completion_def
        count_partial_def charged_def Let_def\<close>)
qed

theorem observation_replaces_estimate_witness:
  "charged (snd (record_observation 3 (count_partial 3)
              \<lparr>estimate = 6, completion = Some (Retain 3)\<rparr>
              (snd (reserve_local_tokens 6 10 5 5 (new_for_provider_instance 0 0))))) = 6"
proof -
  let ?h = "\<lparr>estimate = 6, completion = Some (Retain 3)\<rparr>"
  let ?s = "(new_for_provider_instance 0 0)\<lparr>local_admission :=
              \<lparr>active_estimate = 6, retained_unobserved = 0\<rparr>\<rparr>"
  have "charged (snd (record_observation 3 (count_partial 3) ?h ?s)) + unat (estimate ?h)
          = charged ?s + unat (max (max (estimate ?h) 3) 3)"
    using observation_replaces_estimate [of ?h "Retain 3" ?s 3] by simp
  moreover have "charged ?s = 6"
    by (simp add: charged_def)
  ultimately show ?thesis
    by (simp add: reserve_example)
qed

end
