(* ===== verification/Router_Types.thy ===== *)
theory Router_Types
  imports Prelude
begin

section \<open>Router configuration and error types\<close>

text \<open>
  Models \<^verbatim>\<open>src/core/router/config.rs\<close> and \<^verbatim>\<open>src/core/router/error.rs\<close>.
\<close>

datatype routing_strategy =
    SimpleShuffle | LeastBusy | UsageBased | LatencyBased | PriorityBased
  | RateLimitAware | RoundRobin

record router_config =
  routing_strategy :: routing_strategy
  num_retries :: u32
  retry_after_secs :: u64
  allowed_fails :: u32
  min_requests :: u32
  cooldown_time_secs :: u64
  success_threshold :: u32
  rc_timeout_secs :: u64
  max_fallbacks :: u32
  enable_pre_call_checks :: bool

definition router_config_default :: router_config where
  "router_config_default =
     \<lparr>routing_strategy = SimpleShuffle, num_retries = 3, retry_after_secs = 0, allowed_fails = 3,
      min_requests = 10, cooldown_time_secs = 5, success_threshold = 3, rc_timeout_secs = 60,
      max_fallbacks = 5, enable_pre_call_checks = True\<rparr>"

lemma router_config_default_simps [simp]:
  "routing_strategy router_config_default = SimpleShuffle"
  "num_retries router_config_default = 3"
  "retry_after_secs router_config_default = 0"
  "allowed_fails router_config_default = 3"
  "min_requests router_config_default = 10"
  "cooldown_time_secs router_config_default = 5"
  "success_threshold router_config_default = 3"
  "max_fallbacks router_config_default = 5"
  by (simp_all add: router_config_default_def)

datatype cooldown_reason =
    RateLimitReason | AuthError | NotFound | TimeoutReason | ConsecutiveFailures
  | HighFailureRate | Manual

datatype router_error =
    InvalidConfiguration string
  | RouterModelNotFound string
  | NoAvailableDeployment string
  | UnsupportedCapability string string
  | DeploymentNotFound string
  | AllDeploymentsInCooldown string
  | RateLimitExceeded string
  | AliasCycle string
  | FallbackCycle string

end
