(* ===== verification/Circuit.thy ===== *)
theory Circuit
  imports Deployment Router_Types
begin

section \<open>The circuit breaker of a deployment\<close>

text \<open>
  Models \<^verbatim>\<open>src/core/router/circuit.rs\<close>, the recording and selectability half of
  \<^verbatim>\<open>src/core/router/unified.rs\<close> and the single-key script of
  \<^verbatim>\<open>src/storage/redis/circuit.rs\<close>.

  A deployment's local state and, optionally, a shared breaker in Redis decide together
  whether it may be selected.  Answers of the shared breaker arrive after an await, so
  the fence's generation is compared before they are applied; what other tasks do to the
  state while one waits is an argument (\<open>meanwhile\<close>) of the operations.
\<close>

subsection \<open>The answer of the shared breaker\<close>

record circuit_state =
  status :: i64
  opened_until :: i64
  fails :: i64
  shared_consecutive_successes :: i64
  shared_health :: i64
  owned :: bool

definition blocks_selection :: "circuit_state \<Rightarrow> bool" where
  "blocks_selection cs \<longleftrightarrow> status cs = 1 \<or> (status cs = 2 \<and> \<not> owned cs)"

text \<open>\<open>v.max(0)\<close> of a signed value, and the truncating casts of the result.\<close>

definition i64_max0 :: "i64 \<Rightarrow> u64" where
  "i64_max0 v = (if v <s 0 then 0 else v)"

definition max0_as_u32 :: "i64 \<Rightarrow> u32" where
  "max0_as_u32 v = ucast (i64_max0 v)"

definition max0_as_u8 :: "i64 \<Rightarrow> u8" where
  "max0_as_u8 v = ucast (i64_max0 v)"

datatype circuit_backend = LocalBreaker | SharedBreaker bool \<comment> \<open>allow_degraded\<close>

datatype circuit_observe = UseLocal | Shared circuit_state | Blocked

datatype circuit_write = WriteLocal | Applied circuit_state | StrictUnavailable

type_synonym circuit_cache = "string \<rightharpoonup> circuit_state \<times> nat \<times> u64"

definition redis_loss_observe :: "bool \<Rightarrow> circuit_observe" where
  "redis_loss_observe allow_degraded = (if allow_degraded then UseLocal else Blocked)"

text \<open>
  \<open>reply\<close> is what the script returned (\<open>None\<close> for an error), \<open>asked_at\<close> and
  \<open>answered_at\<close> the monotonic clock (nanoseconds) before and after, \<open>gen_after\<close> the fence's
  generation when the answer is stored.
\<close>

definition remember_answer ::
  "circuit_cache \<Rightarrow> string \<Rightarrow> circuit_state \<Rightarrow> u64 \<Rightarrow> u64 \<Rightarrow> nat \<Rightarrow> circuit_cache" where
  "remember_answer cache shared_id st gen gen_after answered_at =
     (if gen_after = gen then cache(shared_id \<mapsto> (st, answered_at, gen)) else cache)"

definition observe_async ::
  "circuit_backend \<Rightarrow> circuit_cache \<Rightarrow> string \<Rightarrow> u64 \<Rightarrow> nat \<Rightarrow> circuit_state option \<Rightarrow> u64 \<Rightarrow> nat
     \<Rightarrow> circuit_observe \<times> circuit_cache" where
  "observe_async backend cache shared_id gen asked_at reply gen_after answered_at =
     (case backend of
        LocalBreaker \<Rightarrow> (UseLocal, cache)
      | SharedBreaker allow_degraded \<Rightarrow>
          (let ask = (case reply of
                        Some st \<Rightarrow> (Shared st,
                                    remember_answer cache shared_id st gen gen_after answered_at)
                      | None \<Rightarrow> (redis_loss_observe allow_degraded, cache))
           in case cache shared_id of
                Some (st, stored_at, g) \<Rightarrow>
                  if asked_at - stored_at < 50000000 \<and> g = gen then (Shared st, cache) else ask
              | None \<Rightarrow> ask))"

definition circuit_write_async ::
  "circuit_backend \<Rightarrow> circuit_cache \<Rightarrow> string \<Rightarrow> u64 \<Rightarrow> circuit_state option \<Rightarrow> u64 \<Rightarrow> nat
     \<Rightarrow> circuit_write \<times> circuit_cache" where
  "circuit_write_async backend cache shared_id gen reply gen_after answered_at =
     (case backend of
        LocalBreaker \<Rightarrow> (WriteLocal, cache)
      | SharedBreaker allow_degraded \<Rightarrow>
          (case reply of
             Some st \<Rightarrow> (Applied st, remember_answer cache shared_id st gen gen_after answered_at)
           | None \<Rightarrow> (if allow_degraded then WriteLocal else StrictUnavailable, cache)))"

primrec reason_code :: "cooldown_reason \<Rightarrow> int" where
  "reason_code ConsecutiveFailures = 0"
| "reason_code HighFailureRate = 2"
| "reason_code RateLimitReason = 1"
| "reason_code AuthError = 1"
| "reason_code NotFound = 1"
| "reason_code TimeoutReason = 1"
| "reason_code Manual = 1"

subsection \<open>Applying a shared snapshot\<close>

definition refreshed_fence ::
  "u64 \<Rightarrow> u64 \<Rightarrow> u32 \<Rightarrow> local_circuit_fence \<Rightarrow> local_circuit_fence" where
  "refreshed_fence now window threshold fence =
     (let fence = (if failure_window fence \<noteq> window
                   then (let fence = fence\<lparr>failure_window := window, local_failure_floor := 0\<rparr>
                         in if local_cooldown_until fence \<le> now
                            then fence\<lparr>local_recovery_successes := None\<rparr> else fence)
                   else fence);
          fence = (if local_cooldown_until fence \<le> now
                   then fence\<lparr>local_cooldown_until := 0\<rparr> else fence)
      in if \<not> local_cooldown_until fence > now
            \<and> (case local_recovery_successes fence of
                 None \<Rightarrow> False | Some successes \<Rightarrow> successes \<ge> threshold)
         then fence\<lparr>local_recovery_successes := None\<rparr> else fence)"

definition snapshot_health ::
  "bool \<Rightarrow> bool \<Rightarrow> bool \<Rightarrow> circuit_state \<Rightarrow> health_status" where
  "snapshot_health local_cooldown unhealthy preserve cs =
     (let sh = health_from_u8 (max0_as_u8 (shared_health cs))
      in if local_cooldown \<or> status cs = 1 then Cooldown
         else if unhealthy then Unhealthy
         else if preserve \<and> sh \<in> {Healthy, Unknown} then Degraded
         else sh)"

definition apply_snapshot_locked ::
  "circuit_state \<Rightarrow> u32 \<Rightarrow> u64 \<Rightarrow> deployment_state \<Rightarrow> deployment_state" where
  "apply_snapshot_locked cs threshold now s =
     (let fence = refreshed_fence now (minute_window_generation s) threshold (fence_of s);
          local_cooldown = (local_cooldown_until fence > now);
          preserve = (local_recovery_successes fence \<noteq> None);
          s = s\<lparr>circuit_updates := fence,
                cooldown_until := max (i64_max0 (opened_until cs)) (local_cooldown_until fence),
                fails_this_minute := max (max0_as_u32 (fails cs)) (local_failure_floor fence)\<rparr>;
          s = (if \<not> local_cooldown \<and> \<not> preserve
               then s\<lparr>consecutive_successes := max0_as_u32 (shared_consecutive_successes cs)\<rparr>
               else s)
      in s\<lparr>health :=
             health_to_u8 (snapshot_health local_cooldown (probe_unhealthy s) preserve cs)\<rparr>)"

definition apply_circuit_snapshot ::
  "circuit_state \<Rightarrow> u64 \<Rightarrow> u32 \<Rightarrow> u64 \<Rightarrow> u64 \<Rightarrow> deployment_state \<Rightarrow> deployment_state" where
  "apply_circuit_snapshot cs gen threshold now reset_now s =
     (if generation (fence_of s) \<noteq> gen then s
      else snd (with_current_minute now reset_now
                  (\<lambda>s. ((), apply_snapshot_locked cs threshold now s)) s))"

subsection \<open>Recording outcomes at the router\<close>

definition promote_from_local_success ::
  "router_config \<Rightarrow> deployment_state \<Rightarrow> deployment_state" where
  "promote_from_local_success cfg s =
     (if health s = health_to_u8 Degraded
      then (if consecutive_successes s \<ge> success_threshold cfg
            then promote_to_healthy_if_degraded s else s)
      else s)"

text \<open>
  \<open>gen\<close> is the generation read before the write, \<open>answer\<close> the outcome of the
  write and \<open>s\<close> the state when the answer arrives.
\<close>

definition record_success_circuit ::
  "router_config \<Rightarrow> circuit_write \<Rightarrow> u64 \<Rightarrow> u64 \<Rightarrow> u64 \<Rightarrow> deployment_state \<Rightarrow> deployment_state" where
  "record_success_circuit cfg answer gen now reset_now s =
     (case answer of
        WriteLocal \<Rightarrow>
          if generation (fence_of s) = gen then promote_from_local_success cfg s else s
      | StrictUnavailable \<Rightarrow> s
      | Applied cs \<Rightarrow> apply_circuit_snapshot cs gen (success_threshold cfg) now reset_now s)"

definition protect_local_cooldown ::
  "router_config \<Rightarrow> u64 \<Rightarrow> deployment_state \<Rightarrow> deployment_state" where
  "protect_local_cooldown cfg now s =
     (let s = enter_cooldown (cooldown_time_secs cfg) now s;
          until = max (local_cooldown_until (fence_of s)) (cooldown_until s)
      in s\<lparr>circuit_updates := (fence_of s)\<lparr>local_cooldown_until := until\<rparr>,
           cooldown_until := until\<rparr>)"

text \<open>
  The decision to trip.  The rate test divides by the lifetime total, which the failure
  being recorded has just incremented; a total that wrapped to zero makes the division
  panic.
\<close>

definition should_cooldown ::
  "router_config \<Rightarrow> cooldown_reason \<Rightarrow> minute_counters \<Rightarrow> deployment_state \<Rightarrow> bool exec" where
  "should_cooldown cfg reason minute s =
     (case reason of
        ConsecutiveFailures \<Rightarrow>
          Some (mc_failures minute \<ge> allowed_fails cfg
                \<and> mc_successes minute + ucast (mc_failures minute) \<ge> ucast (min_requests cfg))
      | HighFailureRate \<Rightarrow>
          (if total_requests s \<ge> ucast (min_requests cfg)
           then (case checked_div (fail_requests s * 100) (total_requests s) of
                   None \<Rightarrow> None | Some rate \<Rightarrow> Some (rate > 50))
           else Some False)
      | _ \<Rightarrow> Some True)"

definition failure_fence :: "u64 \<Rightarrow> minute_counters \<Rightarrow> local_circuit_fence \<Rightarrow> local_circuit_fence"
  where
  "failure_fence g minute fence =
     (let fence = fence\<lparr>generation := g\<rparr>;
          fence = (if failure_window fence \<noteq> window_generation minute
                   then fence\<lparr>failure_window := window_generation minute, local_failure_floor := 0\<rparr>
                   else fence)
      in fence\<lparr>local_failure_floor := max (local_failure_floor fence) (mc_failures minute),
               local_recovery_successes := Some 0\<rparr>)"

definition record_local_failure_locked ::
  "router_config \<Rightarrow> cooldown_reason \<Rightarrow> u64 \<Rightarrow> u64 \<Rightarrow> u64 \<Rightarrow> deployment_state \<Rightarrow> deployment_state exec"
  where
  "record_local_failure_locked cfg reason now reset_now cool_now s =
     do {
       g \<leftarrow> checked_add (generation (fence_of s)) 1;
       let (minute, s) = record_failure_with_minute_counters now reset_now s;
       let s = s\<lparr>circuit_updates := failure_fence g minute (fence_of s)\<rparr>;
       cooldown \<leftarrow> should_cooldown cfg reason minute s;
       Some (if cooldown then protect_local_cooldown cfg cool_now s else s)
     }"

definition record_local_failure ::
  "router_config \<Rightarrow> cooldown_reason \<Rightarrow> u64 \<Rightarrow> u64 \<Rightarrow> u64 \<Rightarrow> deployment_state \<Rightarrow> deployment_state exec"
  where
  "record_local_failure = record_local_failure_locked"

definition record_failure_with_reason ::
  "router_config \<Rightarrow> cooldown_reason \<Rightarrow> circuit_write \<Rightarrow> u64 \<Rightarrow> clock \<Rightarrow> deployment_state
     \<Rightarrow> deployment_state exec" where
  "record_failure_with_reason cfg reason answer gen clk s =
     (case answer of
        WriteLocal \<Rightarrow> record_local_failure cfg reason (clk 0) (clk 1) (clk 2) s
      | StrictUnavailable \<Rightarrow>
          do {
            s \<leftarrow> record_local_failure_locked cfg reason (clk 0) (clk 1) (clk 2) s;
            Some (protect_local_cooldown cfg (clk 3) s)
          }
      | Applied cs \<Rightarrow>
          do {
            let unchanged = (generation (fence_of s) = gen);
            s \<leftarrow> record_local_failure_locked cfg reason (clk 0) (clk 1) (clk 2) s;
            Some (if unchanged
                  then apply_circuit_snapshot cs (generation (fence_of s)) (success_threshold cfg)
                         (clk 3) (clk 4) s
                  else s)
          })"

text \<open>Publication of a failure that has been recorded locally before.\<close>

definition record_failure_circuit ::
  "router_config \<Rightarrow> circuit_write \<Rightarrow> u64 \<Rightarrow> clock \<Rightarrow> deployment_state \<Rightarrow> deployment_state exec" where
  "record_failure_circuit cfg answer gen clk s =
     (case answer of
        WriteLocal \<Rightarrow> Some s
      | StrictUnavailable \<Rightarrow>
          do {
            g \<leftarrow> checked_add (generation (fence_of s)) 1;
            Some (protect_local_cooldown cfg (clk 0)
                    (s\<lparr>circuit_updates := (fence_of s)\<lparr>generation := g\<rparr>\<rparr>))
          }
      | Applied cs \<Rightarrow>
          Some (apply_circuit_snapshot cs gen (success_threshold cfg) (clk 0) (clk 1) s))"

subsection \<open>Selectability\<close>

text \<open>
  One observation round: the answer, what other tasks did during the await and between
  the two critical sections that follow it, and the clock readings of the round.
\<close>

record observe_round =
  answer :: circuit_observe
  during_await :: "deployment_state \<Rightarrow> deployment_state"
  between_locks :: "deployment_state \<Rightarrow> deployment_state"
  read_apply :: u64
  read_roll :: u64
  read_cooldown :: u64

definition locally_selectable :: "u64 \<Rightarrow> deployment_state \<Rightarrow> bool \<times> deployment_state" where
  "locally_selectable now s =
     (let (cooling, s) = is_in_cooldown now s in (\<not> cooling \<and> is_healthy s, s))"

definition selectable_round ::
  "router_config \<Rightarrow> observe_round \<Rightarrow> deployment_state \<Rightarrow> bool option \<times> deployment_state" where
  "selectable_round cfg rd s =
     (let gen = circuit_update_generation s;
          s = during_await rd s
      in case answer rd of
           UseLocal \<Rightarrow> (let (ok, s) = locally_selectable (read_cooldown rd) s in (Some ok, s))
         | Blocked \<Rightarrow> (Some False, s)
         | Shared cs \<Rightarrow>
             (let s = apply_circuit_snapshot cs gen (success_threshold cfg)
                        (read_apply rd) (read_roll rd) s;
                  s = between_locks rd s
              in if generation (fence_of s) \<noteq> gen then (None, s)
                 else if blocks_selection cs then (Some False, s)
                 else (let (ok, s) = locally_selectable (read_cooldown rd) s in (Some ok, s))))"

definition deployment_is_selectable_with_observer ::
  "router_config \<Rightarrow> observe_round \<Rightarrow> observe_round \<Rightarrow> deployment_state \<Rightarrow> bool \<times> deployment_state"
  where
  "deployment_is_selectable_with_observer cfg rd1 rd2 s =
     (case selectable_round cfg rd1 s of
        (Some ok, s) \<Rightarrow> (ok, s)
      | (None, s) \<Rightarrow>
          (case selectable_round cfg rd2 s of
             (Some ok, s) \<Rightarrow> (ok, s)
           | (None, s) \<Rightarrow> (False, s)))"

subsection \<open>The breaker of one deployment as a state machine\<close>

text \<open>
  Every operation the router performs on the breaker state of a deployment, at any clock
  readings and with any answers of the shared breaker.
\<close>

inductive breaker_step :: "deployment_state \<Rightarrow> deployment_state \<Rightarrow> bool" where
  success: "record_success_with_admission tokens lat a now rn s = Some (a', s') \<Longrightarrow> breaker_step s s'"
| success_circuit: "breaker_step s (record_success_circuit cfg ans gen now rn s)"
| failure: "record_local_failure cfg reason now rn cn s = Some s' \<Longrightarrow> breaker_step s s'"
| failure_reason: "record_failure_with_reason cfg reason ans gen clk s = Some s' \<Longrightarrow>
     breaker_step s s'"
| failure_circuit: "record_failure_circuit cfg ans gen clk s = Some s' \<Longrightarrow> breaker_step s s'"
| snapshot: "breaker_step s (apply_circuit_snapshot cs gen th now rn s)"
| cooldown_check: "breaker_step s (snd (is_in_cooldown now s))"
| probe: "breaker_step s (publish_probe_health_unchecked target millis now s)"
| probes_disabled: "breaker_step s (clear_disabled_probe_failure s)"
| roll: "breaker_step s (roll_minute_window now rn s)"
| reset: "breaker_step s (reset_minute now s)"
| insertion: "for_snapshot_insertion_with_provider identity s = Some s' \<Longrightarrow> breaker_step s s'"

definition breaker_init :: "deployment_state \<Rightarrow> bool" where
  "breaker_init s \<longleftrightarrow> (\<exists>i now. s = new_for_provider_instance i now)"

definition breaker_inv :: "deployment_state \<Rightarrow> bool" where
  "breaker_inv s \<longleftrightarrow>
     total_requests s = success_requests s + fail_requests s
     \<and> local_cooldown_until (fence_of s) \<le> cooldown_until s
     \<and> valid_health (health s)"

lemma breaker_invI:
  assumes "total_requests s = success_requests s + fail_requests s"
    and "local_cooldown_until (fence_of s) \<le> cooldown_until s"
    and "valid_health (health s)"
  shows "breaker_inv s"
  using assms by (simp add: breaker_inv_def)

lemma breaker_invD:
  assumes "breaker_inv s"
  shows "total_requests s = success_requests s + fail_requests s"
    and "local_cooldown_until (fence_of s) \<le> cooldown_until s"
    and "valid_health (health s)"
  using assms by (simp_all add: breaker_inv_def)

text \<open>
  \<open>breaker_inv\<close> reads few fields; an operation that leaves them alone, up to a legal
  health value, keeps it.
\<close>

lemma breaker_inv_frame:
  assumes "breaker_inv s"
    and "total_requests s' = total_requests s" "success_requests s' = success_requests s"
    and "fail_requests s' = fail_requests s"
    and "local_cooldown_until (fence_of s') \<le> cooldown_until s'"
    and "health s' = health s \<or> valid_health (health s')"
  shows "breaker_inv s'"
  using assms breaker_invD [OF assms(1)] by (intro breaker_invI) auto

lemma is_in_cooldown_health:
  "health (snd (is_in_cooldown now s)) = health s
   \<or> valid_health (health (snd (is_in_cooldown now s)))"
  by (auto simp: is_in_cooldown_def Let_def)

lemma apply_snapshot_locked_simps [simp]:
  "total_requests (apply_snapshot_locked cs th now s) = total_requests s"
  "success_requests (apply_snapshot_locked cs th now s) = success_requests s"
  "fail_requests (apply_snapshot_locked cs th now s) = fail_requests s"
  "probe_unhealthy (apply_snapshot_locked cs th now s) = probe_unhealthy s"
  "circuit_updates (apply_snapshot_locked cs th now s)
     = refreshed_fence now (minute_window_generation s) th (fence_of s)"
  "cooldown_until (apply_snapshot_locked cs th now s)
     = max (i64_max0 (opened_until cs))
           (local_cooldown_until (refreshed_fence now (minute_window_generation s) th (fence_of s)))"
  by (simp_all add: apply_snapshot_locked_def Let_def)

lemma apply_snapshot_locked_health:
  "valid_health (health (apply_snapshot_locked cs th now s))"
  by (simp add: apply_snapshot_locked_def Let_def)

lemma apply_circuit_snapshot_inv:
  assumes "breaker_inv s"
  shows "breaker_inv (apply_circuit_snapshot cs gen th now rn s)"
proof (cases "generation (fence_of s) = gen")
  case True
  let ?s = "apply_snapshot_locked cs th now (enter_minute now rn s)"
  have "breaker_inv ?s"
    using assms by (rule breaker_inv_frame) (simp_all add: apply_snapshot_locked_health)
  with True show ?thesis
    by (simp add: apply_circuit_snapshot_def with_current_minute_def)
qed (simp add: apply_circuit_snapshot_def assms)

lemma protect_local_cooldown_simps [simp]:
  "total_requests (protect_local_cooldown cfg now s) = total_requests s"
  "success_requests (protect_local_cooldown cfg now s) = success_requests s"
  "fail_requests (protect_local_cooldown cfg now s) = fail_requests s"
  "cooldown_until (protect_local_cooldown cfg now s)
     = max (local_cooldown_until (fence_of s)) (now + cooldown_time_secs cfg)"
  "local_cooldown_until (fence_of (protect_local_cooldown cfg now s))
     = max (local_cooldown_until (fence_of s)) (now + cooldown_time_secs cfg)"
  "health_status_of (protect_local_cooldown cfg now s) = Cooldown"
  "generation (fence_of (protect_local_cooldown cfg now s)) = generation (fence_of s)"
proof -
  have "health_status_of (enter_cooldown d now s) = Cooldown" for d
    by simp
  then show "health_status_of (protect_local_cooldown cfg now s) = Cooldown"
    by (simp add: protect_local_cooldown_def Let_def health_status_of_def)
qed (simp_all add: protect_local_cooldown_def Let_def)

lemma health_Cooldown_valid: "health_status_of s = Cooldown \<Longrightarrow> valid_health (health s)"
  by (auto simp: health_status_of_def health_from_u8_def split: if_splits)

lemma protect_local_cooldown_inv:
  "breaker_inv s \<Longrightarrow> breaker_inv (protect_local_cooldown cfg now s)"
  by (erule breaker_inv_frame) (simp_all add: health_Cooldown_valid)

lemma failure_fence_simps [simp]:
  "generation (failure_fence g m fence) = g"
  "local_cooldown_until (failure_fence g m fence) = local_cooldown_until fence"
  "local_recovery_successes (failure_fence g m fence) = Some 0"
  by (simp_all add: failure_fence_def Let_def)

lemma record_failure_inv:
  assumes "breaker_inv s"
  shows "breaker_inv ((snd (record_failure_with_minute_counters now rn s))
           \<lparr>circuit_updates := failure_fence g m (fence_of s)\<rparr>)"
proof (rule breaker_invI)
  let ?s = "snd (record_failure_with_minute_counters now rn s)"
  show "valid_health (health (?s\<lparr>circuit_updates := failure_fence g m (fence_of s)\<rparr>))"
    using breaker_invD(3) [OF assms]
    by (simp add: record_failure_with_minute_counters_def with_current_minute_def Let_def)
qed (use breaker_invD [OF assms] in simp_all)

text \<open>Recording a local failure, taken apart once for all its users.\<close>

lemma record_local_failure_cases:
  assumes "record_local_failure_locked cfg reason now rn cn s = Some s'"
  obtains g m s1 where "checked_add (generation (fence_of s)) 1 = Some g"
    and "m = fst (record_failure_with_minute_counters now rn s)"
    and "s1 = (snd (record_failure_with_minute_counters now rn s))
                \<lparr>circuit_updates := failure_fence g m (fence_of s)\<rparr>"
    and "should_cooldown cfg reason m s1 = Some True \<and> s' = protect_local_cooldown cfg cn s1
         \<or> should_cooldown cfg reason m s1 = Some False \<and> s' = s1"
proof -
  from assms obtain g where g: "checked_add (generation (fence_of s)) 1 = Some g"
    by (cases "checked_add (generation (fence_of s)) 1")
      (simp_all add: record_local_failure_locked_def)
  obtain m s0 where ms: "record_failure_with_minute_counters now rn s = (m, s0)"
    by (metis surj_pair)
  have f0: "fence_of s0 = fence_of s"
    using record_failure_frame(2) [of now rn s] ms by simp
  let ?s1 = "s0\<lparr>circuit_updates := failure_fence g m (fence_of s0)\<rparr>"
  from assms g ms have "should_cooldown cfg reason m ?s1 \<bind>
      (\<lambda>c. Some (if c then protect_local_cooldown cfg cn ?s1 else ?s1)) = Some s'"
    by (simp add: record_local_failure_locked_def Let_def)
  then have "should_cooldown cfg reason m ?s1 = Some True \<and> s' = protect_local_cooldown cfg cn ?s1
         \<or> should_cooldown cfg reason m ?s1 = Some False \<and> s' = ?s1"
    by (cases "should_cooldown cfg reason m ?s1") (auto split: if_splits)
  with g ms f0 show thesis
    by (intro that [of g m ?s1]) simp_all
qed

lemma record_local_failure_inv:
  assumes "record_local_failure_locked cfg reason now rn cn s = Some s'" "breaker_inv s"
  shows "breaker_inv s'"
  using assms(1)
proof (rule record_local_failure_cases)
  fix g m s1
  assume "s1 = (snd (record_failure_with_minute_counters now rn s))
                \<lparr>circuit_updates := failure_fence g m (fence_of s)\<rparr>"
    and "should_cooldown cfg reason m s1 = Some True \<and> s' = protect_local_cooldown cfg cn s1
         \<or> should_cooldown cfg reason m s1 = Some False \<and> s' = s1"
  with record_failure_inv [OF assms(2)] show "breaker_inv s'"
    by (auto intro: protect_local_cooldown_inv)
qed

lemma record_success_circuit_inv:
  assumes "breaker_inv s"
  shows "breaker_inv (record_success_circuit cfg ans gen now rn s)"
proof (cases ans)
  case (Applied cs)
  with assms show ?thesis
    by (simp add: record_success_circuit_def apply_circuit_snapshot_inv)
qed (use assms in \<open>auto simp: record_success_circuit_def promote_from_local_success_def
      promote_to_healthy_if_degraded_def breaker_inv_def\<close>)

lemma record_failure_with_reason_inv:
  assumes "record_failure_with_reason cfg reason ans gen clk s = Some s'" "breaker_inv s"
  shows "breaker_inv s'"
proof (cases ans)
  case WriteLocal
  with assms show ?thesis
    by (simp add: record_failure_with_reason_def record_local_failure_def record_local_failure_inv)
next
  case (Applied cs)
  with assms obtain s1 where
    "record_local_failure_locked cfg reason (clk 0) (clk 1) (clk 2) s = Some s1"
    and "s' = s1 \<or> (\<exists>g. s' = apply_circuit_snapshot cs g (success_threshold cfg) (clk 3) (clk 4) s1)"
    by (auto simp: record_failure_with_reason_def bind_eq_Some_conv Let_def split: if_splits)
  with assms(2) show ?thesis
    by (auto intro: apply_circuit_snapshot_inv record_local_failure_inv)
next
  case StrictUnavailable
  with assms show ?thesis
    by (auto simp: record_failure_with_reason_def bind_eq_Some_conv
        intro: protect_local_cooldown_inv record_local_failure_inv)
qed

lemma record_failure_circuit_inv:
  assumes "record_failure_circuit cfg ans gen clk s = Some s'" "breaker_inv s"
  shows "breaker_inv s'"
proof (cases ans)
  case StrictUnavailable
  with assms(1) obtain g where "s' = protect_local_cooldown cfg (clk 0)
      (s\<lparr>circuit_updates := (fence_of s)\<lparr>generation := g\<rparr>\<rparr>)"
    by (auto simp: record_failure_circuit_def bind_eq_Some_conv)
  moreover have "breaker_inv (s\<lparr>circuit_updates := (fence_of s)\<lparr>generation := g\<rparr>\<rparr>)"
    using assms(2) by (simp add: breaker_inv_def)
  ultimately show ?thesis
    by (simp add: protect_local_cooldown_inv)
qed (use assms in \<open>auto simp: record_failure_circuit_def intro: apply_circuit_snapshot_inv\<close>)

lemma publish_probe_inv:
  assumes "breaker_inv s"
  shows "breaker_inv (publish_probe_health_unchecked target millis now s)"
proof -
  let ?s0 = "(set_probe_health_status target millis s)\<lparr>probe_unhealthy := (target = Unhealthy)\<rparr>"
  obtain c s1 where c: "is_in_cooldown now ?s0 = (c, s1)"
    by (metis surj_pair)
  have "breaker_inv ?s0"
    using assms by (simp add: breaker_inv_def set_probe_health_status_def)
  then have "breaker_inv s1"
    by (rule breaker_inv_frame)
      (use is_in_cooldown_frame [of now ?s0] is_in_cooldown_health [of now ?s0]
        breaker_invD(2) [OF \<open>breaker_inv ?s0\<close>] c in simp_all)
  moreover have "breaker_inv (s1\<lparr>health := health_to_u8 h\<rparr>)" for h
    using \<open>breaker_inv s1\<close> by (simp add: breaker_inv_def)
  ultimately show ?thesis
    using c by (simp add: publish_probe_health_unchecked_def Let_def split: option.split)
qed

lemma window_ops_inv:
  assumes "breaker_inv s"
  shows "breaker_inv (roll_minute_window now rn s)" and "breaker_inv (reset_minute now s)"
    and "breaker_inv (clear_disabled_probe_failure s)"
  using assms
  by (simp_all add: breaker_inv_def roll_minute_window_def with_current_minute_def
      reset_minute_def finish_minute_reset_def clear_disabled_probe_failure_def Let_def)

lemma breaker_step_inv: "breaker_step s s' \<Longrightarrow> breaker_inv s \<Longrightarrow> breaker_inv s'"
proof (induction rule: breaker_step.induct)
  case (success tokens lat a now rn s a' s')
  note eff = record_success_effect [OF success.hyps]
  show ?case
    by (rule breaker_invI)
      (use eff breaker_invD [OF success.prems] in \<open>auto simp: algebra_simps\<close>)
next
  case (cooldown_check s now)
  then show ?case
    by (rule breaker_inv_frame)
      (use breaker_invD(2) [OF cooldown_check.prems] is_in_cooldown_health [of now s] in simp_all)
next
  case (insertion identity s s')
  then show ?case
    by (auto simp: breaker_inv_def for_snapshot_insertion_with_provider_def next_generation_def
        bind_eq_Some_conv)
qed (simp_all add: record_local_failure_def record_success_circuit_inv record_local_failure_inv
      record_failure_with_reason_inv record_failure_circuit_inv apply_circuit_snapshot_inv
      publish_probe_inv window_ops_inv)

interpretation breaker: invariant_system breaker_init breaker_step breaker_inv
  by unfold_locales
    (auto simp: breaker_init_def intro: breaker_step_inv, simp add: breaker_inv_def)

subsection \<open>Properties of the breaker\<close>

lemma locally_selectable_iff:
  "fst (locally_selectable now s) \<longleftrightarrow>
     cooldown_until s \<le> now \<and> is_healthy (snd (is_in_cooldown now s))"
  by (cases "is_in_cooldown now s")
    (use is_in_cooldown_fst [of now s] in \<open>auto simp: locally_selectable_def not_less\<close>)


lemma manual_failure_example:
  "record_local_failure router_config_default Manual 100 100 100 (new_for_provider_instance 0 100)
     = Some ((new_for_provider_instance 0 100)
        \<lparr>health := 4, total_requests := 1, fail_requests := 1, fails_this_minute := 1,
         cooldown_until := 105, last_request_at := 100, consecutive_successes := 0,
         circuit_updates := \<lparr>generation = 1, local_cooldown_until = 105, failure_window = 0,
           local_failure_floor = 1, local_recovery_successes = Some 0\<rparr>\<rparr>)"
  by (simp add: record_local_failure_def record_local_failure_locked_def
      record_failure_with_minute_counters_def with_current_minute_def enter_minute_def
      minute_window_needs_roll_def observed_minute_counters_def health_status_of_def
      checked_add_def should_cooldown_def failure_fence_def protect_local_cooldown_def
      enter_cooldown_def router_config_default_def max_def Let_def)


text \<open>
  When a failure trips the breaker.  A failure of the kind counted per minute opens
  the breaker exactly when it is at least the configured number of failures of the current
  minute and the minute has seen the minimum number of outcomes; every directly disabling
  reason opens it at once.  An opened breaker is in cooldown until the later of the
  previous local deadline and the configured time from now; otherwise an available
  deployment is merely degraded and keeps its deadline.
\<close>

theorem record_local_failure_trips:
  assumes "record_local_failure cfg reason now rn cn s = Some s'" "reason \<noteq> HighFailureRate"
  defines "m \<equiv> enter_minute now rn s"
  defines "trips \<equiv> reason \<noteq> ConsecutiveFailures
    \<or> (fails_this_minute m + 1 \<ge> allowed_fails cfg
       \<and> successes_this_minute m + ucast (fails_this_minute m + 1) \<ge> ucast (min_requests cfg))"
  shows "if trips
         then health_status_of s' = Cooldown
              \<and> cooldown_until s' = max (local_cooldown_until (fence_of s)) (cn + cooldown_time_secs cfg)
              \<and> local_cooldown_until (fence_of s') = cooldown_until s'
         else health_status_of s' = (if health_status_of s \<in> {Healthy, Unknown} then Degraded
                                     else health_status_of s)
              \<and> cooldown_until s' = cooldown_until s
              \<and> local_cooldown_until (fence_of s') = local_cooldown_until (fence_of s)"
  using assms(1) unfolding record_local_failure_def
proof (rule record_local_failure_cases)
  fix g mc s1
  assume mc: "mc = fst (record_failure_with_minute_counters now rn s)"
    and s1: "s1 = (snd (record_failure_with_minute_counters now rn s))
                \<lparr>circuit_updates := failure_fence g mc (fence_of s)\<rparr>"
    and out: "should_cooldown cfg reason mc s1 = Some True \<and> s' = protect_local_cooldown cfg cn s1
         \<or> should_cooldown cfg reason mc s1 = Some False \<and> s' = s1"
  have "should_cooldown cfg reason mc s1 = Some trips"
    using assms(2) unfolding trips_def m_def
    by (cases reason) (simp_all add: should_cooldown_def mc record_failure_counters
        record_failure_minute)
  moreover have "health_status_of s1
      = health_status_of (snd (record_failure_with_minute_counters now rn s))"
    by (simp add: s1 health_status_of_def)
  ultimately show ?thesis
    using out by (auto simp: s1 record_failure_health)
qed

theorem record_local_failure_trips_witness:
  "\<exists>s'. record_local_failure router_config_default Manual 100 100 100
           (new_for_provider_instance 0 100) = Some s'
        \<and> health_status_of s' = Cooldown \<and> cooldown_until s' = 105"
proof -
  obtain s' where s': "record_local_failure router_config_default Manual 100 100 100
      (new_for_provider_instance 0 100) = Some s'"
    using manual_failure_example by blast
  from record_local_failure_trips [OF this] s' show ?thesis
    by (simp add: max_def)
qed

text \<open>
  C31.  A shared restriction cannot be bypassed: whatever other tasks do to the deployment
  while the two observation rounds wait, if every answer the shared breaker gives forbids
  the selection (it is open, or half-open and probed by another replica, or unreachable in
  strict mode), the deployment is not selected.
\<close>

definition forbids :: "circuit_observe \<Rightarrow> bool" where
  "forbids ans \<longleftrightarrow> ans = Blocked \<or> (\<exists>cs. ans = Shared cs \<and> blocks_selection cs)"

lemma selectable_round_forbidden:
  "forbids (answer rd) \<Longrightarrow> fst (selectable_round cfg rd s) \<noteq> Some True"
  by (auto simp: forbids_def selectable_round_def Let_def split: if_splits)

theorem shared_restriction_never_bypassed:
  assumes "forbids (answer rd1)" and "forbids (answer rd2)"
  shows "\<not> fst (deployment_is_selectable_with_observer cfg rd1 rd2 s)"
  using selectable_round_forbidden [OF assms(1), of cfg s]
    selectable_round_forbidden [OF assms(2)]
  by (auto simp: deployment_is_selectable_with_observer_def
      split: option.splits prod.splits) (metis fst_conv)+

theorem shared_restriction_never_bypassed_witness:
  "\<not> fst (deployment_is_selectable_with_observer router_config_default
        \<lparr>answer = Blocked, during_await = id, between_locks = id, read_apply = 1, read_roll = 1,
         read_cooldown = 1\<rparr>
        \<lparr>answer = Shared \<lparr>status = 1, opened_until = 9, fails = 3, shared_consecutive_successes = 0,
           shared_health = 4, owned = False\<rparr>, during_await = id, between_locks = id,
         read_apply = 1, read_roll = 1, read_cooldown = 1\<rparr> (new_for_provider_instance 0 0))"
  by (rule shared_restriction_never_bypassed) (simp_all add: forbids_def blocks_selection_def)

end
