(* ===== verification/Shared_Circuit.thy ===== *)
theory Shared_Circuit
  imports Circuit
begin

section \<open>The shared breaker: the single-key script\<close>

text \<open>
  Models the Lua script of \<^verbatim>\<open>src/storage/redis/circuit.rs\<close>, its arguments
  (\<^verbatim>\<open>CircuitArgs\<close>), the parsing of its reply, and the arguments the router
  passes (\<open>invoke\<close> of \<^verbatim>\<open>src/core/router/circuit.rs\<close>).

  Redis runs a script atomically, so one invocation is one transition of the key.  The
  script's numbers are integers far below \<open>2 ^ 53\<close> and are modelled as \<open>int\<close>; the
  failure rate is the quotient the script computes.  The key is absent (\<open>None\<close>) or a hash
  with the second at which it expires; \<open>server_now\<close> is the clock of the server, which
  decides expiry, and \<open>now_secs\<close> the clock the calling replica sends.
\<close>

record circuit_hash =
  h_f :: int
  h_r :: int
  h_tot :: int
  h_fail :: int
  h_opened :: int
  h_consec :: int
  h_e :: int
  h_health :: int
  h_owner :: string
  h_own_until :: int

record circuit_args =
  op :: string
  now_secs :: int
  window_epoch :: int
  token :: string
  arg_allowed_fails :: int
  arg_min_requests :: int
  cooldown_secs :: int
  arg_success_threshold :: int
  reason_arg :: int

type_synonym circuit_key = "(circuit_hash \<times> int) option"

definition load_state :: "int \<Rightarrow> circuit_key \<Rightarrow> circuit_hash" where
  "load_state server_now k =
     (let empty = \<lparr>h_f = 0, h_r = 0, h_tot = 0, h_fail = 0, h_opened = 0, h_consec = 0, h_e = 0,
                   h_health = 1, h_owner = [], h_own_until = 0\<rparr>
      in case k of
           None \<Rightarrow> empty
         | Some (h, expires) \<Rightarrow> if expires \<le> server_now then empty else h)"

definition claim_owner :: "circuit_args \<Rightarrow> circuit_hash \<Rightarrow> circuit_hash" where
  "claim_owner a h =
     (if h_owner h = [] \<or> h_own_until h \<le> now_secs a
      then h\<lparr>h_consec := 0, h_owner := token a,
             h_own_until := (if now_secs a + cooldown_secs a < now_secs a + 1
                             then now_secs a + 1 else now_secs a + cooldown_secs a),
             h_health := 2\<rparr>
      else h)"

definition clear_owner :: "circuit_hash \<Rightarrow> circuit_hash" where
  "clear_owner h = h\<lparr>h_owner := [], h_own_until := 0\<rparr>"

definition enter_epoch :: "circuit_args \<Rightarrow> circuit_hash \<Rightarrow> circuit_hash" where
  "enter_epoch a h = (if h_e h \<noteq> window_epoch a
                      then h\<lparr>h_f := 0, h_r := 0, h_e := window_epoch a\<rparr> else h)"

definition trip :: "circuit_args \<Rightarrow> circuit_hash \<Rightarrow> bool" where
  "trip a h \<longleftrightarrow>
     (if reason_arg a = 1 then True
      else if reason_arg a = 2
      then h_tot h \<ge> arg_min_requests a \<and> real_of_int (h_fail h * 100) / real_of_int (h_tot h) > 50
      else h_f h \<ge> arg_allowed_fails a \<and> h_r h + h_f h \<ge> arg_min_requests a)"

definition script_fail :: "circuit_args \<Rightarrow> circuit_hash \<Rightarrow> circuit_hash" where
  "script_fail a h =
     (let h = h\<lparr>h_tot := h_tot h + 1, h_fail := h_fail h + 1, h_f := h_f h + 1, h_consec := 0\<rparr>
      in if h_opened h > now_secs a then h\<lparr>h_health := 4\<rparr>
         else if h_opened h > 0
         then (clear_owner (h\<lparr>h_opened := now_secs a + cooldown_secs a\<rparr>))\<lparr>h_health := 4\<rparr>
         else if trip a h
         then (clear_owner (h\<lparr>h_opened := now_secs a + cooldown_secs a\<rparr>))\<lparr>h_health := 4\<rparr>
         else if h_health h = 1 \<or> h_health h = 0 then h\<lparr>h_health := 2\<rparr>
         else h)"

definition owns_probe :: "circuit_args \<Rightarrow> circuit_hash \<Rightarrow> bool" where
  "owns_probe a h \<longleftrightarrow> h_owner h = token a \<and> h_own_until h > now_secs a"

definition script_ok :: "circuit_args \<Rightarrow> circuit_hash \<Rightarrow> circuit_hash" where
  "script_ok a h =
     (let h = h\<lparr>h_tot := h_tot h + 1, h_r := h_r h + 1\<rparr>;
          h = (if h_opened h = 0 \<or> owns_probe a h then h\<lparr>h_consec := h_consec h + 1\<rparr> else h)
      in if h_opened h > now_secs a then h\<lparr>h_health := 4\<rparr>
         else if h_opened h > 0
         then (if owns_probe a h
               then (if h_consec h \<ge> arg_success_threshold a
                     then (clear_owner (h\<lparr>h_opened := 0\<rparr>))\<lparr>h_health := 1\<rparr>
                     else claim_owner a h)
               else h)
         else if h_health h = 2 \<and> h_consec h \<ge> arg_success_threshold a
         then h\<lparr>h_health := 1\<rparr>
         else h)"

text \<open>The last part of the script: the status, and the claim of a free half-open probe.\<close>

definition script_status :: "circuit_args \<Rightarrow> circuit_hash \<Rightarrow> int \<times> int \<times> circuit_hash" where
  "script_status a h =
     (if h_opened h > now_secs a then (1, 0, h)
      else if h_opened h > 0
      then (let h = claim_owner a h in (2, if h_owner h = token a then 1 else 0, h))
      else (0, 1, h))"

definition script_apply :: "circuit_args \<Rightarrow> circuit_hash \<Rightarrow> circuit_hash" where
  "script_apply a h =
     (if op a = ''fail'' then script_fail a h
      else if op a = ''ok'' then script_ok a h
      else h)"

definition circuit_script ::
  "int \<Rightarrow> circuit_args \<Rightarrow> circuit_key \<Rightarrow> int list \<times> circuit_key" where
  "circuit_script server_now a k =
     (let live = (case k of None \<Rightarrow> False | Some (_, expires) \<Rightarrow> server_now < expires);
          h0 = load_state server_now k;
          (status, own, h) = script_status a (script_apply a (enter_epoch a h0));
          ttl = max 600 (max (h_opened h - now_secs a + 1) (h_own_until h - now_secs a + 1));
          stored = (if op a \<noteq> ''observe'' \<or> h_opened h > 0 then Some h
                    else if live then Some h0 else None)
      in ([status, h_opened h, h_f h, h_consec h, h_health h, own],
          map_option (\<lambda>h. (h, server_now + ttl)) stored))"

definition parse_circuit_state :: "i64 list \<Rightarrow> string + circuit_state" where
  "parse_circuit_state values =
     (if length values \<noteq> 6 then Inl ''Unexpected Redis circuit result length''
      else Inr \<lparr>status = values ! 0, opened_until = i64_max0 (values ! 1),
                fails = i64_max0 (values ! 2),
                shared_consecutive_successes = i64_max0 (values ! 3),
                shared_health = values ! 4, owned = (values ! 5 = 1)\<rparr>)"

text \<open>The arguments the router passes for one of its configurations.\<close>

definition invoke_args ::
  "router_config \<Rightarrow> string \<Rightarrow> string \<Rightarrow> int \<Rightarrow> int \<Rightarrow> circuit_args" where
  "invoke_args cfg tok oper now reason =
     \<lparr>op = oper, now_secs = now, window_epoch = now div 60, token = tok,
      arg_allowed_fails = uint (allowed_fails cfg), arg_min_requests = uint (min_requests cfg),
      cooldown_secs = min (uint (cooldown_time_secs cfg)) (2 ^ 63 - 1),
      arg_success_threshold = uint (success_threshold cfg), reason_arg = reason\<rparr>"

definition circuit_invoke ::
  "bool \<Rightarrow> int \<Rightarrow> circuit_args \<Rightarrow> circuit_key \<Rightarrow> (string + circuit_state) \<times> circuit_key" where
  "circuit_invoke noop_mode server_now a k =
     (if noop_mode then (Inl ''circuit redis backend is unavailable'', k)
      else (let (reply, k) = circuit_script server_now a k
            in (parse_circuit_state (map word_of_int reply), k)))"

subsection \<open>What a reply says\<close>

lemma script_reply_parsed:
  "parse_circuit_state (map word_of_int (fst (circuit_script server_now a k)))
     = Inr cs \<Longrightarrow>
   blocks_selection cs \<longleftrightarrow>
     (case script_status a (script_apply a (enter_epoch a (load_state server_now k))) of
        (st, own, h) \<Rightarrow> st = 1 \<or> (st = 2 \<and> own = 0))"
  by (auto simp: circuit_script_def parse_circuit_state_def blocks_selection_def Let_def
      script_status_def split: prod.splits if_splits)

lemma circuit_invoke_total:
  "\<exists>cs. fst (circuit_invoke False server_now a k) = Inr cs"
  by (cases "circuit_script server_now a k")
    (auto simp: circuit_invoke_def circuit_script_def parse_circuit_state_def Let_def
      split: prod.splits)

text \<open>
  One invocation seen at the hash: the final hash, and whether the caller is turned away.
\<close>

definition script_hash :: "circuit_args \<Rightarrow> circuit_hash \<Rightarrow> circuit_hash" where
  "script_hash a h = snd (snd (script_status a (script_apply a (enter_epoch a h))))"

definition turned_away :: "circuit_args \<Rightarrow> circuit_hash \<Rightarrow> bool" where
  "turned_away a h =
     (case script_status a (script_apply a (enter_epoch a h)) of
        (st, own, _) \<Rightarrow> st = 1 \<or> (st = 2 \<and> own = 0))"

lemma enter_epoch_simps [simp]:
  "h_opened (enter_epoch a h) = h_opened h" "h_owner (enter_epoch a h) = h_owner h"
  "h_own_until (enter_epoch a h) = h_own_until h" "h_consec (enter_epoch a h) = h_consec h"
  "h_health (enter_epoch a h) = h_health h"
  by (simp_all add: enter_epoch_def)

lemmas script_defs = script_hash_def turned_away_def script_status_def script_apply_def
  script_fail_def script_ok_def owns_probe_def clear_owner_def claim_owner_def Let_def

lemma circuit_invoke_live:
  assumes "server_now < e" and "h_opened (script_hash a h) > 0"
  shows "\<exists>cs. circuit_invoke False server_now a (Some (h, e)) =
           (Inr cs, Some (script_hash a h, server_now +
              max 600 (max (h_opened (script_hash a h) - now_secs a + 1)
                           (h_own_until (script_hash a h) - now_secs a + 1))))
         \<and> (blocks_selection cs \<longleftrightarrow> turned_away a h)"
proof -
  obtain cs where cs: "fst (circuit_invoke False server_now a (Some (h, e))) = Inr cs"
    using circuit_invoke_total by blast
  then have "parse_circuit_state (map word_of_int (fst (circuit_script server_now a (Some (h, e)))))
      = Inr cs"
    by (simp add: circuit_invoke_def split: prod.splits)
  from script_reply_parsed [OF this] assms(1) have "blocks_selection cs \<longleftrightarrow> turned_away a h"
    by (simp add: load_state_def turned_away_def)
  moreover have "snd (circuit_invoke False server_now a (Some (h, e))) =
      Some (script_hash a h, server_now +
              max 600 (max (h_opened (script_hash a h) - now_secs a + 1)
                           (h_own_until (script_hash a h) - now_secs a + 1)))"
    using assms
    by (cases "script_status a (script_apply a (enter_epoch a h))")
      (auto simp: circuit_invoke_def circuit_script_def load_state_def script_hash_def Let_def)
  ultimately show ?thesis
    using cs by (metis prod.collapse)
qed

subsection \<open>Exclusive recovery probes\<close>

text \<open>
  \<open>probe_held who u h\<close>: until \<open>u\<close> nobody but \<open>who\<close> gets through, because
  \<open>who\<close> owns the half-open probe or the breaker is open.
\<close>

definition probe_held :: "string \<Rightarrow> int \<Rightarrow> circuit_hash \<Rightarrow> bool" where
  "probe_held who u h \<longleftrightarrow>
     h_opened h > 0 \<and> (h_opened h \<ge> u \<or> (h_owner h = who \<and> h_own_until h \<ge> u))"

lemma probe_held_step:
  assumes "probe_held who u h" and "who \<noteq> []"
    and "0 \<le> now_secs a" "now_secs a < u" "u \<le> now_secs a + cooldown_secs a"
    and "\<not> (op a = ''ok'' \<and> token a = who)"
  shows "probe_held who u (script_hash a h)"
  using assms by (auto simp: probe_held_def script_defs)

lemma probe_held_turned_away:
  assumes "probe_held who u h" and "who \<noteq> []" and "token a \<noteq> who"
    and "0 \<le> now_secs a" "now_secs a < u" "u \<le> now_secs a + cooldown_secs a"
  shows "turned_away a h"
  using assms by (auto simp: probe_held_def script_defs)

text \<open>A sequence of invocations by any replicas, the server's clock agreeing with theirs.\<close>

fun script_run :: "circuit_args list \<Rightarrow> circuit_key \<Rightarrow> circuit_key" where
  "script_run [] k = k"
| "script_run (a # as) k = script_run as (snd (circuit_invoke False (now_secs a) a k))"

definition key_held :: "string \<Rightarrow> int \<Rightarrow> circuit_key \<Rightarrow> bool" where
  "key_held who u k \<longleftrightarrow> (\<exists>h e. k = Some (h, e) \<and> u < e \<and> probe_held who u h)"

lemma key_held_step:
  assumes "key_held who u k" and "who \<noteq> []"
    and "0 \<le> now_secs a" "now_secs a < u" "u \<le> now_secs a + cooldown_secs a"
    and "\<not> (op a = ''ok'' \<and> token a = who)"
  shows "key_held who u (snd (circuit_invoke False (now_secs a) a k))"
proof -
  from assms(1) obtain h e where k: "k = Some (h, e)" "u < e" and h: "probe_held who u h"
    by (auto simp: key_held_def)
  from probe_held_step [OF h assms(2-6)] have h': "probe_held who u (script_hash a h)" .
  have "now_secs a < e"
    using assms(4) k(2) by simp
  moreover have "h_opened (script_hash a h) > 0"
    using h' by (simp add: probe_held_def)
  ultimately have "snd (circuit_invoke False (now_secs a) a k) =
      Some (script_hash a h, now_secs a +
              max 600 (max (h_opened (script_hash a h) - now_secs a + 1)
                           (h_own_until (script_hash a h) - now_secs a + 1)))"
    using circuit_invoke_live [of "now_secs a" e a h] k(1) by auto
  with h' show ?thesis
    by (auto simp: key_held_def probe_held_def)
qed

lemma key_held_run:
  assumes "who \<noteq> []" and "key_held who u k"
    and "\<forall>a \<in> set as. 0 \<le> now_secs a \<and> now_secs a < u \<and> u \<le> now_secs a + cooldown_secs a
           \<and> \<not> (op a = ''ok'' \<and> token a = who)"
  shows "key_held who u (script_run as k)"
  using assms(2,3) by (induction as arbitrary: k) (auto intro!: key_held_step assms(1))

text \<open>
  C28.  The half-open probe is exclusive among replicas.  Once a replica holds the probe
  lease of a live key until \<open>u\<close>, then whatever any replicas invoke meanwhile (the holder's
  own success reports apart, which may close the breaker), every other replica that asks
  before \<open>u\<close> is refused; the key cannot expire before the lease does.
\<close>

theorem probe_lease_exclusive:
  assumes "k = Some (h, e)" and "u < e" and "who \<noteq> []"
    and "h_opened h > 0" "h_owner h = who" "h_own_until h = u"
    and "\<forall>a \<in> set as. 0 \<le> now_secs a \<and> now_secs a < u \<and> u \<le> now_secs a + cooldown_secs a
           \<and> \<not> (op a = ''ok'' \<and> token a = who)"
    and "token b \<noteq> who" "0 \<le> now_secs b" "now_secs b < u" "u \<le> now_secs b + cooldown_secs b"
    and "fst (circuit_invoke False (now_secs b) b (script_run as k)) = Inr cs"
  shows "blocks_selection cs"
proof -
  have "key_held who u (script_run as k)"
    by (rule key_held_run [OF assms(3) _ assms(7)])
      (use assms(1-6) in \<open>auto simp: key_held_def probe_held_def\<close>)
  then obtain h' e' where k': "script_run as k = Some (h', e')" "u < e'" "probe_held who u h'"
    by (auto simp: key_held_def)
  have "turned_away b h'"
    using probe_held_turned_away [OF k'(3) assms(3,8-11)] .
  moreover have "parse_circuit_state
      (map word_of_int (fst (circuit_script (now_secs b) b (Some (h', e'))))) = Inr cs"
    using assms(12) k'(1) by (simp add: circuit_invoke_def split: prod.splits)
  ultimately show ?thesis
    using script_reply_parsed [of "now_secs b" b "Some (h', e')" cs] k'(2) assms(10)
    by (simp add: load_state_def turned_away_def)
qed


definition probe_example :: "string \<Rightarrow> int \<Rightarrow> string \<Rightarrow> circuit_args" where
  "probe_example oper now tok = invoke_args router_config_default tok oper now 1"

definition leased_example :: circuit_hash where
  "leased_example = \<lparr>h_f = 1, h_r = 0, h_tot = 1, h_fail = 1, h_opened = 105, h_consec = 0,
     h_e = 1, h_health = 2, h_owner = ''a'', h_own_until = 110\<rparr>"

lemma leased_example_reached:
  "script_run [probe_example ''fail'' 100 ''b'', probe_example ''observe'' 105 ''a''] None
     = Some (leased_example, 705)"
  by (simp add: circuit_invoke_def circuit_script_def script_defs load_state_def probe_example_def
      invoke_args_def router_config_default_def enter_epoch_def trip_def leased_example_def)

theorem probe_lease_exclusive_witness:
  "\<exists>k cs. k = script_run [probe_example ''fail'' 100 ''b'', probe_example ''observe'' 105 ''a''] None
     \<and> fst (circuit_invoke False 109 (probe_example ''observe'' 109 ''c'')
             (script_run [probe_example ''ok'' 106 ''b''] k)) = Inr cs
     \<and> blocks_selection cs"
proof -
  let ?k = "Some (leased_example, 705)"
  obtain cs where cs: "fst (circuit_invoke False 109 (probe_example ''observe'' 109 ''c'')
             (script_run [probe_example ''ok'' 106 ''b''] ?k)) = Inr cs"
    using circuit_invoke_total by blast
  have "blocks_selection cs"
    by (rule probe_lease_exclusive [of ?k leased_example 705 110 "''a''"
          "[probe_example ''ok'' 106 ''b'']" "probe_example ''observe'' 109 ''c''"])
      (use cs in \<open>simp_all add: leased_example_def probe_example_def invoke_args_def
        router_config_default_def\<close>)
  with cs leased_example_reached show ?thesis by metis
qed

text \<open>
  Who gets past an opened breaker.  While it is open or half-open, an invocation that
  is not refused comes after the cooldown, from the current holder of the probe lease or when
  no live lease exists, and is no failure report.  Moreover the breaker leaves the opened
  state only on a success report of the live lease holder whose count of consecutive
  successes thereby reaches the threshold.
\<close>

theorem opened_breaker_gate:
  assumes "h_opened h > 0" "0 \<le> now_secs a" "cooldown_secs a > 0"
  shows "(\<not> turned_away a h \<longrightarrow>
            h_opened h \<le> now_secs a \<and> op a \<noteq> ''fail''
            \<and> (h_owner h = token a \<or> h_owner h = [] \<or> h_own_until h \<le> now_secs a))
         \<and> (h_opened (script_hash a h) \<le> 0 \<longleftrightarrow>
            op a = ''ok'' \<and> h_opened h \<le> now_secs a \<and> owns_probe a h
            \<and> h_consec h + 1 \<ge> arg_success_threshold a)"
  using assms by (auto simp: script_defs)

theorem opened_breaker_gate_witness:
  "\<not> turned_away (probe_example ''observe'' 111 ''c'') leased_example
   \<and> h_opened (script_hash (probe_example ''ok'' 107 ''a'') leased_example) > 0"
proof -
  have "\<not> turned_away (probe_example ''observe'' 111 ''c'') leased_example"
    by (simp add: script_defs leased_example_def probe_example_def invoke_args_def
        router_config_default_def enter_epoch_def)
  moreover have "h_opened (script_hash (probe_example ''ok'' 107 ''a'') leased_example) > 0"
    using opened_breaker_gate [of leased_example "probe_example ''ok'' 107 ''a''"]
    by (simp add: leased_example_def probe_example_def invoke_args_def router_config_default_def
        not_le)
  ultimately show ?thesis by blast
qed

subsection \<open>Recovery\<close>

text \<open>The lease holder reports successes while its lease lives.\<close>

definition owner_ok :: "circuit_hash \<Rightarrow> circuit_args \<Rightarrow> bool" where
  "owner_ok h a \<longleftrightarrow> op a = ''ok'' \<and> token a = h_owner h \<and> h_opened h \<le> now_secs a
     \<and> now_secs a < h_own_until h"

lemma owner_ok_step:
  assumes "h_opened h > 0" "h_owner h \<noteq> []" "owner_ok h a"
    and "h_consec h + 1 < arg_success_threshold a"
  shows "h_opened (script_hash a h) = h_opened h" "h_owner (script_hash a h) = h_owner h"
    "h_own_until (script_hash a h) = h_own_until h"
    "h_consec (script_hash a h) = h_consec h + 1"
  using assms by (auto simp: script_defs owner_ok_def)

lemma owner_ok_close:
  assumes "h_opened h > 0" "owner_ok h a" "arg_success_threshold a \<le> h_consec h + 1"
  shows "h_opened (script_hash a h) = 0" "h_health (script_hash a h) = 1"
  using assms by (auto simp: script_defs owner_ok_def)

text \<open>
  C30.  The shared breaker recovers: as many success reports of the lease holder within its
  lease as are missing to the threshold close the breaker and make it healthy, the last of
  them and none before it.
\<close>

theorem lease_holder_recovers:
  assumes "h_opened h > 0" "h_owner h \<noteq> []"
    and "\<forall>a \<in> set as. owner_ok h a \<and> arg_success_threshold a = th"
    and "as \<noteq> []" "h_consec h + int (length as) = th"
  shows "h_opened (fold script_hash as h) = 0 \<and> h_health (fold script_hash as h) = 1
         \<and> (\<forall>n < length as. h_opened (fold script_hash (take n as) h) > 0)"
  using assms
proof (induction as arbitrary: h)
  case Nil
  then show ?case by simp
next
  case (Cons a as)
  have ok: "owner_ok h a" "arg_success_threshold a = th"
    using Cons.prems(3) by auto
  show ?case
  proof (cases "as = []")
    case True
    with Cons.prems ok owner_ok_close [of h a] show ?thesis by auto
  next
    case False
    then have "h_consec h + 1 < arg_success_threshold a"
      using Cons.prems(5) ok(2) by (cases as) auto
    note step = owner_ok_step [OF Cons.prems(1,2) ok(1) this]
    have "owner_ok (script_hash a h) = owner_ok h"
      using step by (auto simp: owner_ok_def fun_eq_iff)
    with Cons.IH [of "script_hash a h"] Cons.prems False step
    have IH: "h_opened (fold script_hash as (script_hash a h)) = 0
       \<and> h_health (fold script_hash as (script_hash a h)) = 1
       \<and> (\<forall>n < length as. h_opened (fold script_hash (take n as) (script_hash a h)) > 0)"
      by auto
    have "h_opened (fold script_hash (take n (a # as)) h) > 0" if "n < Suc (length as)" for n
      using that IH Cons.prems(1) by (cases n) auto
    with IH show ?thesis by auto
  qed
qed

theorem lease_holder_recovers_witness:
  "h_opened (fold script_hash [probe_example ''ok'' 107 ''a'', probe_example ''ok'' 108 ''a'',
       probe_example ''ok'' 109 ''a''] leased_example) = 0"
  using lease_holder_recovers [of leased_example "[probe_example ''ok'' 107 ''a'',
      probe_example ''ok'' 108 ''a'', probe_example ''ok'' 109 ''a'']" 3]
  by (simp add: leased_example_def probe_example_def invoke_args_def router_config_default_def
      owner_ok_def)

end
