(* ===== verification/Probe_Group.thy ===== *)
theory Probe_Group
  imports Deployment
begin

section \<open>Publication of a probe result to a group\<close>

text \<open>
  Models \<open>publish_probe_group\<close> of \<^verbatim>\<open>src/core/router/deployment/probe_state.rs\<close>.

  Several handles may share one resource, so the states live in a store, addressed by the
  identity of the resource's probe lifecycle.  A handle is that identity and the generation
  it was created with.  All lifecycle locks of the group are held from the check to the end
  of the publication, which is therefore one transition.  Handles of one resource that are
  both current are clones of one handle and share its probe evidence, which is why the
  evidence is part of the stored state.
\<close>

type_synonym probe_handle = "nat \<times> u64"
type_synonym state_store = "nat \<Rightarrow> deployment_state"

fun unique_handles :: "nat set \<Rightarrow> probe_handle list \<Rightarrow> probe_handle list" where
  "unique_handles seen [] = []"
| "unique_handles seen (h # hs) =
     (if fst h \<in> seen then unique_handles seen hs
      else h # unique_handles (insert (fst h) seen) hs)"

definition group_is_stale :: "probe_handle list \<Rightarrow> state_store \<Rightarrow> bool" where
  "group_is_stale handles store =
     (let unique = sort_key fst (unique_handles {} handles);
          guards = map (\<lambda>h. probe_lifecycle (store (fst h))) unique;
          locked = zip unique guards
      in list_ex (\<lambda>(h, g). g \<noteq> snd h) locked
         \<or> list_ex (\<lambda>d. list_ex (\<lambda>(h, g). fst h = fst d \<and> g \<noteq> snd d) locked) handles)"

definition publish_at ::
  "health_status \<Rightarrow> u64 \<Rightarrow> u64 \<Rightarrow> probe_handle \<Rightarrow> state_store \<Rightarrow> state_store" where
  "publish_at target now_millis now h store =
     store(fst h := publish_probe_health_unchecked target now_millis now (store (fst h)))"

definition publish_probe_group ::
  "probe_handle list \<Rightarrow> health_status \<Rightarrow> u64 \<Rightarrow> u64 \<Rightarrow> state_store \<Rightarrow> bool \<times> state_store" where
  "publish_probe_group handles target now_millis now store =
     (if group_is_stale handles store then (False, store)
      else (True, fold (publish_at target now_millis now) handles store))"

lemma unique_handles_subset: "set (unique_handles seen hs) \<subseteq> set hs"
  by (induction seen hs rule: unique_handles.induct) auto

lemma unique_handles_covers: "fst ` set hs \<subseteq> fst ` set (unique_handles seen hs) \<union> seen"
  by (induction seen hs rule: unique_handles.induct) (auto split: if_splits)

lemma group_is_stale_iff:
  "group_is_stale hs store \<longleftrightarrow> (\<exists>h \<in> set hs. probe_lifecycle (store (fst h)) \<noteq> snd h)"
proof -
  let ?u = "sort_key fst (unique_handles {} hs)"
  have locked: "set (zip ?u (map (\<lambda>h. probe_lifecycle (store (fst h))) ?u))
      = (\<lambda>h. (h, probe_lifecycle (store (fst h)))) ` set (unique_handles {} hs)"
    by (simp add: zip_map2 zip_same_conv_map)
  have "group_is_stale hs store \<longleftrightarrow>
      (\<exists>h \<in> set (unique_handles {} hs). probe_lifecycle (store (fst h)) \<noteq> snd h)
      \<or> (\<exists>d \<in> set hs. \<exists>h \<in> set (unique_handles {} hs). fst h = fst d
            \<and> probe_lifecycle (store (fst h)) \<noteq> snd d)"
    by (simp add: group_is_stale_def Let_def list_ex_iff locked del: set_zip)
  also have "\<dots> \<longleftrightarrow> (\<exists>h \<in> set hs. probe_lifecycle (store (fst h)) \<noteq> snd h)"
  proof
    assume "\<exists>h \<in> set hs. probe_lifecycle (store (fst h)) \<noteq> snd h"
    then obtain d where d: "d \<in> set hs" "probe_lifecycle (store (fst d)) \<noteq> snd d" by blast
    then obtain h where "h \<in> set (unique_handles {} hs)" "fst h = fst d"
      using unique_handles_covers [of hs "{}"] by fastforce
    with d show "(\<exists>h \<in> set (unique_handles {} hs). probe_lifecycle (store (fst h)) \<noteq> snd h)
      \<or> (\<exists>d \<in> set hs. \<exists>h \<in> set (unique_handles {} hs). fst h = fst d
            \<and> probe_lifecycle (store (fst h)) \<noteq> snd d)"
      by metis
  next
    assume "(\<exists>h \<in> set (unique_handles {} hs). probe_lifecycle (store (fst h)) \<noteq> snd h)
      \<or> (\<exists>d \<in> set hs. \<exists>h \<in> set (unique_handles {} hs). fst h = fst d
            \<and> probe_lifecycle (store (fst h)) \<noteq> snd d)"
    then show "\<exists>h \<in> set hs. probe_lifecycle (store (fst h)) \<noteq> snd h"
    proof (elim disjE bexE conjE)
      fix d h
      assume "d \<in> set hs" "fst h = fst d" "probe_lifecycle (store (fst h)) \<noteq> snd d"
      then show ?thesis by (intro bexI [of _ d]) simp_all
    qed (use unique_handles_subset [of "{}" hs] in blast)
  qed
  finally show ?thesis .
qed

text \<open>Publishing does not move the lifecycle, and sets the evidence of the handle.\<close>

lemma publish_unchecked_frame [simp]:
  "probe_lifecycle (publish_probe_health_unchecked t ms now s) = probe_lifecycle s"
  "probe_generation (publish_probe_health_unchecked t ms now s) = probe_generation s"
  "probe_health (publish_probe_health_unchecked t ms now s) = health_to_u8 t"
  "probe_unhealthy (publish_probe_health_unchecked t ms now s) = (t = Unhealthy)"
  "active_requests (publish_probe_health_unchecked t ms now s) = active_requests s"
  "cooldown_until (publish_probe_health_unchecked t ms now s) = cooldown_until s"
  by (simp_all add: publish_probe_health_unchecked_def set_probe_health_status_def
      is_in_cooldown_def Let_def split: option.splits)

lemma publish_fold:
  "(a \<in> fst ` set hs \<longrightarrow> probe_health (fold (publish_at t ms now) hs store a) = health_to_u8 t
      \<and> probe_unhealthy (fold (publish_at t ms now) hs store a) = (t = Unhealthy))
   \<and> (a \<notin> fst ` set hs \<longrightarrow> fold (publish_at t ms now) hs store a = store a)
   \<and> probe_lifecycle (fold (publish_at t ms now) hs store a) = probe_lifecycle (store a)"
proof (induction hs rule: rev_induct)
  case (snoc h hs)
  then show ?case by (cases "a = fst h") (auto simp: publish_at_def)
qed simp

text \<open>
  A probe result is published to its whole group or to none of it.  If the handle of
  any member is outdated (its resource was re-inserted since the probe started) nothing
  changes anywhere and the call reports failure; otherwise every resource of the group, and
  no other, carries the result afterwards, and the group is still current.
\<close>

theorem publish_probe_group_atomic:
  "case publish_probe_group handles target millis now store of
     (ok, store') \<Rightarrow>
       ok = (\<forall>h \<in> set handles. probe_lifecycle (store (fst h)) = snd h)
       \<and> (if ok
          then (\<forall>a. if a \<in> fst ` set handles
                     then probe_health (store' a) = health_to_u8 target
                          \<and> probe_unhealthy (store' a) = (target = Unhealthy)
                          \<and> probe_lifecycle (store' a) = probe_lifecycle (store a)
                     else store' a = store a)
          else store' = store)"
proof -
  have stale: "group_is_stale handles store
      \<longleftrightarrow> \<not> (\<forall>h \<in> set handles. probe_lifecycle (store (fst h)) = snd h)"
    using group_is_stale_iff by auto
  show ?thesis
    using publish_fold [where hs = handles and store = store and t = target and ms = millis
        and now = now]
    unfolding publish_probe_group_def stale by simp
qed

theorem publish_probe_group_atomic_witness:
  "publish_probe_group [(0, 0), (1, 7)] Unhealthy 5 5 (\<lambda>_. new_for_provider_instance 0 0)
     = (False, \<lambda>_. new_for_provider_instance 0 0)"
  using publish_probe_group_atomic [where handles = "[(0, 0), (1, 7)]" and target = Unhealthy
      and millis = 5 and now = 5 and store = "\<lambda>_. new_for_provider_instance 0 0"]
  by (auto split: prod.splits if_splits)

end
