(* ===== verification/Admission.thy ===== *)
theory Admission
  imports Token_Ledger Router_Types
begin

section \<open>Admission and the leases of selected deployments\<close>

text \<open>
  Models the admission backend of \<^verbatim>\<open>src/core/router/admission.rs\<close>, the atomic
  reservation \<open>try_reserve_deployment\<close> and the \<open>DeploymentLease\<close> of
  \<^verbatim>\<open>src/core/router/selection.rs\<close>, which releases the reservation.

  The default backend keeps the token ledger of the deployment itself.  The shared backend
  (Redis) is reached by commands: its answer to a reservation, the identifier it was made
  under and the outcome of a command are arguments, and an operation returns the commands it
  sends.  What other tasks do to a deployment between the token reservation and the
  compare-exchange on the active-request counter (\<open>ae_between\<close>) is an argument too.
\<close>

subsection \<open>The admission backend\<close>

datatype admission_backend = InProcessAdmission | RedisAdmission

datatype admission_reserve = Skipped | Denied | Unavailable | Granted admission_hold

text \<open>
  The shared backend's answer to a reservation; \<open>NoReply\<close> covers every failure of the
  connection and an exhausted cleanup capacity.
\<close>

datatype admission_reply = Allowed string | Refused | NoReply

text \<open>A command that completes a lease: the deployment, the lease and the completion.\<close>

type_synonym admission_command = "string \<times> string \<times> admission_completion"

definition to_i64 :: "u64 \<Rightarrow> int" where
  "to_i64 v = min (uint v) (2 ^ 63 - 1)"

definition option_limit :: "int option \<Rightarrow> int" where
  "option_limit limit = (case limit of Some v \<Rightarrow> if v \<ge> 0 then v else - 1 | None \<Rightarrow> - 1)"

definition hex_digit :: "nat \<Rightarrow> char" where
  "hex_digit n = char_of (if n < 10 then 48 + n else 87 + n)"

definition hex_encode :: "u8 list \<Rightarrow> string" where
  "hex_encode bytes = concat (map (\<lambda>b. [hex_digit (unat b div 16), hex_digit (unat b mod 16)]) bytes)"

definition shared_state_id :: "'p deployment \<Rightarrow> string" where
  "shared_state_id d =
     (case runtime_identity (state d) of
        Some identity \<Rightarrow> dep_id d @ '':'' @ hex_encode identity
      | None \<Rightarrow> dep_id d)"

definition new_shared_hold :: "string \<Rightarrow> string \<Rightarrow> admission_hold" where
  "new_shared_hold lease_id deployment_id =
     Redis \<lparr>hold_lease_id = lease_id, hold_deployment_id = deployment_id,
            shared_completion = Some CancelShared\<rparr>"

definition reserve_async ::
  "admission_backend \<Rightarrow> admission_reply \<Rightarrow> u64 \<Rightarrow> u64 \<Rightarrow> 'p deployment \<Rightarrow> u64
     \<Rightarrow> admission_reserve \<times> deployment_state" where
  "reserve_async backend reply now rn d est =
     (let max_parallel = option_limit (map_option uint (max_parallel_requests (config d)));
          max_rpm = option_limit (map_option to_i64 (rpm_limit (config d)));
          max_tpm = option_limit (map_option to_i64 (tpm_limit (config d)))
      in if max_parallel < 0 \<and> max_rpm < 0 \<and> max_tpm < 0 then (Skipped, state d)
         else
           (case backend of
              InProcessAdmission \<Rightarrow>
                (case tpm_limit (config d) of
                   Some limit \<Rightarrow>
                     (case reserve_local_tokens (max est 1) limit now rn (state d) of
                        (Some hold, s') \<Rightarrow> (Granted (InProcess hold), s')
                      | (None, s') \<Rightarrow> (Denied, s'))
                 | None \<Rightarrow> (Skipped, state d))
            | RedisAdmission \<Rightarrow>
                (case reply of
                   Allowed lease_id \<Rightarrow>
                     (Granted (new_shared_hold lease_id (shared_state_id d)), state d)
                 | Refused \<Rightarrow> (Denied, state d)
                 | NoReply \<Rightarrow> (Unavailable, state d))))"

definition shared_completion_of :: "string \<Rightarrow> u64 \<Rightarrow> admission_completion" where
  "shared_completion_of oper tokens =
     (if oper = ''settle'' then SettleShared (to_i64 tokens)
      else if oper = ''retain'' then RetainShared (to_i64 tokens)
      else CancelShared)"

text \<open>
  Finishing a hold: a local one acts on the deployment's ledger; a shared one sends its
  command and owes it no longer if the command succeeded (\<open>ok\<close>).
\<close>

definition admission_finish ::
  "admission_backend \<Rightarrow> bool \<Rightarrow> string \<Rightarrow> u64 \<Rightarrow> u64 \<Rightarrow> u64 \<Rightarrow> admission_hold \<Rightarrow> deployment_state
     \<Rightarrow> admission_hold \<times> admission_command list \<times> deployment_state" where
  "admission_finish backend ok oper tokens now rn hold s =
     (case (backend, hold) of
        (InProcessAdmission, InProcess h) \<Rightarrow>
          (let (h', s') = hold_finish oper tokens now rn h s in (InProcess h', [], s'))
      | (InProcessAdmission, Redis _) \<Rightarrow> (hold, [], s)
      | (RedisAdmission, InProcess _) \<Rightarrow> (hold, [], s)
      | (RedisAdmission, Redis inner) \<Rightarrow>
          (let c = shared_completion_of oper tokens
           in (Redis (inner\<lparr>shared_completion := (if ok then None else Some c)\<rparr>),
               [(hold_deployment_id inner, hold_lease_id inner, c)], s)))"

text \<open>The drop of a hold's last owner; a shared one queues the completion it still owes.\<close>

definition drop_hold ::
  "u64 \<Rightarrow> u64 \<Rightarrow> admission_hold \<Rightarrow> deployment_state \<Rightarrow> admission_command list \<times> deployment_state" where
  "drop_hold now rn hold s =
     (case hold of
        InProcess h \<Rightarrow> ([], snd (hold_drop now rn h s))
      | Redis inner \<Rightarrow>
          ((case shared_completion inner of
              None \<Rightarrow> []
            | Some c \<Rightarrow> [(hold_deployment_id inner, hold_lease_id inner, c)]), s))"

definition hold_prepare_settlement :: "u64 \<Rightarrow> admission_hold \<Rightarrow> admission_hold" where
  "hold_prepare_settlement tokens hold =
     (case hold of
        InProcess h \<Rightarrow> InProcess (prepare_settlement h)
      | Redis inner \<Rightarrow> Redis (inner\<lparr>shared_completion := Some (SettleShared (to_i64 tokens))\<rparr>))"

definition hold_prepare_retention :: "u64 \<Rightarrow> admission_hold \<Rightarrow> admission_hold" where
  "hold_prepare_retention minimum hold =
     (case hold of
        InProcess h \<Rightarrow> InProcess (prepare_retention minimum h)
      | Redis inner \<Rightarrow> Redis (inner\<lparr>shared_completion := Some (RetainShared (to_i64 minimum))\<rparr>))"

definition hold_prepare_cancellation :: "admission_hold \<Rightarrow> admission_hold" where
  "hold_prepare_cancellation hold =
     (case hold of
        InProcess h \<Rightarrow> InProcess (prepare_cancellation h)
      | Redis inner \<Rightarrow> Redis (inner\<lparr>shared_completion := Some CancelShared\<rparr>))"

subsection \<open>Reserving a deployment\<close>

record admission_env =
  ae_reply :: admission_reply
  ae_between :: "deployment_state \<Rightarrow> deployment_state"
  ae_clock :: clock
  ae_cancel_ok :: bool

definition reserve_slot :: "u32 option \<Rightarrow> deployment_state \<Rightarrow> bool \<times> deployment_state" where
  "reserve_slot cap s =
     (case cap of
        Some limit \<Rightarrow>
          if active_requests s \<ge> limit then (False, s)
          else (True, s\<lparr>active_requests := active_requests s + 1\<rparr>)
      | None \<Rightarrow> (True, s\<lparr>active_requests := active_requests s + 1\<rparr>))"

text \<open>The cancellation and the drop of the hold on the path where no slot was free.\<close>

definition abandon_hold ::
  "admission_backend \<Rightarrow> admission_env \<Rightarrow> admission_hold option \<Rightarrow> deployment_state
     \<Rightarrow> admission_command list \<times> deployment_state" where
  "abandon_hold backend env hold s =
     (case hold of
        None \<Rightarrow> ([], s)
      | Some hold \<Rightarrow>
          (let (hold, sent, s) = admission_finish backend (ae_cancel_ok env) ''cancel'' 0
                                   (ae_clock env 2) (ae_clock env 3) hold s;
               (queued, s) = drop_hold (ae_clock env 4) (ae_clock env 5) hold s
           in (sent @ queued, s)))"

type_synonym reserve_result =
  "(router_error + admission_hold option) \<times> admission_command list \<times> deployment_state"

definition reserve_with_hold ::
  "admission_backend \<Rightarrow> admission_env \<Rightarrow> 'p deployment \<Rightarrow> string \<Rightarrow> admission_hold option
     \<Rightarrow> deployment_state \<Rightarrow> reserve_result" where
  "reserve_with_hold backend env d expected hold s =
     (case reserve_slot (max_parallel_requests (config d)) (ae_between env s) of
        (True, s) \<Rightarrow> (Inr hold, [], s)
      | (False, s) \<Rightarrow> (Inl (RateLimitExceeded expected), abandon_hold backend env hold s))"

definition try_reserve_deployment ::
  "admission_backend \<Rightarrow> admission_env \<Rightarrow> 'p deployment \<Rightarrow> string \<Rightarrow> u64 \<Rightarrow> reserve_result" where
  "try_reserve_deployment backend env d expected est =
     (if model_name d \<noteq> expected then (Inl (DeploymentNotFound (dep_id d)), [], state d)
      else
        (case reserve_async backend (ae_reply env) (ae_clock env 0) (ae_clock env 1) d est of
           (Denied, s) \<Rightarrow> (Inl (RateLimitExceeded expected), [], s)
         | (Unavailable, s) \<Rightarrow> (Inl (NoAvailableDeployment expected), [], s)
         | (Skipped, s) \<Rightarrow> reserve_with_hold backend env d expected None s
         | (Granted hold, s) \<Rightarrow> reserve_with_hold backend env d expected (Some hold) s))"

definition release_selected_deployment :: "deployment_state \<Rightarrow> deployment_state" where
  "release_selected_deployment s = s\<lparr>active_requests := saturating_sub (active_requests s) 1\<rparr>"

subsection \<open>Leases\<close>

record deployment_lease =
  lease_deployment :: string
  release_on_drop :: bool
  lease_hold :: "admission_hold option"
  async_cleanup :: bool

definition new_lease :: "string \<Rightarrow> admission_hold option \<Rightarrow> deployment_lease" where
  "new_lease i hold =
     \<lparr>lease_deployment = i, release_on_drop = True, lease_hold = hold, async_cleanup = True\<rparr>"

definition synchronous_cleanup :: "deployment_lease \<Rightarrow> deployment_lease" where
  "synchronous_cleanup l = l\<lparr>async_cleanup := False\<rparr>"

definition preserve_admission_usage :: "u64 \<Rightarrow> deployment_lease \<Rightarrow> deployment_lease" where
  "preserve_admission_usage tokens l =
     l\<lparr>lease_hold := map_option (hold_prepare_settlement tokens) (lease_hold l)\<rparr>"

definition preserve_admission_reservation :: "u64 \<Rightarrow> deployment_lease \<Rightarrow> deployment_lease" where
  "preserve_admission_reservation minimum l =
     l\<lparr>lease_hold := map_option (hold_prepare_retention minimum) (lease_hold l)\<rparr>"

definition lease_record_success ::
  "u64 \<Rightarrow> u64 \<Rightarrow> u64 \<Rightarrow> u64 \<Rightarrow> deployment_lease \<Rightarrow> deployment_state
     \<Rightarrow> (deployment_lease \<times> deployment_state) exec" where
  "lease_record_success tokens latency_us now rn l s =
     do {
       (hold, s) \<leftarrow> record_success_with_admission tokens latency_us (lease_hold l) now rn s;
       Some (l\<lparr>lease_hold := hold\<rparr>, s)
     }"

definition lease_record_interrupted_usage ::
  "u64 \<Rightarrow> u64 \<Rightarrow> u64 \<Rightarrow> deployment_lease \<Rightarrow> deployment_state \<Rightarrow> deployment_lease \<times> deployment_state" where
  "lease_record_interrupted_usage tokens now rn l s =
     (let (hold, s) = record_interrupted_usage_with_admission tokens (lease_hold l) now rn s
      in (l\<lparr>lease_hold := hold\<rparr>, s))"

text \<open>
  \<open>commit_admission_async\<close>, \<open>retain_admission_async\<close> and \<open>cancel_admission_async\<close> take the
  hold out of the lease, finish it and drop it.
\<close>

definition lease_finish_admission ::
  "admission_backend \<Rightarrow> bool \<Rightarrow> string \<Rightarrow> u64 \<Rightarrow> clock \<Rightarrow> deployment_lease \<Rightarrow> deployment_state
     \<Rightarrow> deployment_lease \<times> admission_command list \<times> deployment_state" where
  "lease_finish_admission backend ok oper tokens clk l s =
     (case lease_hold l of
        None \<Rightarrow> (l, [], s)
      | Some hold \<Rightarrow>
          (let (hold, sent, s) = admission_finish backend ok oper tokens (clk 0) (clk 1) hold s;
               (queued, s) = drop_hold (clk 2) (clk 3) hold s
           in (l\<lparr>lease_hold := None\<rparr>, sent @ queued, s)))"

definition commit_admission_async ::
  "admission_backend \<Rightarrow> bool \<Rightarrow> u64 \<Rightarrow> clock \<Rightarrow> deployment_lease \<Rightarrow> deployment_state
     \<Rightarrow> deployment_lease \<times> admission_command list \<times> deployment_state" where
  "commit_admission_async backend ok tokens = lease_finish_admission backend ok ''settle'' tokens"

definition retain_admission_async ::
  "admission_backend \<Rightarrow> bool \<Rightarrow> u64 \<Rightarrow> clock \<Rightarrow> deployment_lease \<Rightarrow> deployment_state
     \<Rightarrow> deployment_lease \<times> admission_command list \<times> deployment_state" where
  "retain_admission_async backend ok minimum = lease_finish_admission backend ok ''retain'' minimum"

definition cancel_admission_async ::
  "admission_backend \<Rightarrow> bool \<Rightarrow> clock \<Rightarrow> deployment_lease \<Rightarrow> deployment_state
     \<Rightarrow> deployment_lease \<times> admission_command list \<times> deployment_state" where
  "cancel_admission_async backend ok = lease_finish_admission backend ok ''cancel'' 0"

definition drop_lease ::
  "admission_backend \<Rightarrow> bool \<Rightarrow> clock \<Rightarrow> deployment_lease \<Rightarrow> deployment_state
     \<Rightarrow> admission_command list \<times> deployment_state" where
  "drop_lease backend ok clk l s =
     (let s = (if release_on_drop l then release_selected_deployment s else s);
          (l, sent, s) = (if release_on_drop l \<and> \<not> async_cleanup l
                          then cancel_admission_async backend ok clk l s else (l, [], s))
      in case lease_hold l of
           None \<Rightarrow> (sent, s)
         | Some hold \<Rightarrow> (let (queued, s) = drop_hold (clk 4) (clk 5) hold s in (sent @ queued, s)))"

definition into_deployment_id ::
  "admission_backend \<Rightarrow> bool \<Rightarrow> clock \<Rightarrow> deployment_lease \<Rightarrow> deployment_state
     \<Rightarrow> string \<times> admission_command list \<times> deployment_state" where
  "into_deployment_id backend ok clk l s =
     (let (l, sent, s) = cancel_admission_async backend ok clk (l\<lparr>release_on_drop := False\<rparr>) s;
          (queued, s) = drop_lease backend ok (later 4 clk) l s
      in (lease_deployment l, sent @ queued, s))"

subsection \<open>What a reservation does\<close>

lemma reserve_with_hold_granted:
  "reserve_with_hold backend env d m h s0 = (Inr hold, cmds, s) \<longleftrightarrow>
     hold = h \<and> cmds = []
     \<and> reserve_slot (max_parallel_requests (config d)) (ae_between env s0) = (True, s)"
  by (auto simp: reserve_with_hold_def split: prod.splits bool.splits)

lemma try_reserve_granted_cases:
  assumes "try_reserve_deployment backend env d m est = (Inr hold, cmds, s)"
  obtains (skipped) s0 where "model_name d = m" "cmds = []" "hold = None"
      "reserve_async backend (ae_reply env) (ae_clock env 0) (ae_clock env 1) d est = (Skipped, s0)"
      "reserve_slot (max_parallel_requests (config d)) (ae_between env s0) = (True, s)"
    | (granted) s0 h where "model_name d = m" "cmds = []" "hold = Some h"
      "reserve_async backend (ae_reply env) (ae_clock env 0) (ae_clock env 1) d est = (Granted h, s0)"
      "reserve_slot (max_parallel_requests (config d)) (ae_between env s0) = (True, s)"
  using assms
  by (auto simp: try_reserve_deployment_def reserve_with_hold_granted
      split: if_splits prod.splits admission_reserve.splits)

lemma reserve_slot_True:
  "reserve_slot cap s = (True, s') \<longleftrightarrow>
     s' = s\<lparr>active_requests := active_requests s + 1\<rparr>
     \<and> (\<forall>limit. cap = Some limit \<longrightarrow> active_requests s < limit)"
  by (auto simp: reserve_slot_def split: option.splits)

subsection \<open>What a hold still charges to the ledger\<close>

definition hold_open :: "admission_hold option \<Rightarrow> nat" where
  "hold_open hold = (case hold of Some (InProcess h) \<Rightarrow> open_estimate h | _ \<Rightarrow> 0)"

definition charged_estimate :: "deployment_state \<Rightarrow> nat" where
  "charged_estimate s = unat (active_estimate (ledger_of s))"

text \<open>
  The law every operation on a hold obeys: the ledger's estimate moves by exactly what the
  hold's charge moves.
\<close>

definition moves_with ::
  "admission_hold option \<Rightarrow> deployment_state \<Rightarrow> admission_hold option \<Rightarrow> deployment_state \<Rightarrow> bool" where
  "moves_with hold s hold' s' \<longleftrightarrow>
     (hold_open hold \<le> charged_estimate s \<longrightarrow>
      charged_estimate s' + hold_open hold = charged_estimate s + hold_open hold')"

lemma moves_with_trans:
  "moves_with h s h1 s1 \<Longrightarrow> moves_with h1 s1 h2 s2 \<Longrightarrow> moves_with h s h2 s2"
  by (auto simp: moves_with_def)

lemma hold_open_simps [simp]:
  "hold_open None = 0" "hold_open (Some (Redis inner)) = 0"
  "hold_open (Some (InProcess h)) = open_estimate h"
  by (simp_all add: hold_open_def)

lemma singleton_balance:
  assumes "open_estimate h \<le> charged_estimate s" and "c = None \<longleftrightarrow> completion h = None"
  shows "charged_estimate (finish_prepared c h now rn s) + open_estimate h = charged_estimate s"
proof (cases c)
  case None
  with assms show ?thesis by (simp add: finish_prepared_def open_estimate_def)
next
  case (Some c')
  with assms have "estimate h \<le> active_estimate (ledger_of s)" "open_estimate h = unat (estimate h)"
    by (auto simp: open_estimate_def charged_estimate_def word_le_nat_alt)
  then show ?thesis
    using Some by (simp add: finish_prepared_def with_current_minute_def Let_def charged_estimate_def
        unat_sub word_le_nat_alt)
qed

lemma drop_hold_moves: "drop_hold now rn h s = (q, s') \<Longrightarrow> moves_with (Some h) s None s'"
  by (cases h) (auto simp: drop_hold_def moves_with_def hold_drop_def intro: singleton_balance)

lemma admission_finish_moves:
  "admission_finish backend ok oper tokens now rn h s = (h', q, s') \<Longrightarrow> moves_with (Some h) s (Some h') s'"
  by (cases backend; cases h)
    (auto simp: admission_finish_def moves_with_def hold_finish_def Let_def intro!: singleton_balance
      split: prod.splits)

lemma observation_moves:
  assumes "record_local_observation tokens f a s = (a', s')" and "keeps_ledger f"
  shows "moves_with a s a' s'"
proof (cases a)
  case None
  with assms show ?thesis
    by (auto simp: record_local_observation_def moves_with_def keeps_ledger_def charged_estimate_def)
next
  case (Some x)
  show ?thesis
  proof (cases x)
    case (InProcess h)
    with assms Some show ?thesis
      by (auto simp: record_local_observation_def record_observation_def moves_with_def keeps_ledger_def
          charged_estimate_def open_estimate_def unat_sub word_le_nat_alt split: option.splits)
  next
    case (Redis inner)
    with assms Some show ?thesis
      by (auto simp: record_local_observation_def moves_with_def keeps_ledger_def charged_estimate_def)
  qed
qed

lemma record_success_moves:
  assumes "record_success_with_admission tokens lat a now rn s = Some (a', s')"
  shows "moves_with a s a' s'"
proof -
  obtain s1 s2 where "active_estimate (ledger_of s1) = active_estimate (ledger_of s)"
    and "record_local_observation tokens (count_success tokens) a s1 = (a', s2)"
    and "ledger_of s' = ledger_of s2"
    using assms by (rule record_success_observation)
  then show ?thesis
    using observation_moves [OF _ counters_keep_ledger(1)]
    by (auto simp: moves_with_def charged_estimate_def)
qed

lemma record_interrupted_moves:
  "record_interrupted_usage_with_admission tokens a now rn s = (a', s') \<Longrightarrow> moves_with a s a' s'"
  using observation_moves [OF _ counters_keep_ledger(3), where s = "enter_minute now rn s"]
  by (simp add: record_interrupted_usage_with_admission_def with_current_minute_def moves_with_def
      charged_estimate_def)

lemma prepare_open [simp]:
  "hold_open (map_option (hold_prepare_settlement t) h) = hold_open h"
  "hold_open (map_option (hold_prepare_retention t) h) = hold_open h"
  "hold_open (map_option hold_prepare_cancellation h) = hold_open h"
  by (auto simp: hold_open_def hold_prepare_settlement_def hold_prepare_retention_def
      hold_prepare_cancellation_def prepare_settlement_def prepare_retention_def
      prepare_cancellation_def split: option.split admission_hold.split)

lemma abandon_hold_moves: "abandon_hold backend env h s = (q, s') \<Longrightarrow> moves_with h s None s'"
  by (auto simp: abandon_hold_def moves_with_def split: option.splits prod.splits
      dest!: admission_finish_moves drop_hold_moves)

subsection \<open>Reservations, leases and the active-request counter as a state machine\<close>

text \<open>
  One deployment with all its clients.  A reservation is two atomic steps, the admission
  (after which its hold is pending) and the compare-exchange on the counter; between them,
  and between any operations on a lease, every other step may happen.  \<open>lz_detached\<close> counts
  the leases turned into a bare deployment id that wait for \<open>release_deployment\<close>.
\<close>

record lease_system =
  lz_state :: deployment_state
  lz_pending :: "admission_hold option list"
  lz_leases :: "deployment_lease list"
  lz_detached :: nat

definition drop_nth :: "nat \<Rightarrow> 'a list \<Rightarrow> 'a list" where
  "drop_nth i xs = take i xs @ drop (Suc i) xs"

definition lease_init :: "lease_system \<Rightarrow> bool" where
  "lease_init y \<longleftrightarrow>
     (\<exists>i now. y = \<lparr>lz_state = new_for_provider_instance i now, lz_pending = [], lz_leases = [],
                    lz_detached = 0\<rparr>)"

inductive lease_step ::
  "admission_backend \<Rightarrow> 'p deployment \<Rightarrow> lease_system \<Rightarrow> lease_system \<Rightarrow> bool"
  for backend :: admission_backend and d :: "'p deployment" where
  admit_skipped:
    "reserve_async backend reply now rn (d\<lparr>state := lz_state y\<rparr>) est = (Skipped, s') \<Longrightarrow>
     lease_step backend d y (y\<lparr>lz_state := s', lz_pending := None # lz_pending y\<rparr>)"
| admit_granted:
    "reserve_async backend reply now rn (d\<lparr>state := lz_state y\<rparr>) est = (Granted hold, s') \<Longrightarrow>
     lease_step backend d y (y\<lparr>lz_state := s', lz_pending := Some hold # lz_pending y\<rparr>)"
| admit_refused:
    "reserve_async backend reply now rn (d\<lparr>state := lz_state y\<rparr>) est = (r, s') \<Longrightarrow>
     r \<in> {Denied, Unavailable} \<Longrightarrow> lease_step backend d y (y\<lparr>lz_state := s'\<rparr>)"
| slot_taken:
    "i < length (lz_pending y) \<Longrightarrow>
     reserve_slot (max_parallel_requests (config d)) (lz_state y) = (True, s') \<Longrightarrow>
     lease_step backend d y (y\<lparr>lz_state := s', lz_pending := drop_nth i (lz_pending y),
       lz_leases := new_lease (dep_id d) (lz_pending y ! i) # lz_leases y\<rparr>)"
| slot_full:
    "i < length (lz_pending y) \<Longrightarrow>
     reserve_slot (max_parallel_requests (config d)) (lz_state y) = (False, s') \<Longrightarrow>
     abandon_hold backend env (lz_pending y ! i) s' = (q, s'') \<Longrightarrow>
     lease_step backend d y (y\<lparr>lz_state := s'', lz_pending := drop_nth i (lz_pending y)\<rparr>)"
| succeeded:
    "i < length (lz_leases y) \<Longrightarrow>
     lease_record_success tokens lat now rn (lz_leases y ! i) (lz_state y) = Some (l', s') \<Longrightarrow>
     lease_step backend d y (y\<lparr>lz_state := s', lz_leases := (lz_leases y)[i := l']\<rparr>)"
| interrupted:
    "i < length (lz_leases y) \<Longrightarrow>
     lease_record_interrupted_usage tokens now rn (lz_leases y ! i) (lz_state y) = (l', s') \<Longrightarrow>
     lease_step backend d y (y\<lparr>lz_state := s', lz_leases := (lz_leases y)[i := l']\<rparr>)"
| prepared:
    "i < length (lz_leases y) \<Longrightarrow>
     l' \<in> {preserve_admission_usage tokens (lz_leases y ! i),
           preserve_admission_reservation tokens (lz_leases y ! i),
           synchronous_cleanup (lz_leases y ! i)} \<Longrightarrow>
     lease_step backend d y (y\<lparr>lz_leases := (lz_leases y)[i := l']\<rparr>)"
| finished:
    "i < length (lz_leases y) \<Longrightarrow>
     lease_finish_admission backend ok oper tokens clk (lz_leases y ! i) (lz_state y) = (l', q, s') \<Longrightarrow>
     lease_step backend d y (y\<lparr>lz_state := s', lz_leases := (lz_leases y)[i := l']\<rparr>)"
| dropped:
    "i < length (lz_leases y) \<Longrightarrow>
     drop_lease backend ok clk (lz_leases y ! i) (lz_state y) = (q, s') \<Longrightarrow>
     lease_step backend d y (y\<lparr>lz_state := s', lz_leases := drop_nth i (lz_leases y)\<rparr>)"
| detached:
    "i < length (lz_leases y) \<Longrightarrow>
     into_deployment_id backend ok clk (lz_leases y ! i) (lz_state y) = (j, q, s') \<Longrightarrow>
     lease_step backend d y (y\<lparr>lz_state := s', lz_leases := drop_nth i (lz_leases y),
       lz_detached := Suc (lz_detached y)\<rparr>)"
| released:
    "0 < lz_detached y \<Longrightarrow>
     lease_step backend d y (y\<lparr>lz_state := release_selected_deployment (lz_state y),
       lz_detached := lz_detached y - 1\<rparr>)"
| other:
    "active_requests s' = active_requests (lz_state y) \<Longrightarrow>
     active_estimate (ledger_of s') = active_estimate (ledger_of (lz_state y)) \<Longrightarrow>
     lease_step backend d y (y\<lparr>lz_state := s'\<rparr>)"

definition held :: "lease_system \<Rightarrow> nat" where
  "held y = sum_list (map hold_open (lz_pending y))
            + sum_list (map (\<lambda>l. hold_open (lease_hold l)) (lz_leases y))"

definition open_slots :: "lease_system \<Rightarrow> nat" where
  "open_slots y = length (lz_leases y) + lz_detached y"

definition leases_counted :: "'p deployment \<Rightarrow> lease_system \<Rightarrow> bool" where
  "leases_counted d y \<longleftrightarrow>
     charged_estimate (lz_state y) = held y
     \<and> (\<forall>l \<in> set (lz_leases y). release_on_drop l)
     \<and> (\<forall>limit. max_parallel_requests (config d) = Some limit \<longrightarrow>
          unat (active_requests (lz_state y)) = open_slots y \<and> open_slots y \<le> unat limit)"

subsection \<open>The counter counts the leases\<close>

lemma drop_nth_props:
  assumes "i < length xs"
  shows "Suc (length (drop_nth i xs)) = length xs"
    and "sum_list (map f (drop_nth i xs)) + f (xs ! i) = (sum_list (map f xs) :: nat)"
    and "set (drop_nth i xs) \<subseteq> set xs"
proof -
  show "Suc (length (drop_nth i xs)) = length xs"
    using assms by (simp add: drop_nth_def)
  have "sum_list (map f xs) = sum_list (map f (take i xs @ xs ! i # drop (Suc i) xs))"
    using assms by (simp add: id_take_nth_drop [symmetric])
  then show "sum_list (map f (drop_nth i xs)) + f (xs ! i) = sum_list (map f xs)"
    by (simp add: drop_nth_def)
  show "set (drop_nth i xs) \<subseteq> set xs"
    by (auto simp: drop_nth_def dest: in_set_takeD in_set_dropD)
qed

lemma finish_prepared_active [simp]: "active_requests (finish_prepared c h now rn s) = active_requests s"
  by (simp add: finish_prepared_def with_current_minute_def Let_def split: option.split)

lemma drop_hold_active: "drop_hold now rn h s = (q, s') \<Longrightarrow> active_requests s' = active_requests s"
  by (cases h) (auto simp: drop_hold_def hold_drop_def)

lemma admission_finish_active:
  "admission_finish backend ok oper tokens now rn h s = (h', q, s') \<Longrightarrow>
   active_requests s' = active_requests s"
  by (cases backend; cases h) (auto simp: admission_finish_def hold_finish_def Let_def split: prod.splits)

lemma abandon_hold_active:
  "abandon_hold backend env h s = (q, s') \<Longrightarrow> active_requests s' = active_requests s"
  by (auto simp: abandon_hold_def split: option.splits prod.splits
      dest!: admission_finish_active drop_hold_active)

lemma lease_finish_effect:
  assumes "lease_finish_admission backend ok oper tokens clk l s = (l', q, s')"
  shows "moves_with (lease_hold l) s (lease_hold l') s'" and "active_requests s' = active_requests s"
    and "release_on_drop l' = release_on_drop l" and "lease_hold l' = None"
    and "lease_deployment l' = lease_deployment l"
proof -
  show "moves_with (lease_hold l) s (lease_hold l') s'"
    using assms by (auto simp: lease_finish_admission_def moves_with_def
        split: option.splits prod.splits dest!: admission_finish_moves drop_hold_moves)
  show "active_requests s' = active_requests s"
    using assms by (auto simp: lease_finish_admission_def
        split: option.splits prod.splits dest!: admission_finish_active drop_hold_active)
  show "release_on_drop l' = release_on_drop l" "lease_hold l' = None"
    "lease_deployment l' = lease_deployment l"
    using assms by (auto simp: lease_finish_admission_def split: option.splits prod.splits)
qed

lemma release_ledger [simp]: "charged_estimate (release_selected_deployment s) = charged_estimate s"
  by (simp add: release_selected_deployment_def charged_estimate_def)

lemma drop_lease_effect:
  assumes "drop_lease backend ok clk l s = (q, s')"
  shows "moves_with (lease_hold l) s None s'"
    and "active_requests s' = (if release_on_drop l then saturating_sub (active_requests s) 1
                               else active_requests s)"
proof -
  define s1 where "s1 = (if release_on_drop l then release_selected_deployment s else s)"
  obtain l1 q1 s2 where mid: "(if release_on_drop l \<and> \<not> async_cleanup l
      then cancel_admission_async backend ok clk l s1 else (l, [], s1)) = (l1, q1, s2)"
    by (metis surj_pair)
  have first: "moves_with (lease_hold l) s1 (lease_hold l1) s2" "active_requests s2 = active_requests s1"
    using mid lease_finish_effect
    by (auto simp: cancel_admission_async_def moves_with_def split: if_splits)
  have last: "moves_with (lease_hold l1) s2 None s'" "active_requests s' = active_requests s2"
    using assms mid
    by (auto simp: drop_lease_def Let_def s1_def [symmetric] moves_with_def drop_hold_active
        split: option.splits prod.splits dest!: drop_hold_moves)
  have "charged_estimate s1 = charged_estimate s"
    by (simp add: s1_def)
  with moves_with_trans [OF first(1) last(1)] show "moves_with (lease_hold l) s None s'"
    by (simp add: moves_with_def)
  show "active_requests s' = (if release_on_drop l then saturating_sub (active_requests s) 1
      else active_requests s)"
    by (simp add: last(2) first(2) s1_def release_selected_deployment_def)
qed

lemma into_deployment_id_effect:
  assumes "into_deployment_id backend ok clk l s = (j, q, s')"
  shows "moves_with (lease_hold l) s None s'" and "active_requests s' = active_requests s"
    and "j = lease_deployment l"
proof -
  obtain l1 q1 s1 q2 where
    fin: "cancel_admission_async backend ok clk (l\<lparr>release_on_drop := False\<rparr>) s = (l1, q1, s1)"
    and drp: "drop_lease backend ok (later 4 clk) l1 s1 = (q2, s')" and j: "j = lease_deployment l1"
    using assms by (auto simp: into_deployment_id_def split: prod.splits)
  note f = lease_finish_effect [OF fin [unfolded cancel_admission_async_def]]
  note g = drop_lease_effect [OF drp]
  show "moves_with (lease_hold l) s None s'"
    using moves_with_trans [OF f(1) g(1)] by simp
  show "active_requests s' = active_requests s" "j = lease_deployment l"
    using f g(2) j by simp_all
qed

lemma reserve_async_effect:
  assumes "reserve_async backend reply now rn d est = (r, s')"
  shows "active_requests s' = active_requests (state d)"
    and "charged_estimate s' = charged_estimate (state d)
           + (case r of Granted h \<Rightarrow> hold_open (Some h) | _ \<Rightarrow> 0)"
proof -
  consider (same) "s' = state d" "\<forall>h. r = Granted h \<longrightarrow> hold_open (Some h) = 0"
    | (granted) limit h where "reserve_local_tokens (max est 1) limit now rn (state d) = (Some h, s')"
        "r = Granted (InProcess h)"
    | (denied) limit where "reserve_local_tokens (max est 1) limit now rn (state d) = (None, s')"
        "r = Denied"
    using assms
    by (auto simp: reserve_async_def Let_def new_shared_hold_def
        split: if_splits admission_backend.splits admission_reply.splits option.splits prod.splits)
  then have "active_requests s' = active_requests (state d) \<and>
      charged_estimate s' = charged_estimate (state d)
        + (case r of Granted h \<Rightarrow> hold_open (Some h) | _ \<Rightarrow> 0)"
  proof cases
    case same
    then show ?thesis by (auto split: admission_reserve.split)
  next
    case granted
    from reserve_active [OF granted(1)] granted show ?thesis
      by (auto simp: charged_estimate_def open_estimate_def reserve_local_tokens_def
          with_current_minute_def Let_def split: if_splits)
  next
    case denied
    then show ?thesis
      by (auto simp: charged_estimate_def reserve_local_tokens_def with_current_minute_def Let_def
          split: if_splits)
  qed
  then show "active_requests s' = active_requests (state d)"
    and "charged_estimate s' = charged_estimate (state d)
           + (case r of Granted h \<Rightarrow> hold_open (Some h) | _ \<Rightarrow> 0)"
    by blast+
qed

lemma held_changes:
  "i < length (lz_leases y) \<Longrightarrow>
     held (y\<lparr>lz_state := s, lz_leases := (lz_leases y)[i := l']\<rparr>) + hold_open (lease_hold (lz_leases y ! i))
       = held y + hold_open (lease_hold l')"
  "i < length (lz_leases y) \<Longrightarrow>
     held (y\<lparr>lz_state := s, lz_leases := drop_nth i (lz_leases y)\<rparr>)
       + hold_open (lease_hold (lz_leases y ! i)) = held y"
  "i < length (lz_pending y) \<Longrightarrow>
     held (y\<lparr>lz_state := s, lz_pending := drop_nth i (lz_pending y)\<rparr>) + hold_open (lz_pending y ! i)
       = held y"
  using sum_list_map_ge [of i "lz_leases y" "\<lambda>l. hold_open (lease_hold l)"]
    drop_nth_props(2) [of i "lz_leases y" "\<lambda>l. hold_open (lease_hold l)"]
    drop_nth_props(2) [of i "lz_pending y" hold_open]
  by (simp_all add: held_def sum_list_map_update)

lemma held_ge:
  "i < length (lz_leases y) \<Longrightarrow> hold_open (lease_hold (lz_leases y ! i)) \<le> held y"
  "i < length (lz_pending y) \<Longrightarrow> hold_open (lz_pending y ! i) \<le> held y"
  using sum_list_map_ge [of i "lz_leases y" "\<lambda>l. hold_open (lease_hold l)"]
    sum_list_map_ge [of i "lz_pending y" hold_open]
  by (simp_all add: held_def)

lemma saturating_pred: "unat (saturating_sub a 1) = unat a - 1"
  by (simp add: unat_saturating_sub)

lemma lease_update_counted:
  assumes "leases_counted d y" and "i < length (lz_leases y)"
    and "moves_with (lease_hold (lz_leases y ! i)) (lz_state y) (lease_hold l') s'"
    and "active_requests s' = active_requests (lz_state y)" and "release_on_drop l'"
  shows "leases_counted d (y\<lparr>lz_state := s', lz_leases := (lz_leases y)[i := l']\<rparr>)"
proof -
  have "charged_estimate s' = held (y\<lparr>lz_state := s', lz_leases := (lz_leases y)[i := l']\<rparr>)"
    using assms(1,3) held_ge(1) [OF assms(2)] held_changes(1) [OF assms(2), where s = s' and l' = l']
    by (simp add: leases_counted_def moves_with_def)
  moreover have "\<forall>l \<in> set ((lz_leases y)[i := l']). release_on_drop l"
    using assms(1,5) set_update_subset_insert [of "lz_leases y" i l'] by (auto simp: leases_counted_def)
  ultimately show ?thesis
    using assms(1,4) by (simp add: leases_counted_def open_slots_def)
qed

lemma lease_removed_held:
  assumes "leases_counted d y" and "i < length (lz_leases y)"
    and "moves_with (lease_hold (lz_leases y ! i)) (lz_state y) None s'"
  shows "charged_estimate s' = held (y\<lparr>lz_state := s', lz_leases := drop_nth i (lz_leases y)\<rparr>)"
    and "\<forall>l \<in> set (drop_nth i (lz_leases y)). release_on_drop l"
    and "release_on_drop (lz_leases y ! i)"
    and "Suc (length (drop_nth i (lz_leases y))) = length (lz_leases y)"
  using assms held_ge(1) [OF assms(2)] held_changes(2) [OF assms(2), where s = s']
    drop_nth_props(1,3) [OF assms(2)]
  by (auto simp: leases_counted_def moves_with_def)

lemma pending_removed_held:
  assumes "leases_counted d y" and "i < length (lz_pending y)"
    and "moves_with (lz_pending y ! i) (lz_state y) None s'"
  shows "charged_estimate s' = held (y\<lparr>lz_state := s', lz_pending := drop_nth i (lz_pending y)\<rparr>)"
  using assms held_ge(2) [OF assms(2)] held_changes(3) [OF assms(2), where s = s']
  by (auto simp: leases_counted_def moves_with_def)

lemma lease_step_counted: "lease_step backend d y z \<Longrightarrow> leases_counted d y \<Longrightarrow> leases_counted d z"
proof (induction rule: lease_step.induct)
  case (admit_skipped reply now rn y est s')
  from reserve_async_effect [OF admit_skipped.hyps] admit_skipped.prems show ?case
    by (simp add: leases_counted_def held_def open_slots_def)
next
  case (admit_granted reply now rn y est hold s')
  from reserve_async_effect [OF admit_granted.hyps] admit_granted.prems show ?case
    by (simp add: leases_counted_def held_def open_slots_def)
next
  case (admit_refused reply now rn y est r s')
  from reserve_async_effect [OF admit_refused.hyps(1)] admit_refused show ?case
    by (auto simp: leases_counted_def held_def open_slots_def)
next
  case (slot_taken i y s')
  have "charged_estimate s' = charged_estimate (lz_state y)"
    using slot_taken.hyps(2) by (auto simp: reserve_slot_True charged_estimate_def)
  moreover have "held y = held (y\<lparr>lz_state := s', lz_pending := drop_nth i (lz_pending y),
       lz_leases := new_lease (dep_id d) (lz_pending y ! i) # lz_leases y\<rparr>)"
    using drop_nth_props(2) [OF slot_taken.hyps(1), of hold_open] by (simp add: held_def new_lease_def)
  moreover have "unat (active_requests s') = Suc (unat (active_requests (lz_state y)))
      \<and> unat (active_requests (lz_state y)) < unat limit"
    if "max_parallel_requests (config d) = Some limit" for limit
    using slot_taken.hyps(2) that unat_Suc_less by (auto simp: reserve_slot_True word_less_nat_alt)
  ultimately show ?case
    using slot_taken.prems by (auto simp: leases_counted_def open_slots_def new_lease_def)
next
  case (slot_full i y s' env q s'')
  then have "s' = lz_state y" by (auto simp: reserve_slot_def split: option.splits if_splits)
  with slot_full abandon_hold_moves [OF slot_full.hyps(3)] abandon_hold_active [OF slot_full.hyps(3)]
  show ?case
    using pending_removed_held [of d y i s''] by (simp add: leases_counted_def open_slots_def)
next
  case (succeeded i y tokens lat now rn l' s')
  from succeeded.hyps(2) obtain h where
    rec: "record_success_with_admission tokens lat (lease_hold (lz_leases y ! i)) now rn (lz_state y)
      = Some (h, s')" and l': "l' = (lz_leases y ! i)\<lparr>lease_hold := h\<rparr>"
    by (auto simp: lease_record_success_def split: Option.bind_splits)
  with succeeded show ?case
    using record_success_moves [OF rec] record_success_effect(8) [OF rec]
    by (intro lease_update_counted) (auto simp: leases_counted_def)
next
  case (interrupted i y tokens now rn l' s')
  from interrupted.hyps(2) obtain h where
    rec: "record_interrupted_usage_with_admission tokens (lease_hold (lz_leases y ! i)) now rn
      (lz_state y) = (h, s')" and l': "l' = (lz_leases y ! i)\<lparr>lease_hold := h\<rparr>"
    by (auto simp: lease_record_interrupted_usage_def split: prod.splits)
  have "active_requests s' = active_requests (lz_state y)"
    using rec record_local_observation_frame(8) [of tokens "count_interrupted tokens"
        "lease_hold (lz_leases y ! i)" "enter_minute now rn (lz_state y)"]
    by (simp add: record_interrupted_usage_with_admission_def with_current_minute_def
        count_interrupted_def)
  with interrupted l' show ?case
    using record_interrupted_moves [OF rec]
    by (intro lease_update_counted) (auto simp: leases_counted_def)
next
  case (prepared i y l' tokens)
  from prepared.hyps(2) have "hold_open (lease_hold l') = hold_open (lease_hold (lz_leases y ! i))"
    "release_on_drop l' = release_on_drop (lz_leases y ! i)"
    by (auto simp: preserve_admission_usage_def preserve_admission_reservation_def
        synchronous_cleanup_def)
  with prepared show ?case
    using lease_update_counted [of d y i l' "lz_state y"] by (simp add: leases_counted_def moves_with_def)
next
  case (finished i y ok oper tokens clk l' q s')
  from lease_finish_effect [OF finished.hyps(2)] finished show ?case
    by (intro lease_update_counted) (auto simp: leases_counted_def)
next
  case (dropped i y ok clk q s')
  from drop_lease_effect [OF dropped.hyps(2)] dropped
    lease_removed_held [OF dropped.prems dropped.hyps(1) drop_lease_effect(1) [OF dropped.hyps(2)]]
  show ?case
    by (auto simp: leases_counted_def open_slots_def saturating_pred)
next
  case (detached i y ok clk j q s')
  from into_deployment_id_effect [OF detached.hyps(2)] detached
    lease_removed_held [OF detached.prems detached.hyps(1) into_deployment_id_effect(1) [OF detached.hyps(2)]]
  show ?case
    by (auto simp: leases_counted_def open_slots_def held_def)
next
  case (released y)
  then show ?case
    by (auto simp: leases_counted_def open_slots_def saturating_pred release_selected_deployment_def
        held_def charged_estimate_def)
next
  case (other s' y)
  then show ?case
    by (simp add: leases_counted_def open_slots_def held_def charged_estimate_def)
qed

lemma lease_init_counted: "lease_init y \<Longrightarrow> leases_counted d y"
  by (auto simp: lease_init_def leases_counted_def held_def open_slots_def charged_estimate_def)

interpretation leases: invariant_system lease_init "lease_step backend d" "leases_counted d"
  for backend :: admission_backend and d :: "'p deployment"
  by unfold_locales (auto intro: lease_init_counted lease_step_counted)

text \<open>The reservation the router runs is an admission step followed by a slot step.\<close>

lemma try_reserve_steps:
  assumes "try_reserve_deployment backend env (d\<lparr>state := lz_state y\<rparr>) (model_name d) est = (r, q, s')"
    and "ae_between env = id"
  shows "rtranclp (lease_step backend d) y
           (case r of Inl _ \<Rightarrow> y\<lparr>lz_state := s'\<rparr>
            | Inr hold \<Rightarrow> y\<lparr>lz_state := s', lz_leases := new_lease (dep_id d) hold # lz_leases y\<rparr>)"
proof -
  obtain a s1 where adm: "reserve_async backend (ae_reply env) (ae_clock env 0) (ae_clock env 1)
      (d\<lparr>state := lz_state y\<rparr>) est = (a, s1)"
    by (metis surj_pair)
  have slot: "rtranclp (lease_step backend d) y
      (case r of Inl _ \<Rightarrow> y\<lparr>lz_state := s'\<rparr>
       | Inr hold \<Rightarrow> y\<lparr>lz_state := s', lz_leases := new_lease (dep_id d) hold # lz_leases y\<rparr>)"
    if first: "lease_step backend d y (y\<lparr>lz_state := s1, lz_pending := h # lz_pending y\<rparr>)"
      and second: "reserve_with_hold backend env (d\<lparr>state := lz_state y\<rparr>) (model_name d) h s1 = (r, q, s')"
    for h
  proof -
    let ?y1 = "y\<lparr>lz_state := s1, lz_pending := h # lz_pending y\<rparr>"
    obtain free s2 where slot: "reserve_slot (max_parallel_requests (config d)) s1 = (free, s2)"
      by (metis surj_pair)
    have "lease_step backend d ?y1
      (case r of Inl _ \<Rightarrow> y\<lparr>lz_state := s'\<rparr>
       | Inr hold \<Rightarrow> y\<lparr>lz_state := s', lz_leases := new_lease (dep_id d) hold # lz_leases y\<rparr>)"
    proof (cases free)
      case True
      with second assms(2) slot have "r = Inr h" "s' = s2"
        by (simp_all add: reserve_with_hold_def)
      with slot True lease_step.slot_taken [of 0 ?y1 d s2 backend] show ?thesis
        by (simp add: drop_nth_def)
    next
      case False
      with second assms(2) slot have "r = Inl (RateLimitExceeded (model_name d))"
        and "abandon_hold backend env h s2 = (q, s')"
        by (simp_all add: reserve_with_hold_def)
      with slot False lease_step.slot_full [of 0 ?y1 d s2 backend env q s'] show ?thesis
        by (simp add: drop_nth_def)
    qed
    with first show ?thesis by (rule converse_rtranclp_into_rtranclp [OF _ r_into_rtranclp])
  qed
  show ?thesis
  proof (cases a)
    case Skipped
    with adm assms(1) show ?thesis
      by (intro slot [of None] lease_step.admit_skipped) (auto simp: try_reserve_deployment_def)
  next
    case (Granted h)
    with adm assms(1) show ?thesis
      by (intro slot [of "Some h"] lease_step.admit_granted) (auto simp: try_reserve_deployment_def)
  qed (use adm assms(1) lease_step.admit_refused [OF adm] in
      \<open>auto simp: try_reserve_deployment_def intro!: r_into_rtranclp\<close>)
qed

text \<open>
  C1.  A deployment with a parallel limit never serves more requests than the limit.  For
  every interleaving of reservations (each in its two atomic steps), usage reports, settlements,
  drops, conversions to the legacy id and everything else the router does, the active-request
  counter is exactly the number of leases still open, it never exceeds the limit and the
  saturating decrement never saturates; and the token ledger charges exactly the estimates of
  the holds still open in these leases and in the reservations under way.
\<close>

theorem leases_within_parallel_limit:
  assumes "lease_init y" and "rtranclp (lease_step backend d) y z"
    and "max_parallel_requests (config d) = Some limit"
  shows "unat (active_requests (lz_state z)) = length (lz_leases z) + lz_detached z
         \<and> length (lz_leases z) + lz_detached z \<le> unat limit
         \<and> unat (active_estimate (ledger_of (lz_state z)))
           = sum_list (map hold_open (lz_pending z))
             + sum_list (map (\<lambda>l. hold_open (lease_hold l)) (lz_leases z))"
  using leases.reachable_inv [OF assms(1,2)] assms(3)
  by (simp add: leases_counted_def open_slots_def held_def charged_estimate_def)

definition limited_deployment :: "unit deployment" where
  "limited_deployment =
     (new_with_provider_instance ''d'' () ''m'' ''m'' 0 0)
       \<lparr>config := deployment_config_default\<lparr>max_parallel_requests := Some 2, tpm_limit := Some 10\<rparr>\<rparr>"

theorem leases_within_parallel_limit_witness:
  "\<exists>y z. lease_init y \<and> rtranclp (lease_step InProcessAdmission limited_deployment) y z
     \<and> length (lz_leases z) = 1 \<and> unat (active_requests (lz_state z)) = 1
     \<and> unat (active_estimate (ledger_of (lz_state z))) = 6"
proof -
  let ?y = "\<lparr>lz_state = new_for_provider_instance 0 0, lz_pending = [], lz_leases = [],
             lz_detached = 0\<rparr>"
  let ?env = "\<lparr>ae_reply = NoReply, ae_between = id, ae_clock = \<lambda>_. 5, ae_cancel_ok = True\<rparr>"
  let ?h = "\<lparr>estimate = 6, completion = Some Cancel\<rparr>"
  have init: "lease_init ?y" by (auto simp: lease_init_def)
  have six: "max (6 :: u64) 1 = 6" by (simp add: max_def word_le_nat_alt)
  have "\<exists>s'. try_reserve_deployment InProcessAdmission ?env (limited_deployment\<lparr>state := lz_state ?y\<rparr>)
      (model_name limited_deployment) 6 = (Inr (Some (InProcess ?h)), [], s')"
    using reserve_example
    by (simp add: try_reserve_deployment_def reserve_async_def limited_deployment_def option_limit_def
        reserve_with_hold_def reserve_slot_def new_with_provider_instance_def six
        deployment_config_default_def to_i64_def)
  then obtain s' where "try_reserve_deployment InProcessAdmission ?env
      (limited_deployment\<lparr>state := lz_state ?y\<rparr>) (model_name limited_deployment) 6
      = (Inr (Some (InProcess ?h)), [], s')" by blast
  from try_reserve_steps [OF this] have run: "rtranclp (lease_step InProcessAdmission limited_deployment) ?y
      (?y\<lparr>lz_state := s', lz_leases := [new_lease (dep_id limited_deployment) (Some (InProcess ?h))]\<rparr>)"
    by simp
  define z where "z = ?y\<lparr>lz_state := s',
    lz_leases := [new_lease (dep_id limited_deployment) (Some (InProcess ?h))]\<rparr>"
  have lim: "max_parallel_requests (config limited_deployment) = Some 2"
    by (simp add: limited_deployment_def)
  have "lease_init ?y \<and> rtranclp (lease_step InProcessAdmission limited_deployment) ?y z
     \<and> length (lz_leases z) = 1 \<and> unat (active_requests (lz_state z)) = 1
     \<and> unat (active_estimate (ledger_of (lz_state z))) = 6"
    using leases_within_parallel_limit [OF init run lim] run init unfolding z_def [symmetric]
    by (simp add: z_def new_lease_def open_estimate_def)
  then show ?thesis by blast
qed

end
