(* ===== verification/Shared_Admission.thy ===== *)
theory Shared_Admission
  imports Admission "HOL-Library.AList"
begin

section \<open>Shared admission: the single-key script\<close>

text \<open>
  Models the Lua script of \<^verbatim>\<open>src/storage/redis/admission.rs\<close>, by which all replicas
  share one deployment's parallel, request and token limits, its arguments, the parsing of
  its reply and the commands of the admission backend.

  Redis runs a script atomically, so one invocation is one transition of the key.  The key is
  absent or a hash with the millisecond at which it expires.  Time is the server's (\<open>TIME\<close>:
  seconds and microseconds).  The script's numbers are modelled as integers, which is exact
  below \<open>2 ^ 53\<close>.  A lease is stored as text; its numbers are printed by Lua's \<open>tostring\<close>,
  which switches to exponents at \<open>10 ^ 14\<close>, and a text the script cannot read back is the
  value \<open>None\<close>.
\<close>

subsection \<open>The stored hash\<close>

record lease_entry =
  le_p :: int
  le_rpm :: int
  le_tpm :: int
  le_epoch :: int
  le_expiry :: int

record admission_hash =
  ah_p :: int
  ah_r :: int
  ah_t :: int
  ah_e :: int
  ah_leases :: "(string \<times> lease_entry option) list"

type_synonym admission_key = "(admission_hash \<times> int) option"

definition printable :: "int \<Rightarrow> bool" where
  "printable n \<longleftrightarrow> 0 \<le> n \<and> n < 10 ^ 14"

definition encode_lease :: "lease_entry \<Rightarrow> lease_entry option" where
  "encode_lease x =
     (if printable (le_p x) \<and> printable (le_rpm x) \<and> printable (le_tpm x)
         \<and> printable \<bar>le_epoch x\<bar> \<and> printable (le_expiry x)
      then Some x else None)"

record admission_args =
  aa_op :: string
  aa_max_parallel :: int
  aa_max_rpm :: int
  aa_max_tpm :: int
  aa_rpm_inc :: int
  aa_tpm_inc :: int
  aa_lease_id :: string
  aa_ttl_ms :: int
  aa_actual_tpm :: int

definition finishing :: "admission_args \<Rightarrow> bool" where
  "finishing a \<longleftrightarrow> aa_op a = ''settle'' \<or> aa_op a = ''cancel'' \<or> aa_op a = ''retain''"

subsection \<open>Reclaiming expired leases and rolling the minute\<close>

fun reclaim_fields ::
  "admission_args \<Rightarrow> int \<Rightarrow> bool \<Rightarrow> int \<Rightarrow> (string \<times> lease_entry option) list \<Rightarrow> int \<Rightarrow> int \<Rightarrow> int \<Rightarrow> int
     \<Rightarrow> (string \<times> lease_entry option) list \<times> int \<times> int \<times> int \<times> int" where
  "reclaim_fields a now changed e [] p r t keep = ([], p, r, t, keep)"
| "reclaim_fields a now changed e ((l, entry) # fs) p r t keep =
     (case entry of
        None \<Rightarrow> reclaim_fields a now changed e fs p r t keep
      | Some x \<Rightarrow>
          if le_expiry x \<le> now
          then reclaim_fields a now changed e fs (p - le_p x)
                 (if le_epoch x = e then r - le_rpm x else r)
                 (if le_epoch x = e then t - le_tpm x else t) keep
          else
            (let keep = (if \<not> finishing a \<or> l \<noteq> aa_lease_id a then max keep (le_expiry x) else keep);
                 t = (if changed then t + le_tpm x else t);
                 stored = (if changed then encode_lease (x\<lparr>le_rpm := 0, le_epoch := e\<rparr>) else Some x);
                 (fs, rest) = reclaim_fields a now changed e fs p r t keep
             in ((l, stored) # fs, rest)))"

definition save ::
  "int \<Rightarrow> int \<Rightarrow> int \<Rightarrow> int \<Rightarrow> (string \<times> lease_entry option) list \<Rightarrow> admission_hash" where
  "save p r t e leases =
     \<lparr>ah_p = max p 0, ah_r = max r 0, ah_t = max t 0, ah_e = e, ah_leases = leases\<rparr>"

definition load_admission :: "int \<Rightarrow> admission_key \<Rightarrow> admission_hash" where
  "load_admission now k =
     (let empty = \<lparr>ah_p = 0, ah_r = 0, ah_t = 0, ah_e = 0, ah_leases = []\<rparr>
      in case k of None \<Rightarrow> empty | Some (h, expires) \<Rightarrow> if expires < now then empty else h)"

definition reclaim ::
  "admission_args \<Rightarrow> int \<Rightarrow> int \<Rightarrow> admission_hash
     \<Rightarrow> (string \<times> lease_entry option) list \<times> int \<times> int \<times> int \<times> int \<times> int" where
  "reclaim a now epoch h =
     (let changed = epoch > ah_e h;
          (r, t, e) = (if changed then (0, 0, epoch) else (ah_r h, ah_t h, ah_e h));
          (leases, p, r, t, keep) =
            reclaim_fields a now changed e (ah_leases h) (ah_p h) r t ((epoch + 1) * 60000)
      in (leases, p, r, t, e, keep))"

subsection \<open>The script\<close>

definition script_reserve ::
  "admission_args \<Rightarrow> int \<Rightarrow> (string \<times> lease_entry option) list \<Rightarrow> int \<Rightarrow> int \<Rightarrow> int \<Rightarrow> int \<Rightarrow> int
     \<Rightarrow> int list \<times> admission_hash \<times> int" where
  "script_reserve a now leases p r t e keep =
     (if (aa_max_parallel a \<ge> 0 \<and> p + 1 > aa_max_parallel a)
         \<or> (aa_max_rpm a \<ge> 0 \<and> r + aa_rpm_inc a > aa_max_rpm a)
         \<or> (aa_max_tpm a \<ge> 0 \<and> t + aa_tpm_inc a > aa_max_tpm a)
      then ([0, p, r, t], save p r t e leases, keep)
      else
        (let p = p + 1; r = r + aa_rpm_inc a; t = t + aa_tpm_inc a;
             ttl = max (aa_ttl_ms a) 1;
             stored = encode_lease \<lparr>le_p = 1, le_rpm = aa_rpm_inc a, le_tpm = aa_tpm_inc a,
                                    le_epoch = e, le_expiry = now + ttl\<rparr>
         in ([1, p, r, t], save p r t e (AList.update (aa_lease_id a) stored leases),
             max keep (now + ttl))))"

definition finish_tpm :: "admission_args \<Rightarrow> int \<Rightarrow> int \<Rightarrow> int" where
  "finish_tpm a t tpm =
     (if aa_op a = ''cancel'' then t - tpm
      else if aa_op a = ''settle'' then t - tpm + aa_actual_tpm a
      else t - tpm + max tpm (aa_actual_tpm a))"

definition script_finish ::
  "admission_args \<Rightarrow> (string \<times> lease_entry option) list \<Rightarrow> int \<Rightarrow> int \<Rightarrow> int \<Rightarrow> int \<Rightarrow> int
     \<Rightarrow> int list \<times> admission_hash \<times> int" where
  "script_finish a leases p r t e keep =
     (case map_of leases (aa_lease_id a) of
        None \<Rightarrow> ([1, p, r, t], save p r t e leases, keep)
      | Some entry \<Rightarrow>
          (let (pInc, rpmInc, tpmInc, lease_epoch) =
                 (case entry of
                    Some x \<Rightarrow> (le_p x, le_rpm x, le_tpm x, Some (le_epoch x))
                  | None \<Rightarrow> (1, 0, 0, None));
               p = p - pInc;
               r = (if lease_epoch = Some e \<and> aa_op a = ''cancel'' then r - rpmInc else r);
               t = (if lease_epoch = Some e then finish_tpm a t tpmInc else t)
           in ([1, p, r, t], save p r t e (AList.delete (aa_lease_id a) leases), keep)))"

definition admission_script ::
  "int \<Rightarrow> int \<Rightarrow> admission_args \<Rightarrow> admission_key \<Rightarrow> int list \<times> admission_key" where
  "admission_script secs micros a k =
     (let now = secs * 1000 + micros div 1000;
          (leases, p, r, t, e, keep) = reclaim a now (secs div 60) (load_admission now k);
          (reply, h, keep) =
            (if aa_op a = ''reserve'' then script_reserve a now leases p r t e keep
             else if finishing a then script_finish a leases p r t e keep
             else ([- 1, p, r, t], save p r t e leases, keep))
      in (reply, Some (h, keep)))"

subsection \<open>The caller's side\<close>

record admission_state =
  allowed :: bool
  as_parallel :: int
  as_rpm :: int
  as_tpm :: int

definition parse_admission_state :: "int list \<Rightarrow> string + admission_state" where
  "parse_admission_state values =
     (if length values \<noteq> 4 then Inl ''Unexpected Redis admission result length''
      else if values ! 0 < 0 then Inl ''Redis admission script returned an error status''
      else Inr \<lparr>allowed = (values ! 0 = 1), as_parallel = max (values ! 1) 0,
                as_rpm = max (values ! 2) 0, as_tpm = max (values ! 3) 0\<rparr>)"

definition reserve_args :: "deployment_config \<Rightarrow> u64 \<Rightarrow> string \<Rightarrow> int \<Rightarrow> admission_args" where
  "reserve_args cfg est lease_id ttl_ms =
     (let max_rpm = option_limit (map_option to_i64 (rpm_limit cfg));
          max_tpm = option_limit (map_option to_i64 (tpm_limit cfg))
      in \<lparr>aa_op = ''reserve'',
          aa_max_parallel = option_limit (map_option uint (max_parallel_requests cfg)),
          aa_max_rpm = max_rpm, aa_max_tpm = max_tpm,
          aa_rpm_inc = (if max_rpm \<ge> 0 then 1 else 0),
          aa_tpm_inc = (if max_tpm \<ge> 0 then to_i64 (max est 1) else 0),
          aa_lease_id = lease_id, aa_ttl_ms = ttl_ms, aa_actual_tpm = 0\<rparr>)"

definition finish_args :: "string \<Rightarrow> string \<Rightarrow> int \<Rightarrow> admission_args" where
  "finish_args oper lease_id actual =
     \<lparr>aa_op = oper, aa_max_parallel = - 1, aa_max_rpm = - 1, aa_max_tpm = - 1, aa_rpm_inc = 0,
      aa_tpm_inc = 0, aa_lease_id = lease_id, aa_ttl_ms = 0, aa_actual_tpm = actual\<rparr>"

text \<open>The arguments of the command that delivers a completion.\<close>

definition completion_args :: "string \<Rightarrow> admission_completion \<Rightarrow> admission_args" where
  "completion_args lease_id c =
     (case c of
        CancelShared \<Rightarrow> finish_args ''cancel'' lease_id 0
      | SettleShared tokens \<Rightarrow> finish_args ''settle'' lease_id tokens
      | RetainShared minimum \<Rightarrow> finish_args ''retain'' lease_id minimum)"

definition invoke_admission ::
  "bool \<Rightarrow> int \<Rightarrow> int \<Rightarrow> admission_args \<Rightarrow> admission_key \<Rightarrow> (string + admission_state) \<times> admission_key" where
  "invoke_admission noop_mode secs micros a k =
     (if noop_mode then (Inl ''admission redis backend is unavailable'', k)
      else (let (reply, k) = admission_script secs micros a k in (parse_admission_state reply, k)))"

text \<open>The answer the admission backend takes from a reservation.\<close>

definition reply_of :: "string \<Rightarrow> string + admission_state \<Rightarrow> admission_reply" where
  "reply_of lease_id result =
     (case result of
        Inl _ \<Rightarrow> NoReply
      | Inr st \<Rightarrow> if allowed st then Allowed lease_id else Refused)"

subsection \<open>The specification: quotas without counters\<close>

text \<open>
  What the shared backend promises, without running counters, encodings or key expiry: the
  usage settled in the current minute and the leases still alive.
\<close>

record live_lease =
  live_rpm :: int
  live_tpm :: int
  live_until :: int

record quota =
  q_epoch :: int
  q_rpm :: int
  q_tpm :: int
  q_live :: "string \<rightharpoonup> live_lease"

definition no_quota :: quota where
  "no_quota = \<lparr>q_epoch = 0, q_rpm = 0, q_tpm = 0, q_live = Map.empty\<rparr>"

definition outstanding :: "(live_lease \<Rightarrow> int) \<Rightarrow> quota \<Rightarrow> int" where
  "outstanding f q = (\<Sum>l \<in> dom (q_live q). f (the (q_live q l)))"

definition parallel_used :: "quota \<Rightarrow> int" where
  "parallel_used q = outstanding (\<lambda>_. 1) q"

definition rpm_used :: "quota \<Rightarrow> int" where
  "rpm_used q = q_rpm q + outstanding live_rpm q"

definition tpm_used :: "quota \<Rightarrow> int" where
  "tpm_used q = q_tpm q + outstanding live_tpm q"

text \<open>
  Expired leases give back what they reserved; a new minute forgets settled usage and the
  requests already counted, but carries the tokens of the leases still alive.
\<close>

definition spec_advance :: "int \<Rightarrow> int \<Rightarrow> quota \<Rightarrow> quota" where
  "spec_advance now epoch q =
     (let alive = (\<lambda>l. case q_live q l of
                         Some x \<Rightarrow> if live_until x \<le> now then None else Some x
                       | None \<Rightarrow> None)
      in if epoch > q_epoch q
         then \<lparr>q_epoch = epoch, q_rpm = 0, q_tpm = 0,
               q_live = map_option (\<lambda>x. x\<lparr>live_rpm := 0\<rparr>) \<circ> alive\<rparr>
         else q\<lparr>q_live := alive\<rparr>)"

definition fits :: "int \<Rightarrow> int \<Rightarrow> bool" where
  "fits limit v \<longleftrightarrow> (limit \<ge> 0 \<longrightarrow> v \<le> limit)"

definition spec_reserve :: "admission_args \<Rightarrow> int \<Rightarrow> quota \<Rightarrow> bool \<times> quota" where
  "spec_reserve a now q =
     (let q' = q\<lparr>q_live := (q_live q)(aa_lease_id a \<mapsto>
                 \<lparr>live_rpm = aa_rpm_inc a, live_tpm = aa_tpm_inc a,
                  live_until = now + max (aa_ttl_ms a) 1\<rparr>)\<rparr>
      in if fits (aa_max_parallel a) (parallel_used q + 1)
            \<and> fits (aa_max_rpm a) (rpm_used q + aa_rpm_inc a)
            \<and> fits (aa_max_tpm a) (tpm_used q + aa_tpm_inc a)
         then (True, q') else (False, q))"

definition spec_finish :: "admission_args \<Rightarrow> quota \<Rightarrow> quota" where
  "spec_finish a q =
     (case q_live q (aa_lease_id a) of
        None \<Rightarrow> q
      | Some x \<Rightarrow>
          (let q = q\<lparr>q_live := (q_live q)(aa_lease_id a := None)\<rparr>
           in if aa_op a = ''cancel'' then q
              else q\<lparr>q_rpm := q_rpm q + live_rpm x,
                     q_tpm := q_tpm q + (if aa_op a = ''settle'' then aa_actual_tpm a
                                         else max (live_tpm x) (aa_actual_tpm a))\<rparr>))"

definition spec_step :: "int \<Rightarrow> int \<Rightarrow> admission_args \<Rightarrow> quota \<Rightarrow> int \<times> quota" where
  "spec_step secs micros a q =
     (let now = secs * 1000 + micros div 1000;
          q = spec_advance now (secs div 60) q
      in if aa_op a = ''reserve''
         then (let (ok, q) = spec_reserve a now q in (if ok then 1 else 0, q))
         else if finishing a then (1, spec_finish a q)
         else (- 1, q))"

subsection \<open>The hash represents a quota\<close>

type_synonym leases = "(string \<times> lease_entry) list"

definition live_of :: "lease_entry \<Rightarrow> live_lease" where
  "live_of x = \<lparr>live_rpm = le_rpm x, live_tpm = le_tpm x, live_until = le_expiry x\<rparr>"

definition lsum :: "(lease_entry \<Rightarrow> int) \<Rightarrow> leases \<Rightarrow> int" where
  "lsum f L = sum_list (map (f \<circ> snd) L)"

definition stored :: "leases \<Rightarrow> (string \<times> lease_entry option) list" where
  "stored L = map (apsnd Some) L"

definition quota_of :: "int \<Rightarrow> int \<Rightarrow> int \<Rightarrow> leases \<Rightarrow> quota" where
  "quota_of r t e L =
     \<lparr>q_epoch = e, q_rpm = r - lsum le_rpm L, q_tpm = t - lsum le_tpm L,
      q_live = map_option live_of \<circ> map_of L\<rparr>"

definition entry_ok :: "int \<Rightarrow> lease_entry \<Rightarrow> bool" where
  "entry_ok e x \<longleftrightarrow> le_p x = 1 \<and> le_epoch x = e \<and> encode_lease x = Some x"

definition good :: "leases \<Rightarrow> int \<Rightarrow> int \<Rightarrow> int \<Rightarrow> int \<Rightarrow> bool" where
  "good L p r t e \<longleftrightarrow>
     distinct (map fst L) \<and> (\<forall>x \<in> snd ` set L. entry_ok e x) \<and> p = int (length L)
     \<and> lsum le_rpm L \<le> r \<and> lsum le_tpm L \<le> t"

definition live_list :: "(string \<times> lease_entry option) list \<Rightarrow> leases" where
  "live_list fs = List.map_filter (\<lambda>(l, x). map_option (Pair l) x) fs"

definition abs_key :: "admission_key \<Rightarrow> quota" where
  "abs_key k =
     (case k of
        None \<Rightarrow> no_quota
      | Some (h, _) \<Rightarrow> quota_of (ah_r h) (ah_t h) (ah_e h) (live_list (ah_leases h)))"

definition key_ok :: "admission_key \<Rightarrow> bool" where
  "key_ok k \<longleftrightarrow>
     (case k of
        None \<Rightarrow> True
      | Some (h, expires) \<Rightarrow>
          (let L = live_list (ah_leases h)
           in ah_leases h = stored L \<and> good L (ah_p h) (ah_r h) (ah_t h) (ah_e h)
              \<and> (ah_e h + 1) * 60000 \<le> expires \<and> (\<forall>x \<in> snd ` set L. le_expiry x \<le> expires)))"

lemma live_list_stored [simp]: "live_list (stored L) = L"
  by (induction L) (auto simp: live_list_def stored_def List.map_filter_simps)

lemma stored_simps [simp]:
  "stored [] = []" "stored ((l, x) # L) = (l, Some x) # stored L"
  "stored (L @ L') = stored L @ stored L'"
  by (simp_all add: stored_def)

lemma lsum_simps [simp]:
  "lsum f [] = 0" "lsum f ((l, x) # L) = f x + lsum f L" "lsum f (L @ L') = lsum f L + lsum f L'"
  by (simp_all add: lsum_def)

lemma sum_dom_map_of:
  assumes "distinct (map fst L)"
  shows "(\<Sum>l \<in> dom (map_of L). f (the (map_of L l))) = lsum f L"
  using assms
proof (induction L)
  case (Cons y L)
  obtain l x where y: "y = (l, x)" by (cases y)
  with Cons.prems have l: "l \<notin> dom (map_of L)"
    by (auto simp: dom_map_of_conv_image_fst)
  then have "(\<Sum>k \<in> dom (map_of L). f (the (map_of (y # L) k)))
      = (\<Sum>k \<in> dom (map_of L). f (the (map_of L k)))"
    unfolding y by (intro sum.cong) auto
  also have "\<dots> = lsum f L"
    using Cons by simp
  finally have rest: "(\<Sum>k \<in> dom (map_of L). f (the (map_of (y # L) k))) = lsum f L" .
  have "dom (map_of (y # L)) = insert l (dom (map_of L))"
    by (simp add: y dom_map_of_conv_image_fst)
  then have "(\<Sum>k \<in> dom (map_of (y # L)). f (the (map_of (y # L) k)))
      = f (the (map_of (y # L) l)) + (\<Sum>k \<in> dom (map_of L). f (the (map_of (y # L) k)))"
    by (simp only: sum.insert [OF finite_dom_map_of l])
  with rest show ?case
    by (simp only:) (simp add: y)
qed simp

lemma dom_map_option_comp: "dom (map_option f \<circ> m) = dom m"
  by (auto simp: dom_def)

lemma outstanding_quota_of:
  assumes "distinct (map fst L)"
  shows "outstanding f (quota_of r t e L) = lsum (f \<circ> live_of) L"
proof -
  have "outstanding f (quota_of r t e L) = (\<Sum>l \<in> dom (map_of L). (f \<circ> live_of) (the (map_of L l)))"
    unfolding outstanding_def quota_of_def quota.simps dom_map_option_comp
    by (intro sum.cong) auto
  also have "\<dots> = lsum (f \<circ> live_of) L"
    using assms by (rule sum_dom_map_of)
  finally show ?thesis .
qed

lemma lsum_live [simp]:
  "lsum (live_rpm \<circ> live_of) L = lsum le_rpm L" "lsum (live_tpm \<circ> live_of) L = lsum le_tpm L"
  "lsum ((\<lambda>_. 1) \<circ> live_of) L = int (length L)"
  by (simp_all add: lsum_def live_of_def comp_def sum_list_triv)

lemma used_quota_of:
  assumes "good L p r t e"
  shows "parallel_used (quota_of r t e L) = p" and "rpm_used (quota_of r t e L) = r"
    and "tpm_used (quota_of r t e L) = t"
proof -
  have "distinct (map fst L)" and "p = int (length L)"
    using assms by (simp_all add: good_def)
  then show "parallel_used (quota_of r t e L) = p" "rpm_used (quota_of r t e L) = r"
    "tpm_used (quota_of r t e L) = t"
    by (simp_all add: parallel_used_def rpm_used_def tpm_used_def outstanding_quota_of)
      (simp_all add: quota_of_def)
qed

subsection \<open>Reclaiming refines the passage of time\<close>

definition roll_entry :: "bool \<Rightarrow> int \<Rightarrow> lease_entry \<Rightarrow> lease_entry" where
  "roll_entry changed e x = (if changed then x\<lparr>le_rpm := 0, le_epoch := e\<rparr> else x)"

definition survivors :: "int \<Rightarrow> bool \<Rightarrow> int \<Rightarrow> leases \<Rightarrow> leases" where
  "survivors now changed e L = map (apsnd (roll_entry changed e)) (filter (\<lambda>(l, x). now < le_expiry x) L)"

definition protects :: "admission_args \<Rightarrow> int \<Rightarrow> leases \<Rightarrow> bool" where
  "protects a keep L \<longleftrightarrow>
     (\<forall>(l, x) \<in> set L. (finishing a \<and> l = aa_lease_id a) \<or> le_expiry x \<le> keep)"

lemma survivors_simps [simp]:
  "survivors now changed e [] = []"
  "survivors now changed e ((l, x) # L) =
     (if now < le_expiry x then (l, roll_entry changed e x) # survivors now changed e L
      else survivors now changed e L)"
  by (simp_all add: survivors_def)

lemma roll_entry_simps [simp]:
  "le_p (roll_entry c e x) = le_p x" "le_tpm (roll_entry c e x) = le_tpm x"
  "le_expiry (roll_entry c e x) = le_expiry x"
  "roll_entry False e x = x" "le_rpm (roll_entry True e x) = 0" "le_epoch (roll_entry True e x) = e"
  by (simp_all add: roll_entry_def)

lemma entry_ok_roll:
  assumes "entry_ok e0 x" and "changed \<Longrightarrow> printable \<bar>e\<bar>" and "\<not> changed \<Longrightarrow> e = e0"
  shows "entry_ok e (roll_entry changed e x)"
  using assms by (auto simp: entry_ok_def roll_entry_def encode_lease_def printable_def split: if_splits)

lemma reclaim_fields_stored:
  assumes "\<forall>x \<in> snd ` set L. entry_ok e0 x"
    and "changed \<Longrightarrow> e0 \<noteq> e \<and> printable \<bar>e\<bar>" and "\<not> changed \<Longrightarrow> e = e0"
  shows "\<exists>keep'. reclaim_fields a now changed e (stored L) p r t keep =
     (stored (survivors now changed e L),
      p + int (length (survivors now changed e L)) - int (length L),
      r + (if changed then 0 else lsum le_rpm (survivors now changed e L) - lsum le_rpm L),
      t + lsum le_tpm (survivors now changed e L) - (if changed then 0 else lsum le_tpm L), keep')
     \<and> keep \<le> keep' \<and> protects a keep' (survivors now changed e L)"
  using assms(1)
proof (induction L arbitrary: p r t keep)
  case Nil
  then show ?case by (simp add: protects_def)
next
  case (Cons y L)
  obtain l x where y: "y = (l, x)" by (cases y)
  have x: "entry_ok e0 x" and ok: "\<forall>x \<in> snd ` set L. entry_ok e0 x"
    using Cons.prems by (auto simp: y)
  show ?case
  proof (cases "le_expiry x \<le> now")
    case True
    with Cons.IH [OF ok, of "p - 1" "if changed then r else r - le_rpm x"
        "if changed then t else t - le_tpm x" keep] x assms(2,3) show ?thesis
      by (cases changed) (auto simp: y entry_ok_def algebra_simps)
  next
    case False
    define keep1 where
      "keep1 = (if \<not> finishing a \<or> l \<noteq> aa_lease_id a then max keep (le_expiry x) else keep)"
    have enc: "(if changed then encode_lease (x\<lparr>le_rpm := 0, le_epoch := e\<rparr>) else Some x)
        = Some (roll_entry changed e x)"
      using entry_ok_roll [OF x, of changed e] assms(2,3)
      by (cases changed) (auto simp: entry_ok_def roll_entry_def)
    obtain keep' where ih: "reclaim_fields a now changed e (stored L) p r
        (if changed then t + le_tpm x else t) keep1 =
        (stored (survivors now changed e L),
         p + int (length (survivors now changed e L)) - int (length L),
         r + (if changed then 0 else lsum le_rpm (survivors now changed e L) - lsum le_rpm L),
         (if changed then t + le_tpm x else t) + lsum le_tpm (survivors now changed e L)
           - (if changed then 0 else lsum le_tpm L), keep')"
      "keep1 \<le> keep'" "protects a keep' (survivors now changed e L)"
      using Cons.IH [OF ok] by blast
    have "reclaim_fields a now changed e ((l, Some x) # stored L) p r t keep =
        (let (fs, rest) = reclaim_fields a now changed e (stored L) p r
                            (if changed then t + le_tpm x else t) keep1
         in ((l, Some (roll_entry changed e x)) # fs, rest))"
      using False by (simp only: reclaim_fields.simps option.case Let_def keep1_def [symmetric] enc if_False)
    then have "reclaim_fields a now changed e (stored (y # L)) p r t keep =
        (stored (survivors now changed e (y # L)),
         p + int (length (survivors now changed e (y # L))) - int (length (y # L)),
         r + (if changed then 0 else lsum le_rpm (survivors now changed e (y # L)) - lsum le_rpm (y # L)),
         t + lsum le_tpm (survivors now changed e (y # L)) - (if changed then 0 else lsum le_tpm (y # L)),
         keep')"
      using False ih(1) by (simp add: y)
    moreover have "keep \<le> keep'" and "protects a keep' (survivors now changed e (y # L))"
      using ih(2,3) False by (auto simp: y protects_def keep1_def split: if_splits)
    ultimately show ?thesis by blast
  qed
qed

lemma survivors_keys: "fst ` set (survivors now c e L) \<subseteq> fst ` set L"
  by (force simp: survivors_def)

lemma survivors_distinct: "distinct (map fst L) \<Longrightarrow> distinct (map fst (survivors now c e L))"
  by (simp add: survivors_def comp_def distinct_map inj_on_def)

lemma survivors_map_of:
  "distinct (map fst L) \<Longrightarrow>
   map_of (survivors now c e L) l =
     (case map_of L l of
        Some x \<Rightarrow> if now < le_expiry x then Some (roll_entry c e x) else None
      | None \<Rightarrow> None)"
proof (induction L)
  case (Cons y L)
  obtain k x where y: "y = (k, x)" by (cases y)
  with Cons.prems have "map_of L k = None" by (auto simp: map_of_eq_None_iff)
  with Cons show ?case
    by (cases "l = k") (simp_all add: y)
qed simp

lemma entry_bounds: "entry_ok e x \<Longrightarrow> 0 \<le> le_rpm x \<and> 0 \<le> le_tpm x"
  by (auto simp: entry_ok_def encode_lease_def printable_def split: if_splits)

lemma survivors_sums:
  assumes "\<forall>x \<in> snd ` set L. entry_ok e0 x"
  shows "lsum le_rpm (survivors now c e L) \<le> lsum le_rpm L
    \<and> lsum le_tpm (survivors now c e L) \<le> lsum le_tpm L
    \<and> lsum le_rpm (survivors now True e L) = 0"
  using assms
proof (induction L)
  case (Cons y L)
  obtain l x where y: "y = (l, x)" by (cases y)
  with Cons.prems have "0 \<le> le_rpm x \<and> 0 \<le> le_tpm x" by (auto dest: entry_bounds)
  with Cons show ?case by (cases c) (auto simp: y)
qed simp

lemma survivors_entries:
  assumes "\<forall>x \<in> snd ` set L. entry_ok e0 x"
    and "c \<Longrightarrow> printable \<bar>e\<bar>" and "\<not> c \<Longrightarrow> e = e0"
  shows "\<forall>x \<in> snd ` set (survivors now c e L). entry_ok e x"
  using assms entry_ok_roll by (fastforce simp: survivors_def)

lemma quota_of_survivors:
  assumes "distinct (map fst L)" and "epoch > e0 \<longleftrightarrow> c"
  shows "quota_of (lsum le_rpm (survivors now c (if c then epoch else e0) L) + (if c then 0 else r - lsum le_rpm L))
           (lsum le_tpm (survivors now c (if c then epoch else e0) L) + (if c then 0 else t - lsum le_tpm L))
           (if c then epoch else e0) (survivors now c (if c then epoch else e0) L)
         = spec_advance now epoch (quota_of r t e0 L)"
proof -
  have "map_option live_of (map_of (survivors now c e L) l) =
      (case map_option live_of (map_of L l) of
         Some x \<Rightarrow> if live_until x \<le> now then None
                   else Some (if c then x\<lparr>live_rpm := 0\<rparr> else x)
       | None \<Rightarrow> None)" for l e
    using assms(1)
    by (cases c) (auto simp: survivors_map_of live_of_def roll_entry_def split: option.split)
  then show ?thesis
    using assms(2)
    by (cases c) (auto simp: spec_advance_def quota_of_def Let_def fun_eq_iff split: option.split)
qed

definition hash_quota :: "admission_hash \<Rightarrow> leases \<Rightarrow> quota" where
  "hash_quota h L = quota_of (ah_r h) (ah_t h) (ah_e h) L"

definition represents :: "admission_hash \<Rightarrow> leases \<Rightarrow> bool" where
  "represents h L \<longleftrightarrow> ah_leases h = stored L \<and> good L (ah_p h) (ah_r h) (ah_t h) (ah_e h)"

lemma lsum_nonneg:
  "\<forall>x \<in> snd ` set L. entry_ok e x \<Longrightarrow> 0 \<le> lsum le_rpm L \<and> 0 \<le> lsum le_tpm L"
  by (induction L) (auto dest!: entry_bounds)

lemma good_nonneg: "good L p r t e \<Longrightarrow> 0 \<le> p \<and> 0 \<le> r \<and> 0 \<le> t"
  using lsum_nonneg [of L e] by (auto simp: good_def)

lemma save_represents:
  "good L p r t e \<Longrightarrow> represents (save p r t e (stored L)) L
     \<and> hash_quota (save p r t e (stored L)) L = quota_of r t e L
     \<and> ah_p (save p r t e (stored L)) = p \<and> ah_r (save p r t e (stored L)) = r
     \<and> ah_t (save p r t e (stored L)) = t \<and> ah_e (save p r t e (stored L)) = e"
  using good_nonneg [of L p r t e] by (simp add: represents_def hash_quota_def save_def)

lemma reclaim_refines:
  assumes "represents h L" and "ah_e h \<le> epoch" and "printable \<bar>epoch\<bar>"
  obtains L' p r t keep where
    "reclaim a now epoch h = (stored L', p, r, t, epoch, keep)" and "good L' p r t epoch"
    and "quota_of r t epoch L' = spec_advance now epoch (hash_quota h L)"
    and "(epoch + 1) * 60000 \<le> keep" and "protects a keep L'"
proof -
  define c where "c \<longleftrightarrow> ah_e h < epoch"
  then have e: "\<not> c \<Longrightarrow> epoch = ah_e h" "c \<Longrightarrow> ah_e h \<noteq> epoch"
    and sel: "(if c then epoch else ah_e h) = epoch"
    using assms(2) by auto
  from assms(1) have leases: "ah_leases h = stored L"
    and L: "distinct (map fst L)" "\<forall>x \<in> snd ` set L. entry_ok (ah_e h) x" "ah_p h = int (length L)"
      "lsum le_rpm L \<le> ah_r h" "lsum le_tpm L \<le> ah_t h"
    by (simp_all add: represents_def good_def)
  let ?S = "survivors now c epoch L"
  let ?r = "lsum le_rpm ?S + (if c then 0 else ah_r h - lsum le_rpm L)"
  let ?t = "lsum le_tpm ?S + (if c then 0 else ah_t h - lsum le_tpm L)"
  obtain keep where keep: "reclaim_fields a now c epoch (stored L) (ah_p h) (if c then 0 else ah_r h)
      (if c then 0 else ah_t h) ((epoch + 1) * 60000) =
      (stored ?S, ah_p h + int (length ?S) - int (length L),
       (if c then 0 else ah_r h) + (if c then 0 else lsum le_rpm ?S - lsum le_rpm L),
       (if c then 0 else ah_t h) + lsum le_tpm ?S - (if c then 0 else lsum le_tpm L), keep)"
    "(epoch + 1) * 60000 \<le> keep" "protects a keep ?S"
    using reclaim_fields_stored [of L "ah_e h" c epoch] L(2) e assms(3) by metis
  have zero: "c \<Longrightarrow> lsum le_rpm ?S = 0"
    using survivors_sums [OF L(2), of now True epoch] by simp
  have "reclaim a now epoch h = (stored ?S, int (length ?S), ?r, ?t, epoch, keep)"
    using keep(1) e L(3) zero unfolding reclaim_def leases c_def [symmetric]
    by (cases c) (simp_all add: Let_def)
  moreover have "good ?S (int (length ?S)) ?r ?t epoch"
    using survivors_distinct [OF L(1), of now c epoch] survivors_entries [OF L(2), of c epoch now]
      e assms(3) L(4,5) unfolding good_def by (cases c) simp_all
  moreover have "quota_of ?r ?t epoch ?S = spec_advance now epoch (hash_quota h L)"
    using quota_of_survivors [OF L(1), of "ah_e h" epoch c now] unfolding sel hash_quota_def
    by (simp add: c_def)
  ultimately show thesis
    using keep(2,3) that by blast
qed

subsection \<open>Reserving and finishing refine the specification\<close>

lemma update_stored:
  "l \<notin> fst ` set L \<Longrightarrow> AList.update l (Some x) (stored L) = stored (L @ [(l, x)])"
  by (induction L) auto

lemma delete_stored: "AList.delete l (stored L) = stored (AList.delete l L)"
  by (induction L) auto

lemma map_of_stored: "map_of (stored L) l = map_option Some (map_of L l)"
  by (induction L) auto

lemma lsum_delete:
  "distinct (map fst L) \<Longrightarrow> map_of L l = Some x \<Longrightarrow> lsum f (AList.delete l L) + f x = lsum f L"
  by (induction L) (auto split: if_splits)

lemma length_delete:
  "distinct (map fst L) \<Longrightarrow> map_of L l = Some x \<Longrightarrow> Suc (length (AList.delete l L)) = length L"
  by (induction L) (auto split: if_splits)

lemma delete_subset: "set (AList.delete l L) \<subseteq> set L"
  by (simp add: AList.delete_eq)

definition reserve_printable :: "admission_args \<Rightarrow> int \<Rightarrow> bool" where
  "reserve_printable a now \<longleftrightarrow>
     printable (aa_rpm_inc a) \<and> printable (aa_tpm_inc a) \<and> printable (now + max (aa_ttl_ms a) 1)"

text \<open>What a transition of the hash has to show: the reply, the quota and the expiry.\<close>

definition outcome :: "int \<Rightarrow> quota \<Rightarrow> int list \<times> admission_hash \<times> int \<Rightarrow> int \<Rightarrow> bool" where
  "outcome flag q res epoch \<longleftrightarrow>
     (case res of
        (reply, h, keep) \<Rightarrow>
          (\<exists>L. represents h L \<and> hash_quota h L = q \<and> reply = [flag, ah_p h, ah_r h, ah_t h]
             \<and> ah_e h = epoch \<and> (epoch + 1) * 60000 \<le> keep
             \<and> (\<forall>x \<in> snd ` set L. le_expiry x \<le> keep)))"

lemma outcomeI:
  assumes "good L p r t e" and "quota_of r t e L = q" and "(e + 1) * 60000 \<le> keep"
    and "\<forall>x \<in> snd ` set L. le_expiry x \<le> keep"
  shows "outcome flag q ([flag, p, r, t], save p r t e (stored L), keep) e"
  unfolding outcome_def using save_represents [OF assms(1)] assms
  by (auto intro!: exI [of _ L])

lemma protects_all: "protects a keep L \<Longrightarrow> \<not> finishing a \<Longrightarrow> \<forall>x \<in> snd ` set L. le_expiry x \<le> keep"
  by (auto simp: protects_def)

lemma script_reserve_refines:
  assumes good: "good L p r t e" and fresh: "aa_lease_id a \<notin> fst ` set L"
    and args: "reserve_printable a now" "printable \<bar>e\<bar>"
    and keep: "(e + 1) * 60000 \<le> keep" "\<forall>x \<in> snd ` set L. le_expiry x \<le> keep"
  shows "case spec_reserve a now (quota_of r t e L) of
           (ok, q) \<Rightarrow> outcome (if ok then 1 else 0) q (script_reserve a now (stored L) p r t e keep) e"
proof -
  let ?x = "\<lparr>le_p = 1, le_rpm = aa_rpm_inc a, le_tpm = aa_tpm_inc a, le_epoch = e,
             le_expiry = now + max (aa_ttl_ms a) 1\<rparr>"
  let ?L = "L @ [(aa_lease_id a, ?x)]"
  have enc: "encode_lease ?x = Some ?x"
    using args by (simp add: encode_lease_def reserve_printable_def printable_def)
  have good': "good ?L (p + 1) (r + aa_rpm_inc a) (t + aa_tpm_inc a) e"
    using good fresh enc by (auto simp: good_def entry_ok_def)
  have "map_of L (aa_lease_id a) = None"
    using fresh by (simp add: map_of_eq_None_iff)
  then have "map_option live_of (map_of ?L l)
      = ((map_option live_of \<circ> map_of L)(aa_lease_id a \<mapsto> live_of ?x)) l" for l
    by (auto simp: map_add_def split: option.split)
  then have q': "quota_of (r + aa_rpm_inc a) (t + aa_tpm_inc a) e ?L =
      (quota_of r t e L)\<lparr>q_live := (q_live (quota_of r t e L))(aa_lease_id a \<mapsto> live_of ?x)\<rparr>"
    by (simp add: quota_of_def fun_eq_iff)
  have refused: "(aa_max_parallel a \<ge> 0 \<and> p + 1 > aa_max_parallel a)
      \<or> (aa_max_rpm a \<ge> 0 \<and> r + aa_rpm_inc a > aa_max_rpm a)
      \<or> (aa_max_tpm a \<ge> 0 \<and> t + aa_tpm_inc a > aa_max_tpm a) \<longleftrightarrow>
      \<not> (fits (aa_max_parallel a) (parallel_used (quota_of r t e L) + 1)
         \<and> fits (aa_max_rpm a) (rpm_used (quota_of r t e L) + aa_rpm_inc a)
         \<and> fits (aa_max_tpm a) (tpm_used (quota_of r t e L) + aa_tpm_inc a))"
    by (auto simp: used_quota_of [OF good] fits_def)
  have "outcome 1 (quota_of (r + aa_rpm_inc a) (t + aa_tpm_inc a) e ?L)
      ([1, p + 1, r + aa_rpm_inc a, t + aa_tpm_inc a],
       save (p + 1) (r + aa_rpm_inc a) (t + aa_tpm_inc a) e (stored ?L),
       max keep (now + max (aa_ttl_ms a) 1)) e"
    using keep by (intro outcomeI good' refl) auto
  moreover have "outcome 0 (quota_of r t e L) ([0, p, r, t], save p r t e (stored L), keep) e"
    using keep by (intro outcomeI good refl)
  ultimately show ?thesis
    using q' fresh enc unfolding script_reserve_def refused
    by (auto simp: spec_reserve_def Let_def update_stored live_of_def simp del: stored_simps)
qed

lemma script_finish_refines:
  assumes good: "good L p r t e" and fin: "finishing a" and actual: "0 \<le> aa_actual_tpm a"
    and keep: "(e + 1) * 60000 \<le> keep" "protects a keep L"
  shows "outcome 1 (spec_finish a (quota_of r t e L)) (script_finish a (stored L) p r t e keep) e"
proof (cases "map_of L (aa_lease_id a)")
  case None
  then have "\<forall>x \<in> snd ` set L. le_expiry x \<le> keep"
    using keep(2) by (force simp: protects_def map_of_eq_None_iff)
  from outcomeI [OF good refl keep(1) this] None show ?thesis
    by (simp add: script_finish_def map_of_stored spec_finish_def quota_of_def)
next
  case (Some x)
  let ?l = "aa_lease_id a" and ?L = "AList.delete (aa_lease_id a) L"
  let ?r = "if aa_op a = ''cancel'' then r - le_rpm x else r" and ?t = "finish_tpm a t (le_tpm x)"
  have d: "distinct (map fst L)" and p: "p = int (length L)"
    and all: "\<forall>x \<in> snd ` set L. entry_ok e x" and le: "lsum le_rpm L \<le> r" "lsum le_tpm L \<le> t"
    using good by (simp_all add: good_def)
  have "x \<in> snd ` set L" using map_of_SomeD [OF Some] by force
  with all have x: "entry_ok e x" "0 \<le> le_rpm x" "0 \<le> le_tpm x" by (auto dest: entry_bounds)
  note sums = lsum_delete [OF d Some, of le_rpm] lsum_delete [OF d Some, of le_tpm]
    length_delete [OF d Some]
  have good': "good ?L (p - 1) ?r ?t e"
    using d all le p x sums actual delete_subset [of ?l L]
    by (auto simp: good_def finish_tpm_def AList.distinct_delete)
  have rest: "\<forall>y \<in> snd ` set ?L. le_expiry y \<le> keep"
    using keep(2) by (auto simp: protects_def AList.delete_eq)
  have live: "(map_option live_of \<circ> map_of ?L) = (map_option live_of \<circ> map_of L)(?l := None)"
    by (auto simp: fun_eq_iff AList.delete_conv')
  have "quota_of ?r ?t e ?L = spec_finish a (quota_of r t e L)"
    using fin Some sums live x
    by (auto simp: quota_of_def spec_finish_def finish_tpm_def finishing_def live_of_def Let_def)
  from outcomeI [OF good' this keep(1) rest] Some x(1) show ?thesis
    by (auto simp: script_finish_def map_of_stored delete_stored entry_ok_def Let_def)
qed

subsection \<open>The script refines the specification\<close>

lemma key_ok_represents:
  "key_ok (Some (h, expires)) \<longleftrightarrow>
     (\<exists>L. represents h L \<and> (ah_e h + 1) * 60000 \<le> expires
        \<and> (\<forall>x \<in> snd ` set L. le_expiry x \<le> expires))"
  by (auto simp: key_ok_def represents_def Let_def)

lemma abs_key_represents: "represents h L \<Longrightarrow> abs_key (Some (h, expires)) = hash_quota h L"
  by (simp add: abs_key_def represents_def hash_quota_def)

lemma outcome_key:
  assumes "outcome flag q (reply, h, keep) epoch"
  shows "key_ok (Some (h, keep)) \<and> abs_key (Some (h, keep)) = q
         \<and> reply = [flag, parallel_used q, rpm_used q, tpm_used q]"
proof -
  from assms obtain L where L: "represents h L" "hash_quota h L = q"
    "reply = [flag, ah_p h, ah_r h, ah_t h]" and e: "ah_e h = epoch" "(epoch + 1) * 60000 \<le> keep"
    "\<forall>x \<in> snd ` set L. le_expiry x \<le> keep"
    by (auto simp: outcome_def)
  have "key_ok (Some (h, keep))"
    unfolding key_ok_represents using L(1) e by blast
  moreover have "parallel_used q = ah_p h" "rpm_used q = ah_r h" "tpm_used q = ah_t h"
    using L used_quota_of by (auto simp: represents_def hash_quota_def)
  ultimately show ?thesis
    using L abs_key_represents by simp
qed

definition empty_hash :: admission_hash where
  "empty_hash = \<lparr>ah_p = 0, ah_r = 0, ah_t = 0, ah_e = 0, ah_leases = []\<rparr>"

lemma empty_hash_represents: "represents empty_hash []" "hash_quota empty_hash [] = no_quota"
  by (simp_all add: represents_def empty_hash_def good_def hash_quota_def quota_of_def no_quota_def
      comp_def)

text \<open>
  The expiry of the key is not observable: when Redis drops it, every lease in it has expired
  and its minute is over, so the hash would not have mattered.
\<close>

lemma load_admission_quota:
  assumes "key_ok k" and "q_epoch (abs_key k) \<le> secs div 60" and "0 \<le> secs"
    and "0 \<le> micros" "micros < 1000000" and now: "now = secs * 1000 + micros div 1000"
  obtains L where "represents (load_admission now k) L"
    and "ah_e (load_admission now k) \<le> secs div 60"
    and "spec_advance now (secs div 60) (hash_quota (load_admission now k) L)
           = spec_advance now (secs div 60) (abs_key k)"
proof (cases k)
  case None
  with that [of "[]"] empty_hash_represents assms(3) show thesis
    by (simp add: load_admission_def abs_key_def empty_hash_def [symmetric])
      (simp add: empty_hash_def)
next
  case (Some y)
  obtain h expires where y: "y = (h, expires)" by (cases y)
  from assms(1) obtain L where L: "represents h L" "(ah_e h + 1) * 60000 \<le> expires"
    "\<forall>x \<in> snd ` set L. le_expiry x \<le> expires"
    by (auto simp: Some y key_ok_represents)
  note abs = abs_key_represents [OF L(1), of expires]
  show thesis
  proof (cases "expires < now")
    case False
    with that [of L] L(1) assms(2) abs show thesis
      by (simp add: load_admission_def Some y hash_quota_def quota_of_def)
  next
    case True
    have "(ah_e h + 1) * 60 \<le> secs"
      using True L(2) assms(4,5) now by linarith
    then have later: "ah_e h < secs div 60"
      using zdiv_mono1 [of "(ah_e h + 1) * 60" secs 60] by simp
    have "\<forall>x \<in> snd ` set L. le_expiry x \<le> now"
      using L(3) True by auto
    then have dead: "map_of L l = Some x \<Longrightarrow> le_expiry x \<le> now" for l x
      by (force dest: map_of_SomeD)
    have "spec_advance now (secs div 60) (hash_quota h L) = spec_advance now (secs div 60) no_quota"
      using later assms(3) dead
      by (auto simp: spec_advance_def hash_quota_def quota_of_def no_quota_def live_of_def fun_eq_iff
          Let_def split: option.split)
    with that [of "[]"] empty_hash_represents True abs assms(3) show thesis
      by (simp add: load_admission_def Some y empty_hash_def [symmetric])
        (simp add: empty_hash_def)
  qed
qed

definition args_ok :: "int \<Rightarrow> int \<Rightarrow> admission_args \<Rightarrow> quota \<Rightarrow> bool" where
  "args_ok secs micros a q \<longleftrightarrow>
     0 \<le> secs \<and> secs < 10 ^ 14 \<and> 0 \<le> micros \<and> micros < 1000000 \<and> 0 \<le> aa_actual_tpm a
     \<and> q_epoch q \<le> secs div 60
     \<and> (aa_op a = ''reserve'' \<longrightarrow>
          aa_lease_id a \<notin> dom (q_live q) \<and> reserve_printable a (secs * 1000 + micros div 1000))"

lemma spec_advance_live: "dom (q_live (spec_advance now epoch q)) \<subseteq> dom (q_live q)"
  by (auto simp: spec_advance_def Let_def split: option.splits if_splits)

lemma admission_script_outcome:
  assumes "key_ok k" and "args_ok secs micros a (abs_key k)"
  shows "case (admission_script secs micros a k, spec_step secs micros a (abs_key k)) of
           ((reply, k'), flag, q) \<Rightarrow>
             \<exists>h keep. k' = Some (h, keep) \<and> outcome flag q (reply, h, keep) (secs div 60)"
proof -
  define now where "now = secs * 1000 + micros div 1000"
  let ?e = "secs div 60" and ?h = "load_admission now k"
  have args: "0 \<le> secs" "0 \<le> micros" "micros < 1000000" "q_epoch (abs_key k) \<le> ?e"
    "0 \<le> aa_actual_tpm a" and e: "printable \<bar>?e\<bar>"
    using assms(2) by (auto simp: args_ok_def printable_def)
  obtain L where L: "represents ?h L" "ah_e ?h \<le> ?e"
    "spec_advance now ?e (hash_quota ?h L) = spec_advance now ?e (abs_key k)"
    using load_admission_quota [OF assms(1) args(4,1-3) now_def] by blast
  obtain L' p r t keep where rec: "reclaim a now ?e ?h = (stored L', p, r, t, ?e, keep)"
    and good: "good L' p r t ?e" and q: "quota_of r t ?e L' = spec_advance now ?e (abs_key k)"
    and keep: "(?e + 1) * 60000 \<le> keep" "protects a keep L'"
    using reclaim_refines [OF L(1,2) e] L(3) by metis
  consider (reserve) "aa_op a = ''reserve''" | (finish) "aa_op a \<noteq> ''reserve''" "finishing a"
    | (other) "aa_op a \<noteq> ''reserve''" "\<not> finishing a" by blast
  then show ?thesis
  proof cases
    case reserve
    have "dom (map_of L') \<subseteq> dom (q_live (abs_key k))"
      using spec_advance_live [of now ?e "abs_key k"] unfolding q [symmetric] quota_of_def
      by (auto simp: dom_def)
    then have "aa_lease_id a \<notin> fst ` set L'" "reserve_printable a now"
      using assms(2) reserve by (auto simp: args_ok_def dom_map_of_conv_image_fst now_def)
    with script_reserve_refines [OF good _ _ e keep(1)] protects_all [OF keep(2)] reserve
    have "case spec_reserve a now (quota_of r t ?e L') of
        (ok, q) \<Rightarrow> outcome (if ok then 1 else 0) q (script_reserve a now (stored L') p r t ?e keep) ?e"
      by (simp add: finishing_def)
    then show ?thesis
      using reserve rec unfolding q
      by (auto simp: admission_script_def spec_step_def now_def [symmetric] Let_def split: prod.splits)
  next
    case finish
    from script_finish_refines [OF good finish(2) args(5) keep] finish rec show ?thesis
      unfolding q
      by (auto simp: admission_script_def spec_step_def now_def [symmetric] Let_def split: prod.splits)
  next
    case other
    from outcomeI [OF good q keep(1) protects_all [OF keep(2) other(2)], of "- 1"] other rec
    show ?thesis
      by (auto simp: admission_script_def spec_step_def now_def [symmetric] Let_def split: prod.splits)
  qed
qed

text \<open>
  C2.  The script implements the quota specification.  On every key it wrote, or none, at any
  time that is not before the stored minute, it answers what the specification answers, with
  the specification's own totals, and leaves a key that represents the specification's next
  state: the incrementally maintained counters never drift from the leases, a lease is given
  back once, at a new minute exactly the live tokens are carried, and the expiry of the key is
  not observable.
\<close>

theorem admission_script_refines:
  assumes "key_ok k" and "args_ok secs micros a (abs_key k)"
  shows "case (admission_script secs micros a k, spec_step secs micros a (abs_key k)) of
           ((reply, k'), flag, q) \<Rightarrow>
             key_ok k' \<and> abs_key k' = q \<and> reply = [flag, parallel_used q, rpm_used q, tpm_used q]"
  using admission_script_outcome [OF assms] by (auto dest!: outcome_key)

theorem admission_script_refines_witness:
  "case (admission_script 120 0 (reserve_args (deployment_config_default\<lparr>tpm_limit := Some 10\<rparr>) 7 ''l'' 600000) None,
         spec_step 120 0 (reserve_args (deployment_config_default\<lparr>tpm_limit := Some 10\<rparr>) 7 ''l'' 600000) no_quota) of
     ((reply, k'), flag, q) \<Rightarrow> key_ok k' \<and> abs_key k' = q \<and> reply = [1, 1, 0, 7] \<and> flag = 1"
proof -
  let ?a = "reserve_args (deployment_config_default\<lparr>tpm_limit := Some 10\<rparr>) 7 ''l'' 600000"
  have a: "?a = \<lparr>aa_op = ''reserve'', aa_max_parallel = - 1, aa_max_rpm = - 1, aa_max_tpm = 10,
      aa_rpm_inc = 0, aa_tpm_inc = 7, aa_lease_id = ''l'', aa_ttl_ms = 600000, aa_actual_tpm = 0\<rparr>"
    by (simp add: reserve_args_def Let_def option_limit_def to_i64_def deployment_config_default_def
        max_def word_le_nat_alt)
  have "admission_script 120 0 ?a None = ([1, 1, 0, 7], snd (admission_script 120 0 ?a None))"
    unfolding a
    by (simp add: admission_script_def reclaim_def load_admission_def script_reserve_def Let_def)
  moreover have "args_ok 120 0 ?a (abs_key None)"
    unfolding a by (simp add: args_ok_def abs_key_def no_quota_def reserve_printable_def printable_def)
  moreover have "key_ok None" by (simp add: key_ok_def)
  ultimately show ?thesis
    using admission_script_refines [of None 120 0 ?a] by (auto simp: abs_key_def split: prod.splits)
qed

subsection \<open>Many replicas, one limit\<close>

definition quota_ok :: "quota \<Rightarrow> bool" where
  "quota_ok q \<longleftrightarrow> finite (dom (q_live q)) \<and> (\<forall>x \<in> ran (q_live q). 0 \<le> live_rpm x)"

lemma abs_key_quota_ok:
  assumes "key_ok k"
  shows "quota_ok (abs_key k)"
proof (cases k)
  case (Some y)
  obtain h expires where y: "y = (h, expires)" by (cases y)
  with assms Some obtain L where L: "represents h L" by (auto simp: key_ok_represents)
  then have "\<forall>x \<in> snd ` set L. entry_ok (ah_e h) x" by (simp add: represents_def good_def)
  then have "0 \<le> le_rpm x" if "map_of L l = Some x" for l x
    using map_of_SomeD [OF that] entry_bounds by force
  then show ?thesis
    unfolding Some y abs_key_represents [OF L]
    by (auto simp: quota_ok_def hash_quota_def quota_of_def dom_map_option_comp finite_dom_map_of
        ran_def live_of_def)
qed (simp add: abs_key_def quota_ok_def no_quota_def)

lemma outstanding_advance_le:
  assumes "finite (dom (q_live q))" and "\<forall>x \<in> ran (q_live q). 0 \<le> f x"
    and "\<And>x. f (x\<lparr>live_rpm := 0\<rparr>) = f x \<or> epoch \<le> q_epoch q"
  shows "outstanding f (spec_advance now epoch q) \<le> outstanding f q"
proof -
  let ?q = "spec_advance now epoch q"
  have same: "f (the (q_live ?q l)) = f (the (q_live q l))" if "l \<in> dom (q_live ?q)" for l
    using that assms(3) by (force simp: spec_advance_def Let_def split: option.splits if_splits)
  have "outstanding f ?q = (\<Sum>l \<in> dom (q_live ?q). f (the (q_live q l)))"
    unfolding outstanding_def by (rule sum.cong [OF refl same])
  also have "\<dots> \<le> (\<Sum>l \<in> dom (q_live q). f (the (q_live q l)))"
    using assms(1,2) spec_advance_live by (intro sum_mono2) (auto simp: ran_def)
  finally show ?thesis by (simp add: outstanding_def)
qed

lemma advance_used_le:
  assumes "quota_ok q" and "0 \<le> R" and "rpm_used q \<le> R"
  shows "parallel_used (spec_advance now epoch q) \<le> parallel_used q"
    and "rpm_used (spec_advance now epoch q) \<le> R"
    and "quota_ok (spec_advance now epoch q)"
proof -
  show "parallel_used (spec_advance now epoch q) \<le> parallel_used q"
    unfolding parallel_used_def using assms(1)
    by (intro outstanding_advance_le) (auto simp: quota_ok_def)
  show "rpm_used (spec_advance now epoch q) \<le> R"
  proof (cases "epoch > q_epoch q")
    case True
    then have "live_rpm (the (q_live (spec_advance now epoch q) l)) = 0"
      if "l \<in> dom (q_live (spec_advance now epoch q))" for l
      using that by (auto simp: spec_advance_def Let_def split: option.splits)
    then have "outstanding live_rpm (spec_advance now epoch q) = 0"
      unfolding outstanding_def by simp
    with True assms(2) show ?thesis
      by (simp add: rpm_used_def) (simp add: spec_advance_def Let_def)
  next
    case False
    then have "outstanding live_rpm (spec_advance now epoch q) \<le> outstanding live_rpm q"
      using assms(1) by (intro outstanding_advance_le) (auto simp: quota_ok_def)
    with False assms(3) show ?thesis
      by (simp add: rpm_used_def) (simp add: spec_advance_def Let_def)
  qed
  show "quota_ok (spec_advance now epoch q)"
    using assms(1) spec_advance_live [of now epoch q] unfolding quota_ok_def
    by (auto simp: spec_advance_def Let_def ran_def intro: finite_subset split: option.splits if_splits)
qed

lemma outstanding_update:
  assumes "finite (dom (q_live q))"
  shows "outstanding f (q\<lparr>q_live := (q_live q)(l := None)\<rparr>)
           = outstanding f q - (case q_live q l of None \<Rightarrow> 0 | Some x \<Rightarrow> f x)"
    and "q_live q l = None \<Longrightarrow> outstanding f (q\<lparr>q_live := (q_live q)(l \<mapsto> x)\<rparr>) = outstanding f q + f x"
proof -
  have cong: "(\<Sum>k \<in> dom (q_live q) - {l}. f (the (((q_live q)(l := y)) k)))
      = (\<Sum>k \<in> dom (q_live q) - {l}. f (the (q_live q k)))" for y
    by (intro sum.cong) auto
  show "outstanding f (q\<lparr>q_live := (q_live q)(l := None)\<rparr>)
      = outstanding f q - (case q_live q l of None \<Rightarrow> 0 | Some x \<Rightarrow> f x)"
    using assms cong [of None]
    by (cases "q_live q l") (auto simp: outstanding_def sum_diff1 domIff)
  show "outstanding f (q\<lparr>q_live := (q_live q)(l \<mapsto> x)\<rparr>) = outstanding f q + f x" if "q_live q l = None"
  proof -
    have "dom (q_live q) - {l} = dom (q_live q)"
      using that by auto
    with assms cong [of "Some x"] show ?thesis
      by (simp add: outstanding_def sum.insert_remove)
  qed
qed

text \<open>What a reservation and a completion do to the totals.\<close>

lemma spec_reserve_used:
  assumes "quota_ok q" and "aa_lease_id a \<notin> dom (q_live q)" and "spec_reserve a now q = (ok, q')"
  shows "if ok then parallel_used q' = parallel_used q + 1 \<and> fits (aa_max_parallel a) (parallel_used q')
                 \<and> rpm_used q' = rpm_used q + aa_rpm_inc a \<and> fits (aa_max_rpm a) (rpm_used q')
                 \<and> tpm_used q' = tpm_used q + aa_tpm_inc a \<and> fits (aa_max_tpm a) (tpm_used q')
         else q' = q"
  using assms outstanding_update(2) [of q "aa_lease_id a"]
  by (auto simp: spec_reserve_def Let_def quota_ok_def parallel_used_def rpm_used_def tpm_used_def
      add.assoc split: if_splits)

lemma spec_finish_used:
  assumes "quota_ok q"
  shows "parallel_used (spec_finish a q) \<le> parallel_used q"
    and "rpm_used (spec_finish a q) \<le> rpm_used q"
proof -
  show "parallel_used (spec_finish a q) \<le> parallel_used q"
    using assms outstanding_update(1) [of q "\<lambda>_. 1" "aa_lease_id a"]
    by (auto simp: spec_finish_def parallel_used_def quota_ok_def Let_def outstanding_def
        split: option.splits)
  show "rpm_used (spec_finish a q) \<le> rpm_used q"
    using assms outstanding_update(1) [of q live_rpm "aa_lease_id a"]
    by (auto simp: spec_finish_def rpm_used_def quota_ok_def Let_def outstanding_def ran_def
        split: option.splits)
qed

text \<open>
  Any number of replicas of one deployment: each step is a reservation with the deployment's
  limits under a fresh lease id, or the completion of any lease, possibly repeated or late.
\<close>

inductive replicas_step :: "deployment_config \<Rightarrow> admission_key \<Rightarrow> admission_key \<Rightarrow> bool"
  for cfg :: deployment_config where
  reserve: "a = reserve_args cfg est lease_id ttl \<Longrightarrow> args_ok secs micros a (abs_key k) \<Longrightarrow>
     replicas_step cfg k (snd (admission_script secs micros a k))"
| complete: "a = completion_args lease_id c \<Longrightarrow> args_ok secs micros a (abs_key k) \<Longrightarrow>
     replicas_step cfg k (snd (admission_script secs micros a k))"

definition limits_hold :: "deployment_config \<Rightarrow> admission_key \<Rightarrow> bool" where
  "limits_hold cfg k \<longleftrightarrow>
     key_ok k \<and> fits (option_limit (map_option uint (max_parallel_requests cfg))) (parallel_used (abs_key k))
     \<and> fits (option_limit (map_option to_i64 (rpm_limit cfg))) (rpm_used (abs_key k))"

lemma option_limit_nonneg: "limit = option_limit x \<Longrightarrow> limit \<ge> 0 \<or> limit = - 1"
  by (auto simp: option_limit_def split: option.splits)

lemma fits_mono: "fits limit v \<Longrightarrow> w \<le> v \<Longrightarrow> fits limit w"
  by (auto simp: fits_def)

lemma script_next:
  assumes "key_ok k" and "args_ok secs micros a (abs_key k)"
  shows "key_ok (snd (admission_script secs micros a k))
         \<and> abs_key (snd (admission_script secs micros a k)) = snd (spec_step secs micros a (abs_key k))"
  using admission_script_outcome [OF assms] by (auto dest!: outcome_key split: prod.splits)

lemma advanced_fits:
  assumes "key_ok k" and "fits P (parallel_used (abs_key k))" and "fits R (rpm_used (abs_key k))"
  shows "fits P (parallel_used (spec_advance now epoch (abs_key k)))"
    and "fits R (rpm_used (spec_advance now epoch (abs_key k)))"
    and "quota_ok (spec_advance now epoch (abs_key k))"
proof -
  note ok = abs_key_quota_ok [OF assms(1)]
  note any = advance_used_le [OF ok, of "max 0 (rpm_used (abs_key k))" now epoch, simplified]
  show "fits P (parallel_used (spec_advance now epoch (abs_key k)))"
    using any(1) assms(2) by (auto simp: fits_def)
  show "fits R (rpm_used (spec_advance now epoch (abs_key k)))"
    using advance_used_le(2) [OF ok, of R now epoch] assms(3) by (auto simp: fits_def)
  show "quota_ok (spec_advance now epoch (abs_key k))"
    by (rule any(3))
qed

lemma replicas_step_limits: "replicas_step cfg k k' \<Longrightarrow> limits_hold cfg k \<Longrightarrow> limits_hold cfg k'"
proof (induction rule: replicas_step.induct)
  case (reserve a est lease_id ttl secs micros k)
  let ?now = "secs * 1000 + micros div 1000" and ?q = "spec_advance (secs * 1000 + micros div 1000) (secs div 60) (abs_key k)"
  have ok: "key_ok k" using reserve.prems by (simp add: limits_hold_def)
  have a: "aa_op a = ''reserve''" "aa_max_parallel a = option_limit (map_option uint (max_parallel_requests cfg))"
    "aa_max_rpm a = option_limit (map_option to_i64 (rpm_limit cfg))"
    using reserve.hyps(1) by (simp_all add: reserve_args_def Let_def)
  note adv = advanced_fits [OF ok, of "aa_max_parallel a" "aa_max_rpm a" ?now "secs div 60"]
  obtain acc q' where r: "spec_reserve a ?now ?q = (acc, q')" by (metis surj_pair)
  have "aa_lease_id a \<notin> dom (q_live ?q)"
    using reserve.hyps(2) a(1) subsetD [OF spec_advance_live [of ?now "secs div 60" "abs_key k"]]
    by (auto simp: args_ok_def)
  from spec_reserve_used [OF adv(3) this r] script_next [OF ok reserve.hyps(2)] adv(1,2) a r reserve.prems
  show ?case
    by (auto simp: limits_hold_def spec_step_def Let_def split: if_splits)
next
  case (complete a lease_id c secs micros k)
  let ?q = "spec_advance (secs * 1000 + micros div 1000) (secs div 60) (abs_key k)"
  have ok: "key_ok k" using complete.prems by (simp add: limits_hold_def)
  have "aa_op a \<noteq> ''reserve''" "finishing a"
    using complete.hyps(1)
    by (auto simp: completion_args_def finish_args_def finishing_def split: admission_completion.splits)
  then have "snd (spec_step secs micros a (abs_key k)) = spec_finish a ?q"
    by (simp add: spec_step_def Let_def)
  note after = script_next [OF ok complete.hyps(2), unfolded this]
  have q: "quota_ok ?q" "fits (option_limit (map_option uint (max_parallel_requests cfg))) (parallel_used ?q)"
    "fits (option_limit (map_option to_i64 (rpm_limit cfg))) (rpm_used ?q)"
    using complete.prems by (auto simp: limits_hold_def intro: advanced_fits)
  show ?case
    using after q(2,3) spec_finish_used [OF q(1), of a] unfolding limits_hold_def
    by (auto intro: fits_mono)
qed

interpretation replicas: invariant_system "\<lambda>k. k = None" "replicas_step cfg" "limits_hold cfg"
  for cfg :: deployment_config
proof unfold_locales
  show "limits_hold cfg s" if "s = None" for s
    using that option_limit_nonneg
    by (auto simp: limits_hold_def key_ok_def abs_key_def no_quota_def fits_def parallel_used_def
        rpm_used_def outstanding_def)
qed (rule replicas_step_limits)

lemma parallel_used_card: "parallel_used q = int (card (dom (q_live q)))"
  by (simp add: parallel_used_def outstanding_def)

text \<open>
  C25.  Replicas cannot multiply a deployment's limits: whatever reservations and completions
  any number of replicas send, in any order, at any times that do not run backwards across a
  minute, at most \<open>max_parallel_requests\<close> leases are alive at any moment, and at most
  \<open>rpm_limit\<close> requests are charged to a minute.
\<close>

theorem shared_limits_never_exceeded:
  assumes "rtranclp (replicas_step cfg) None k"
  shows "(case max_parallel_requests cfg of
            Some limit \<Rightarrow> card (dom (q_live (abs_key k))) \<le> unat limit | None \<Rightarrow> True)
         \<and> (case rpm_limit cfg of
              Some limit \<Rightarrow> rpm_used (abs_key k) \<le> to_i64 limit | None \<Rightarrow> True)"
proof -
  have inv: "limits_hold cfg k"
    using replicas.reachable_inv [OF refl assms] .
  have "card (dom (q_live (abs_key k))) \<le> unat limit" if "max_parallel_requests cfg = Some limit" for limit
    using inv that by (simp add: limits_hold_def option_limit_def fits_def parallel_used_card
        uint_nat del: of_nat_unat)
  moreover have "rpm_used (abs_key k) \<le> to_i64 limit" if "rpm_limit cfg = Some limit" for limit
    using inv that by (simp add: limits_hold_def option_limit_def fits_def to_i64_def)
  ultimately show ?thesis
    by (simp split: option.split)
qed

theorem shared_limits_never_exceeded_witness:
  "\<exists>k. rtranclp (replicas_step (deployment_config_default\<lparr>max_parallel_requests := Some 1\<rparr>)) None k
     \<and> card (dom (q_live (abs_key k))) = 1 \<and> card (dom (q_live (abs_key k))) \<le> unat (1 :: u32)"
proof -
  let ?cfg = "deployment_config_default\<lparr>max_parallel_requests := Some 1\<rparr>"
  define a where "a = reserve_args ?cfg 7 ''l'' 600000"
  have a: "a = \<lparr>aa_op = ''reserve'', aa_max_parallel = 1, aa_max_rpm = - 1, aa_max_tpm = - 1,
      aa_rpm_inc = 0, aa_tpm_inc = 0, aa_lease_id = ''l'', aa_ttl_ms = 600000, aa_actual_tpm = 0\<rparr>"
    by (simp add: a_def reserve_args_def Let_def option_limit_def deployment_config_default_def)
  have ok: "args_ok 120 0 a (abs_key None)"
    by (simp add: a args_ok_def abs_key_def no_quota_def reserve_printable_def printable_def)
  let ?k = "snd (admission_script 120 0 a None)"
  have run: "rtranclp (replicas_step ?cfg) None ?k"
    by (rule r_into_rtranclp) (rule replicas_step.reserve [OF a_def ok])
  have "q_live (abs_key ?k) = [''l'' \<mapsto> \<lparr>live_rpm = 0, live_tpm = 0, live_until = 720000\<rparr>]"
    using script_next [OF _ ok]
    by (simp add: key_ok_def spec_step_def spec_reserve_def spec_advance_def abs_key_def no_quota_def a
        Let_def fits_def parallel_used_def outstanding_def)
  with run shared_limits_never_exceeded [OF run] show ?thesis
    by (intro exI [of _ ?k]) simp
qed

end
