(* ===== verification/Float64.thy ===== *)
theory Float64
  imports Complex_Main
begin

section \<open>IEEE doubles\<close>

text \<open>
  The non-negative doubles of the program are real numbers, and an operation rounds its exact
  result to 53 significant bits, ties to even (\<open>round_f64\<close>).  The values that occur are far
  from the overflow and from the subnormal range.  Every rounding moves a number by at most the
  fraction \<open>2\<^sup>-\<^sup>5\<^sup>3\<close> of it, and integers below \<open>2\<^sup>5\<^sup>3\<close> are doubles.
\<close>

definition round_even :: "real \<Rightarrow> int" where
  "round_even x =
     (let n = \<lfloor>x\<rfloor>; d = x - of_int n
      in if d < 1 / 2 then n else if d > 1 / 2 then n + 1 else if even n then n else n + 1)"

definition round_f64 :: "real \<Rightarrow> real" where
  "round_f64 x =
     (if x = 0 then 0
      else (let ulp = 2 powr (of_int \<lfloor>log 2 x\<rfloor> - 52) in of_int (round_even (x / ulp)) * ulp))"

definition epsilon :: real where
  "epsilon = 1 / 2 ^ 53"

lemma epsilon_bounds: "0 < epsilon" "epsilon \<le> 1"
  by (simp_all add: epsilon_def)

lemma round_f64_nonneg: "0 \<le> x \<Longrightarrow> 0 \<le> round_f64 x"
  by (auto simp: round_f64_def round_even_def Let_def intro!: mult_nonneg_nonneg)

lemma round_even_near: "\<bar>of_int (round_even x) - x\<bar> \<le> 1 / 2"
  by (simp add: round_even_def Let_def abs_if) linarith

lemma round_even_of_int [simp]: "round_even (of_int n) = n"
  by (simp add: round_even_def)

lemma round_f64_error:
  assumes "0 \<le> x"
  shows "\<bar>round_f64 x - x\<bar> \<le> epsilon * x"
proof (cases "x = 0")
  case False
  define ulp where "ulp = (2 :: real) powr (of_int \<lfloor>log 2 x\<rfloor> - 52)"
  have "0 < x" "0 < ulp"
    using assms False by (simp_all add: ulp_def)
  have "round_f64 x - x = (of_int (round_even (x / ulp)) - x / ulp) * ulp"
    using False \<open>0 < ulp\<close> by (simp add: round_f64_def Let_def ulp_def [symmetric] field_simps)
  then have "\<bar>round_f64 x - x\<bar> \<le> 1 / 2 * ulp"
    using round_even_near [of "x / ulp"] \<open>0 < ulp\<close> by (simp add: abs_mult)
  also have "\<dots> = 2 powr of_int \<lfloor>log 2 x\<rfloor> * epsilon"
    by (simp add: ulp_def epsilon_def powr_diff powr_realpow [symmetric])
  also have "\<dots> \<le> 2 powr (log 2 x) * epsilon"
    using epsilon_bounds by (intro mult_right_mono) (simp_all add: powr_mono)
  finally show ?thesis
    using \<open>0 < x\<close> by (simp add: mult.commute)
qed (simp add: round_f64_def)

lemma round_f64_le: "0 \<le> x \<Longrightarrow> round_f64 x \<le> x * (1 + epsilon)"
  using round_f64_error [of x] by (simp add: algebra_simps abs_le_iff)

lemma round_f64_le_add: "0 \<le> x \<Longrightarrow> x \<le> c \<Longrightarrow> round_f64 x \<le> x + epsilon * c"
proof -
  assume "0 \<le> x" "x \<le> c"
  then have "epsilon * x \<le> epsilon * c"
    using epsilon_bounds by (intro mult_left_mono) simp_all
  then show ?thesis
    using round_f64_le [OF \<open>0 \<le> x\<close>] by (simp add: algebra_simps)
qed

lemma round_f64_of_nat:
  assumes "n < 2 ^ 53"
  shows "round_f64 (of_nat n) = of_nat n"
proof (cases "n = 0")
  case False
  define k where "k = nat \<lfloor>log 2 (real n)\<rfloor>"
  have "0 \<le> log 2 (real n)"
    using False by (simp add: zero_le_log_cancel_iff)
  then have k: "\<lfloor>log 2 (real n)\<rfloor> = int k"
    by (simp add: k_def)
  have "real n < 2 ^ 53"
    using assms by (metis of_nat_less_iff of_nat_numeral of_nat_power)
  also have "(2 :: real) ^ 53 = 2 powr 53"
    by (rule powr_numeral [symmetric]) simp
  finally have "log 2 (real n) < 53"
    using False by (subst log_less_iff) simp_all
  then have "k \<le> 52"
    using k by linarith
  then have ulp: "(2 :: real) powr (of_int \<lfloor>log 2 (real n)\<rfloor> - 52) = 1 / 2 ^ (52 - k)"
    by (simp add: k powr_realpow [symmetric] of_nat_diff powr_minus_divide [symmetric])
  have scaled: "real n / (1 / 2 ^ (52 - k)) = of_int (int n * 2 ^ (52 - k))"
    by simp
  have "round_even (real n / (1 / 2 ^ (52 - k))) = int n * 2 ^ (52 - k)"
    unfolding scaled by (rule round_even_of_int)
  then show ?thesis
    using False by (simp add: round_f64_def Let_def ulp)
qed (simp add: round_f64_def)

end
