(* ===== verification/Strategy.thy ===== *)
theory Strategy
  imports Float64 Deployment Router_Types
begin

section \<open>Routing strategies\<close>

text \<open>
  Models \<^verbatim>\<open>src/core/router/strategy_impl.rs\<close> and the dispatcher
  \<open>select_from_routing_contexts\<close> of \<^verbatim>\<open>src/core/router/selection.rs\<close>.

  The numbers drawn from the generator are an argument, a sequence that is read from its
  start by each call.  \<open>random_range(0..n)\<close> reduces a number to the range.  The counters
  of the round robin are explicit state.  The quotients of the rate-limit strategy are
  IEEE doubles.
\<close>

record routing_context =
  deployment_id :: string
  ctx_weight :: u32
  ctx_priority :: u32
  ctx_active_requests :: u32
  ctx_tpm_current :: u64
  ctx_tpm_limit :: "u64 option"
  ctx_rpm_current :: u64
  ctx_rpm_limit :: "u64 option"
  ctx_avg_latency_us :: u64

type_synonym 'p deployments = "string \<rightharpoonup> 'p deployment"
type_synonym rr_counters = "string \<rightharpoonup> usize"

text \<open>
  The contexts are built with one reading \<open>now\<close>; \<open>clk\<close> gives the readings of the slow
  paths of the minute gates.
\<close>

definition routing_context_of ::
  "string \<Rightarrow> u64 \<Rightarrow> u64 \<Rightarrow> u64 \<Rightarrow> 'p deployment \<Rightarrow> routing_context \<times> 'p deployment" where
  "routing_context_of i now rn1 rn2 d =
     (let (minute, s) = minute_counters now rn1 (state d);
          (tpm, s') = admission_tpm now rn2 s
      in (\<lparr>deployment_id = i, ctx_weight = weight (config d), ctx_priority = priority (config d),
           ctx_active_requests = active_requests s, ctx_tpm_current = tpm,
           ctx_tpm_limit = tpm_limit (config d), ctx_rpm_current = mc_rpm minute,
           ctx_rpm_limit = rpm_limit (config d), ctx_avg_latency_us = avg_latency_us s'\<rparr>,
          d\<lparr>state := s'\<rparr>))"

fun build_contexts_loop ::
  "string list \<Rightarrow> u64 \<Rightarrow> clock \<Rightarrow> 'p deployments \<Rightarrow> routing_context list \<times> 'p deployments" where
  "build_contexts_loop [] now clk ds = ([], ds)"
| "build_contexts_loop (i # ids) now clk ds =
     (case ds i of
        None \<Rightarrow> build_contexts_loop ids now clk ds
      | Some d \<Rightarrow>
          (let (ctx, d') = routing_context_of i now (clk 0) (clk 1) d;
               (ctxs, ds') = build_contexts_loop ids now (later 2 clk) (ds(i \<mapsto> d'))
           in (ctx # ctxs, ds')))"

definition build_routing_contexts ::
  "string list \<Rightarrow> clock \<Rightarrow> 'p deployments \<Rightarrow> routing_context list \<times> 'p deployments" where
  "build_routing_contexts ids clk = build_contexts_loop ids (clk 0) (later 1 clk)"

subsection \<open>The seven strategies\<close>

fun weighted_pick :: "u32 \<Rightarrow> routing_context list \<Rightarrow> string option" where
  "weighted_pick point [] = None"
| "weighted_pick point (ctx # ctxs) =
     (if point < ctx_weight ctx then Some (deployment_id ctx)
      else weighted_pick (point - ctx_weight ctx) ctxs)"

definition weighted_random_from_context :: "random \<Rightarrow> routing_context list \<Rightarrow> string option" where
  "weighted_random_from_context rnd ctxs =
     (if ctxs = [] then None
      else if length ctxs = 1 then Some (deployment_id (ctxs ! 0))
      else (let total_weight = sum_list (map ctx_weight ctxs)
            in if total_weight = 0
               then Some (deployment_id (ctxs ! random_range (rnd 0) (length ctxs)))
               else (case weighted_pick
                           (of_nat (random_range (rnd 0) (unat total_weight))) ctxs of
                       Some i \<Rightarrow> Some i
                     | None \<Rightarrow> Some (deployment_id (ctxs ! 0)))))"

fun least_busy_loop :: "random \<Rightarrow> string \<Rightarrow> u32 \<Rightarrow> usize \<Rightarrow> routing_context list \<Rightarrow> string" where
  "least_busy_loop rnd best min_active tied [] = best"
| "least_busy_loop rnd best min_active tied (ctx # ctxs) =
     (if ctx_active_requests ctx < min_active
      then least_busy_loop rnd (deployment_id ctx) (ctx_active_requests ctx) 1 ctxs
      else if ctx_active_requests ctx = min_active
      then least_busy_loop (\<lambda>n. rnd (Suc n))
             (if random_range (rnd 0) (unat (tied + 1)) = 0 then deployment_id ctx else best)
             min_active (tied + 1) ctxs
      else least_busy_loop rnd best min_active tied ctxs)"

definition least_busy_from_context :: "random \<Rightarrow> routing_context list \<Rightarrow> string option" where
  "least_busy_from_context rnd ctxs =
     (case ctxs of
        [] \<Rightarrow> None
      | ctx # rest \<Rightarrow>
          if rest = [] then Some (deployment_id ctx)
          else Some (least_busy_loop rnd (deployment_id ctx) (ctx_active_requests ctx) 1 rest))"

text \<open>The scan shared by the strategies that keep the first strictly better candidate.\<close>

fun strict_scan ::
  "(routing_context \<Rightarrow> 'b) \<Rightarrow> ('b \<Rightarrow> 'b \<Rightarrow> bool) \<Rightarrow> string \<Rightarrow> 'b \<Rightarrow> routing_context list \<Rightarrow> string" where
  "strict_scan key better best_id best [] = best_id"
| "strict_scan key better best_id best (ctx # ctxs) =
     (if better (key ctx) best
      then strict_scan key better (deployment_id ctx) (key ctx) ctxs
      else strict_scan key better best_id best ctxs)"

definition usage_pct :: "routing_context \<Rightarrow> u64" where
  "usage_pct ctx =
     (case ctx_tpm_limit ctx of
        Some limit \<Rightarrow> if limit > 0 then (ctx_tpm_current ctx * 100) div limit else 0
      | None \<Rightarrow> 0)"

definition lowest_usage_from_context :: "routing_context list \<Rightarrow> string option" where
  "lowest_usage_from_context ctxs =
     (if ctxs = [] then None
      else Some (strict_scan usage_pct (<) (deployment_id (ctxs ! 0)) max_value ctxs))"

fun non_zero_latency :: "u64 \<Rightarrow> u64 \<Rightarrow> routing_context list \<Rightarrow> u64 \<times> u64" where
  "non_zero_latency acc count [] = (acc, count)"
| "non_zero_latency acc count (ctx # ctxs) =
     (if ctx_avg_latency_us ctx > 0
      then non_zero_latency (saturating_add acc (ctx_avg_latency_us ctx)) (count + 1) ctxs
      else non_zero_latency acc count ctxs)"

definition fallback_latency :: "routing_context list \<Rightarrow> u64" where
  "fallback_latency ctxs =
     (let (acc, count) = non_zero_latency 0 0 ctxs
      in case checked_div acc count of Some q \<Rightarrow> q | None \<Rightarrow> 0)"

definition effective_latency :: "u64 \<Rightarrow> routing_context \<Rightarrow> u64" where
  "effective_latency avg_latency ctx =
     (if ctx_avg_latency_us ctx = 0 then avg_latency else ctx_avg_latency_us ctx)"

definition lowest_latency_from_context :: "routing_context list \<Rightarrow> string option" where
  "lowest_latency_from_context ctxs =
     (if ctxs = [] then None
      else Some (strict_scan (effective_latency (fallback_latency ctxs)) (<)
                   (deployment_id (ctxs ! 0)) max_value ctxs))"

definition lowest_priority_from_context :: "routing_context list \<Rightarrow> string option" where
  "lowest_priority_from_context ctxs =
     (if ctxs = [] then None
      else Some (strict_scan ctx_priority (<) (deployment_id (ctxs ! 0)) max_value ctxs))"

definition f64_ratio :: "u64 \<Rightarrow> u64 \<Rightarrow> real" where
  "f64_ratio a b = round_f64 (round_f64 (of_nat (unat a)) / round_f64 (of_nat (unat b)))"

definition limit_distance :: "u64 option \<Rightarrow> u64 \<Rightarrow> real" where
  "limit_distance cap current =
     (case cap of
        Some limit \<Rightarrow> if limit > 0 then f64_ratio (saturating_sub limit current) limit else 1
      | None \<Rightarrow> 1)"

definition rate_distance :: "routing_context \<Rightarrow> real" where
  "rate_distance ctx =
     min (limit_distance (ctx_tpm_limit ctx) (ctx_tpm_current ctx))
         (limit_distance (ctx_rpm_limit ctx) (ctx_rpm_current ctx))"

definition rate_limit_aware_from_context :: "routing_context list \<Rightarrow> string option" where
  "rate_limit_aware_from_context ctxs =
     (if ctxs = [] then None
      else Some (strict_scan rate_distance (>) (deployment_id (ctxs ! 0)) (- 1) ctxs))"

definition round_robin_from_context ::
  "string \<Rightarrow> routing_context list \<Rightarrow> rr_counters \<Rightarrow> string option \<times> rr_counters" where
  "round_robin_from_context name ctxs counters =
     (if ctxs = [] then (None, counters)
      else if length ctxs = 1 then (Some (deployment_id (ctxs ! 0)), counters)
      else (let c = (case counters name of Some c \<Rightarrow> c | None \<Rightarrow> 0)
            in (Some (deployment_id (ctxs ! (unat c mod length ctxs))), counters(name \<mapsto> c + 1))))"

definition select_from_routing_contexts ::
  "routing_strategy \<Rightarrow> string \<Rightarrow> random \<Rightarrow> routing_context list \<Rightarrow> rr_counters
     \<Rightarrow> string option \<times> rr_counters" where
  "select_from_routing_contexts strategy name rnd ctxs counters =
     (case strategy of
        SimpleShuffle \<Rightarrow> (weighted_random_from_context rnd ctxs, counters)
      | LeastBusy \<Rightarrow> (least_busy_from_context rnd ctxs, counters)
      | UsageBased \<Rightarrow> (lowest_usage_from_context ctxs, counters)
      | LatencyBased \<Rightarrow> (lowest_latency_from_context ctxs, counters)
      | PriorityBased \<Rightarrow> (lowest_priority_from_context ctxs, counters)
      | RateLimitAware \<Rightarrow> (rate_limit_aware_from_context ctxs, counters)
      | RoundRobin \<Rightarrow> round_robin_from_context name ctxs counters)"

subsection \<open>The contract of a strategy\<close>

definition ids_of :: "routing_context list \<Rightarrow> string set" where
  "ids_of ctxs = deployment_id ` set ctxs"

locale selection_strategy =
  fixes select :: "'e \<Rightarrow> routing_context list \<Rightarrow> string option"
  assumes select_empty: "select e [] = None"
    and select_some: "ctxs \<noteq> [] \<Longrightarrow> \<exists>i \<in> ids_of ctxs. select e ctxs = Some i"
begin

lemma select_None_iff: "select e ctxs = None \<longleftrightarrow> ctxs = []"
  using select_empty [of e] select_some [of ctxs e] by (cases "ctxs = []") auto

lemma select_member: "select e ctxs = Some i \<Longrightarrow> i \<in> ids_of ctxs"
  using select_empty [of e] select_some [of ctxs e] by (cases "ctxs = []") auto

lemma select_singleton: "select e [ctx] = Some (deployment_id ctx)"
  using select_some [of "[ctx]" e] by (simp add: ids_of_def)

end

text \<open>A strategy that minimises a cost, which may depend on the whole candidate list.\<close>

locale optimal_strategy = selection_strategy +
  fixes cost :: "routing_context list \<Rightarrow> routing_context \<Rightarrow> 'c::linorder"
  assumes select_optimal: "select e ctxs = Some i \<Longrightarrow>
    \<exists>c \<in> set ctxs. deployment_id c = i \<and> (\<forall>d \<in> set ctxs. cost ctxs c \<le> cost ctxs d)"
begin

lemma select_best:
  assumes "ctxs \<noteq> []"
  shows "\<exists>c \<in> set ctxs. select e ctxs = Some (deployment_id c)
           \<and> (\<forall>d \<in> set ctxs. cost ctxs c \<le> cost ctxs d)"
  using select_some [OF assms, of e] select_optimal [of e ctxs] by fastforce

end

subsection \<open>The scans find the best candidate\<close>

text \<open>
  A scan started with a value that beats no candidate ends at a candidate that is as good
  as every candidate and as the start value.
\<close>

lemma strict_scan_less:
  fixes key :: "routing_context \<Rightarrow> 'b::linorder"
  shows "(strict_scan key (<) b best ctxs = b \<and> (\<forall>d \<in> set ctxs. best \<le> key d))
     \<or> (\<exists>c \<in> set ctxs. deployment_id c = strict_scan key (<) b best ctxs
          \<and> key c < best \<and> (\<forall>d \<in> set ctxs. key c \<le> key d))"
proof (induction ctxs arbitrary: b best)
  case (Cons ctx ctxs)
  show ?case
  proof (cases "key ctx < best")
    case True
    with Cons.IH [of "deployment_id ctx" "key ctx"] show ?thesis
      by fastforce
  next
    case False
    with Cons.IH [of b best] show ?thesis by fastforce
  qed
qed simp

lemma strict_scan_best:
  fixes key :: "routing_context \<Rightarrow> 'b::linorder"
  assumes "ctxs \<noteq> []" and "\<forall>d \<in> set ctxs. key d \<le> worst"
  shows "\<exists>c \<in> set ctxs. deployment_id c = strict_scan key (<) (deployment_id (ctxs ! 0)) worst ctxs
           \<and> (\<forall>d \<in> set ctxs. key c \<le> key d)"
proof -
  consider "strict_scan key (<) (deployment_id (ctxs ! 0)) worst ctxs = deployment_id (ctxs ! 0)"
      "\<forall>d \<in> set ctxs. worst \<le> key d"
    | c where "c \<in> set ctxs" "deployment_id c = strict_scan key (<) (deployment_id (ctxs ! 0)) worst ctxs"
      "\<forall>d \<in> set ctxs. key c \<le> key d"
    using strict_scan_less [of key "deployment_id (ctxs ! 0)" worst ctxs] by blast
  then show ?thesis
  proof cases
    case 1
    have "ctxs ! 0 \<in> set ctxs"
      using assms(1) by simp
    with 1 assms(2) show ?thesis
      by (intro bexI [of _ "ctxs ! 0"]) fastforce+
  qed blast
qed

lemma strict_scan_greater:
  "strict_scan key (>) b best ctxs = strict_scan (\<lambda>c. - key c) (<) b (- best :: real) ctxs"
  by (induction ctxs arbitrary: b best) simp_all

lemma least_busy_loop_best:
  "(least_busy_loop rnd b m t ctxs = b \<and> (\<forall>d \<in> set ctxs. m \<le> ctx_active_requests d))
   \<or> (\<exists>c \<in> set ctxs. deployment_id c = least_busy_loop rnd b m t ctxs
        \<and> ctx_active_requests c \<le> m \<and> (\<forall>d \<in> set ctxs. ctx_active_requests c \<le> ctx_active_requests d))"
proof (induction rnd b m t ctxs rule: least_busy_loop.induct)
  case (2 rnd b m t ctx ctxs)
  consider "ctx_active_requests ctx < m" | "ctx_active_requests ctx = m" | "m < ctx_active_requests ctx"
    by (metis linorder_neqE)
  then show ?case
  proof cases
    case 1
    with "2.IH"(1) [OF 1] show ?thesis by fastforce
  next
    case 2
    define b' where "b' = (if random_range (rnd 0) (unat (t + 1)) = 0 then deployment_id ctx else b)"
    have eq: "least_busy_loop rnd b m t (ctx # ctxs)
        = least_busy_loop (\<lambda>n. rnd (Suc n)) b' m (t + 1) ctxs"
      using 2 by (simp add: b'_def)
    have "\<not> ctx_active_requests ctx < m" using 2 by simp
    from "2.IH"(2) [OF this 2, folded b'_def] show ?thesis
    proof (elim disjE conjE bexE)
      assume "least_busy_loop (\<lambda>n. rnd (Suc n)) b' m (t + 1) ctxs = b'"
        and "\<forall>d \<in> set ctxs. m \<le> ctx_active_requests d"
      moreover have "b' = deployment_id ctx \<or> b' = b"
        by (simp add: b'_def)
      ultimately show ?thesis
        unfolding eq using 2 by (metis list.set_intros(1) order_refl set_ConsD)
    next
      fix c
      assume "c \<in> set ctxs" "ctx_active_requests c \<le> m"
        "deployment_id c = least_busy_loop (\<lambda>n. rnd (Suc n)) b' m (t + 1) ctxs"
        "\<forall>d \<in> set ctxs. ctx_active_requests c \<le> ctx_active_requests d"
      then show ?thesis
        unfolding eq using 2 by (intro disjI2 bexI [of _ c]) simp_all
    qed
  next
    case 3
    then have "\<not> ctx_active_requests ctx < m" "ctx_active_requests ctx \<noteq> m"
      by simp_all
    from "2.IH"(3) [OF this] this 3 show ?thesis
      by (elim disjE conjE bexE) auto
  qed
qed simp

subsection \<open>The strategies meet the contract\<close>

lemma weighted_pick_member: "weighted_pick p ctxs = Some i \<Longrightarrow> i \<in> ids_of ctxs"
  by (induction p ctxs rule: weighted_pick.induct) (auto simp: ids_of_def split: if_splits)

lemma hd_in_ids: "ctxs \<noteq> [] \<Longrightarrow> deployment_id (ctxs ! 0) \<in> ids_of ctxs"
  by (simp add: ids_of_def)

interpretation weighted: selection_strategy weighted_random_from_context
proof
  show "\<exists>i \<in> ids_of ctxs. weighted_random_from_context e ctxs = Some i" if "ctxs \<noteq> []" for e ctxs
    using that hd_in_ids [OF that] weighted_pick_member [of _ ctxs]
    by (auto simp: weighted_random_from_context_def Let_def ids_of_def split: option.splits)
qed (simp add: weighted_random_from_context_def)

interpretation least_busy:
  optimal_strategy least_busy_from_context "\<lambda>_ c. ctx_active_requests c"
proof
  fix e :: random and ctxs :: "routing_context list" and i
  show best: "\<exists>c \<in> set ctxs. deployment_id c = i
      \<and> (\<forall>d \<in> set ctxs. ctx_active_requests c \<le> ctx_active_requests d)"
    if sel: "least_busy_from_context e ctxs = Some i" for e i and ctxs :: "routing_context list"
  proof (cases ctxs)
    case (Cons ctx rest)
    with sel least_busy_loop_best [of e "deployment_id ctx" "ctx_active_requests ctx" 1 rest]
    show ?thesis
      by (auto simp: least_busy_from_context_def split: if_splits)
  qed (use sel in \<open>simp add: least_busy_from_context_def\<close>)
  show "\<exists>i \<in> ids_of ctxs. least_busy_from_context e ctxs = Some i" if ne: "ctxs \<noteq> []"
  proof -
    obtain i where i: "least_busy_from_context e ctxs = Some i"
      using ne by (fastforce simp: least_busy_from_context_def split: list.splits if_splits)
    with best [OF i] show ?thesis by (auto simp: ids_of_def)
  qed
qed (simp add: least_busy_from_context_def)

text \<open>The three strategies whose scan keeps the smallest key.\<close>

lemma scan_strategy:
  fixes key :: "routing_context list \<Rightarrow> routing_context \<Rightarrow> 'b::linorder"
  assumes "\<And>ctxs c. key ctxs c \<le> worst"
  shows "optimal_strategy (\<lambda>_ ctxs. if ctxs = [] then None
           else Some (strict_scan (key ctxs) (<) (deployment_id (ctxs ! 0)) worst ctxs)) key"
proof
  show "\<exists>i \<in> ids_of ctxs. (if ctxs = [] then None
           else Some (strict_scan (key ctxs) (<) (deployment_id (ctxs ! 0)) worst ctxs)) = Some i"
    if "ctxs \<noteq> []" for ctxs
    using strict_scan_best [OF that, of "key ctxs" worst] assms that
    by (auto simp: ids_of_def intro!: image_eqI)
  show "\<exists>c \<in> set ctxs. deployment_id c = i \<and> (\<forall>d \<in> set ctxs. key ctxs c \<le> key ctxs d)"
    if "(if ctxs = [] then None
         else Some (strict_scan (key ctxs) (<) (deployment_id (ctxs ! 0)) worst ctxs)) = Some i"
    for ctxs i
    using that strict_scan_best [of ctxs "key ctxs" worst] assms by (auto split: if_splits)
qed simp

interpretation lowest_usage: optimal_strategy "\<lambda>_ :: unit. lowest_usage_from_context" "\<lambda>_. usage_pct"
  unfolding lowest_usage_from_context_def by (rule scan_strategy) (rule le_max_value)

interpretation lowest_latency: optimal_strategy "\<lambda>_ :: unit. lowest_latency_from_context"
  "\<lambda>ctxs. effective_latency (fallback_latency ctxs)"
  unfolding lowest_latency_from_context_def by (rule scan_strategy) (rule le_max_value)

interpretation lowest_priority: optimal_strategy "\<lambda>_ :: unit. lowest_priority_from_context"
  "\<lambda>_. ctx_priority"
  unfolding lowest_priority_from_context_def by (rule scan_strategy) (rule le_max_value)

lemma rate_distance_nonneg: "0 \<le> rate_distance ctx"
proof -
  have "0 \<le> f64_ratio a b" for a b
    unfolding f64_ratio_def by (intro round_f64_nonneg divide_nonneg_nonneg of_nat_0_le_iff)
  then have "0 \<le> limit_distance cap current" for cap current
    by (simp add: limit_distance_def split: option.split)
  then show ?thesis by (simp add: rate_distance_def)
qed

interpretation rate_limit_aware: optimal_strategy "\<lambda>_ :: unit. rate_limit_aware_from_context"
  "\<lambda>_ c. - rate_distance c"
  unfolding rate_limit_aware_from_context_def strict_scan_greater
  using rate_distance_nonneg by (intro scan_strategy) (simp add: order_trans [of _ 0])

lemma nth_in_ids: "n < length ctxs \<Longrightarrow> deployment_id (ctxs ! n) \<in> ids_of ctxs"
  by (simp add: ids_of_def)

interpretation round_robin:
  selection_strategy "\<lambda>(name, counters) ctxs. fst (round_robin_from_context name ctxs counters)"
  by unfold_locales (auto simp: round_robin_from_context_def Let_def intro!: nth_in_ids)

subsection \<open>Properties of the strategies\<close>

text \<open>
  Whatever the strategy, the random numbers and the counters, the dispatcher picks
  no deployment from an empty candidate list, a member of the list otherwise, and changes
  no counter but the one of the model.
\<close>

lemma select_from_routing_contexts_sound:
  "(fst (select_from_routing_contexts strategy name rnd ctxs counters) = None \<longleftrightarrow> ctxs = [])
   \<and> set_option (fst (select_from_routing_contexts strategy name rnd ctxs counters)) \<subseteq> ids_of ctxs
   \<and> (\<exists>c. snd (select_from_routing_contexts strategy name rnd ctxs counters)
         \<in> {counters, counters(name \<mapsto> c)})"
proof -
  note none = weighted.select_None_iff least_busy.select_None_iff lowest_usage.select_None_iff
    lowest_latency.select_None_iff lowest_priority.select_None_iff
    rate_limit_aware.select_None_iff round_robin.select_None_iff [of "(name, counters)", simplified]
  note member = weighted.select_member least_busy.select_member lowest_usage.select_member
    lowest_latency.select_member lowest_priority.select_member
    rate_limit_aware.select_member round_robin.select_member [of "(name, counters)", simplified]
  have "fst (select_from_routing_contexts strategy name rnd ctxs counters) = None \<longleftrightarrow> ctxs = []"
    by (cases strategy) (simp_all add: select_from_routing_contexts_def none)
  moreover have "set_option (fst (select_from_routing_contexts strategy name rnd ctxs counters))
      \<subseteq> ids_of ctxs"
    by (cases strategy) (auto simp: select_from_routing_contexts_def dest: member)
  moreover have "\<exists>c. snd (select_from_routing_contexts strategy name rnd ctxs counters)
      \<in> {counters, counters(name \<mapsto> c)}"
    by (cases strategy)
      (auto simp: select_from_routing_contexts_def round_robin_from_context_def Let_def)
  ultimately show ?thesis by blast
qed

text \<open>What the optimising strategies minimise, as a real number.\<close>

definition strategy_cost :: "routing_strategy \<Rightarrow> routing_context list \<Rightarrow> routing_context \<Rightarrow> real" where
  "strategy_cost strategy ctxs c =
     (case strategy of
        LeastBusy \<Rightarrow> real (unat (ctx_active_requests c))
      | UsageBased \<Rightarrow> real (unat (usage_pct c))
      | LatencyBased \<Rightarrow> real (unat (effective_latency (fallback_latency ctxs) c))
      | PriorityBased \<Rightarrow> real (unat (ctx_priority c))
      | RateLimitAware \<Rightarrow> - rate_distance c
      | _ \<Rightarrow> 0)"

text \<open>
  The optimising strategies are optimal: with any random numbers, the deployment
  picked belongs to a candidate whose cost (active requests, percentage of the token limit,
  latency with the average standing in for unmeasured ones, priority value, or negated
  distance to the nearer rate limit) is least among all candidates.
\<close>

theorem select_from_routing_contexts_optimal:
  assumes "ctxs \<noteq> []" and "strategy \<notin> {SimpleShuffle, RoundRobin}"
  shows "\<exists>c \<in> set ctxs.
           fst (select_from_routing_contexts strategy name rnd ctxs counters) = Some (deployment_id c)
           \<and> (\<forall>d \<in> set ctxs. strategy_cost strategy ctxs c \<le> strategy_cost strategy ctxs d)"
proof -
  note best = least_busy.select_best lowest_usage.select_best lowest_latency.select_best
    lowest_priority.select_best rate_limit_aware.select_best
  show ?thesis
    using assms(2) best [OF assms(1)]
    by (cases strategy)
      (simp_all add: select_from_routing_contexts_def strategy_cost_def unsigned_real_le)
qed

definition example_context :: "string \<Rightarrow> u32 \<Rightarrow> routing_context" where
  "example_context i w =
     \<lparr>deployment_id = i, ctx_weight = w, ctx_priority = w, ctx_active_requests = w,
      ctx_tpm_current = 0, ctx_tpm_limit = None, ctx_rpm_current = 0, ctx_rpm_limit = None,
      ctx_avg_latency_us = 0\<rparr>"

theorem select_from_routing_contexts_optimal_witness:
  "fst (select_from_routing_contexts PriorityBased ''m'' (\<lambda>_. 0)
         [example_context ''a'' 2, example_context ''b'' 1] Map.empty) = Some ''b''"
  using select_from_routing_contexts_optimal
    [of "[example_context ''a'' 2, example_context ''b'' 1]" PriorityBased "''m''" "\<lambda>_. 0" Map.empty]
  by (auto simp: strategy_cost_def example_context_def)

subsection \<open>Weighted selection is proportional\<close>

lemma unat_sum_list_weights:
  assumes "sum_list (map (\<lambda>c. unat (ctx_weight c)) ctxs) < 2 ^ 32"
  shows "unat (sum_list (map ctx_weight ctxs)) = sum_list (map (\<lambda>c. unat (ctx_weight c)) ctxs)"
  using assms
proof (induction ctxs)
  case (Cons c ctxs)
  then have "unat (sum_list (map ctx_weight ctxs)) = sum_list (map (\<lambda>c. unat (ctx_weight c)) ctxs)"
    by simp
  with Cons.prems show ?case
    by (simp add: unat_add_small)
qed simp

text \<open>The walk over the weights, with the point as a natural number.\<close>

fun nat_pick :: "nat \<Rightarrow> routing_context list \<Rightarrow> string option" where
  "nat_pick p [] = None"
| "nat_pick p (c # cs) =
     (if p < unat (ctx_weight c) then Some (deployment_id c) else nat_pick (p - unat (ctx_weight c)) cs)"

lemma weighted_pick_nat: "weighted_pick p cs = nat_pick (unat p) cs"
proof (induction cs arbitrary: p)
  case (Cons c cs)
  show ?case
  proof (cases "p < ctx_weight c")
    case True
    then show ?thesis by (simp add: word_less_nat_alt)
  next
    case False
    then have "unat (p - ctx_weight c) = unat p - unat (ctx_weight c)"
      by (intro unat_sub_le) simp
    with False show ?thesis by (simp add: Cons.IH word_less_nat_alt)
  qed
qed simp

lemma nat_pick_None: "nat_pick p cs = None \<longleftrightarrow> sum_list (map (\<lambda>c. unat (ctx_weight c)) cs) \<le> p"
proof (induction cs arbitrary: p)
  case (Cons c cs)
  then show ?case
    by (cases "p < unat (ctx_weight c)") (simp_all add: not_less le_diff_conv2 add.commute)
qed simp

lemma nat_pick_member: "nat_pick p cs = Some i \<Longrightarrow> i \<in> ids_of cs"
  by (induction p cs rule: nat_pick.induct) (auto simp: ids_of_def split: if_splits)

lemma nat_pick_points:
  "{p. nat_pick p (c # cs) = Some i} =
     (if deployment_id c = i then {..< unat (ctx_weight c)} else {})
     \<union> (\<lambda>p. p + unat (ctx_weight c)) ` {p. nat_pick p cs = Some i}"
proof (intro set_eqI iffI)
  fix p
  assume "p \<in> {p. nat_pick p (c # cs) = Some i}"
  then show "p \<in> (if deployment_id c = i then {..< unat (ctx_weight c)} else {})
     \<union> (\<lambda>p. p + unat (ctx_weight c)) ` {p. nat_pick p cs = Some i}"
    by (auto split: if_splits intro!: image_eqI [of _ _ "p - unat (ctx_weight c)"])
qed (auto split: if_splits)

lemma nat_pick_finite: "finite {p. nat_pick p cs = Some i}"
proof (rule finite_subset)
  show "{p. nat_pick p cs = Some i} \<subseteq> {..< sum_list (map (\<lambda>c. unat (ctx_weight c)) cs)}"
  proof
    fix p
    assume "p \<in> {p. nat_pick p cs = Some i}"
    then show "p \<in> {..< sum_list (map (\<lambda>c. unat (ctx_weight c)) cs)}"
      using nat_pick_None [of p cs] by simp
  qed
qed simp

lemma card_nat_pick:
  "card {p. nat_pick p cs = Some i}
     = sum_list (map (\<lambda>c. unat (ctx_weight c)) (filter (\<lambda>c. deployment_id c = i) cs))"
proof (induction cs)
  case (Cons c cs)
  let ?B = "(\<lambda>p. p + unat (ctx_weight c)) ` {p. nat_pick p cs = Some i}"
  have "card ?B = card {p. nat_pick p cs = Some i}"
    by (rule card_image) (simp add: inj_on_def)
  moreover have "card ({..< unat (ctx_weight c)} \<union> ?B) = card {..< unat (ctx_weight c)} + card ?B"
    by (rule card_Un_disjoint) (auto simp: nat_pick_finite)
  ultimately show ?case
    unfolding nat_pick_points by (simp add: Cons.IH)
qed simp

text \<open>
  C36.  The weighted shuffle is exactly proportional.  If the weights sum to a positive
  number below \<open>2 ^ 32\<close>, then of the equally likely numbers the generator may draw, exactly
  as many select a deployment as its weight says; in particular weight zero is never
  selected.
\<close>

theorem weighted_random_proportional:
  assumes "length ctxs > 1" and "weights = sum_list (map (\<lambda>c. unat (ctx_weight c)) ctxs)"
    and "0 < weights" "weights < 2 ^ 32"
  shows "card {r. r < weights \<and> weighted_random_from_context (\<lambda>_. r) ctxs = Some i}
           = sum_list (map (\<lambda>c. unat (ctx_weight c)) (filter (\<lambda>c. deployment_id c = i) ctxs))"
proof -
  have tot: "unat (sum_list (map ctx_weight ctxs)) = weights"
    using unat_sum_list_weights [of ctxs] assms(2,4) by simp
  then have nz: "sum_list (map ctx_weight ctxs) \<noteq> 0"
    using assms(3) by (auto simp: unat_eq_zero)
  have "weighted_random_from_context (\<lambda>_. r) ctxs = nat_pick r ctxs" if "r < weights" for r
  proof -
    have "unat (of_nat r :: u32) = r"
      using that assms(4) by (simp add: unat_of_nat)
    moreover have "nat_pick r ctxs \<noteq> None"
      using that assms(2) by (simp add: nat_pick_None)
    ultimately show ?thesis
      using assms(1) nz that
      by (auto simp: weighted_random_from_context_def Let_def random_range_def weighted_pick_nat tot)
  qed
  moreover have "r < weights" if "nat_pick r ctxs = Some j" for r j
    using that nat_pick_None [of r ctxs] assms(2) by simp
  ultimately have "{r. r < weights \<and> weighted_random_from_context (\<lambda>_. r) ctxs = Some i}
      = {r. nat_pick r ctxs = Some i}"
    by auto
  then show ?thesis by (simp add: card_nat_pick)
qed

theorem weighted_random_proportional_witness:
  "card {r. r < 4 \<and> weighted_random_from_context (\<lambda>_. r)
      [example_context ''a'' 1, example_context ''b'' 3] = Some ''b''} = 3"
  using weighted_random_proportional
    [of "[example_context ''a'' 1, example_context ''b'' 3]" 4 "''b''"]
  by (simp add: example_context_def)

subsection \<open>Round robin is fair\<close>

fun round_robin_picks ::
  "nat \<Rightarrow> string \<Rightarrow> routing_context list \<Rightarrow> rr_counters \<Rightarrow> string option list" where
  "round_robin_picks 0 name ctxs counters = []"
| "round_robin_picks (Suc k) name ctxs counters =
     (let (pick, counters') = round_robin_from_context name ctxs counters
      in pick # round_robin_picks k name ctxs counters')"

definition counter_of :: "rr_counters \<Rightarrow> string \<Rightarrow> nat" where
  "counter_of counters name = (case counters name of Some c \<Rightarrow> unat c | None \<Rightarrow> 0)"

lemma round_robin_picks_nth:
  assumes "ctxs \<noteq> []" and "counter_of counters name + k < 2 ^ 64" "j < k"
  shows "round_robin_picks k name ctxs counters ! j
     = Some (deployment_id (ctxs ! ((counter_of counters name + j) mod length ctxs)))"
  using assms
proof (induction k arbitrary: counters j)
  case (Suc k)
  show ?case
  proof (cases "length ctxs = 1")
    case True
    with Suc show ?thesis
      by (cases j) (simp_all add: round_robin_from_context_def)
  next
    case False
    define c where "c = (case counters name of Some c \<Rightarrow> c | None \<Rightarrow> 0)"
    have c: "unat c = counter_of counters name"
      by (simp add: c_def counter_of_def split: option.split)
    have step: "round_robin_from_context name ctxs counters
        = (Some (deployment_id (ctxs ! (unat c mod length ctxs))), counters(name \<mapsto> c + 1))"
      using Suc.prems(1) False by (simp add: round_robin_from_context_def c_def Let_def)
    have "unat (c + 1) = Suc (unat c)"
      using Suc.prems(2) c unat_add_small [of c 1] by simp
    then have "counter_of (counters(name \<mapsto> c + 1)) name = Suc (counter_of counters name)"
      by (simp add: counter_of_def c [unfolded counter_of_def])
    with Suc step c show ?thesis
      by (cases j) simp_all
  qed
qed simp

lemma round_robin_picks_length [simp]: "length (round_robin_picks k name ctxs counters) = k"
  by (induction k arbitrary: counters) (simp_all split: prod.split)

text \<open>
  Round robin is fair: as many successive selections for a model as it has candidates
  pick every candidate exactly once, in the cyclic order of the candidates from where the
  model's counter stands.
\<close>

theorem round_robin_fair:
  assumes "ctxs \<noteq> []" and "counter_of counters name + length ctxs < 2 ^ 64"
  shows "round_robin_picks (length ctxs) name ctxs counters
     = map Some (rotate (counter_of counters name) (map deployment_id ctxs))"
proof (rule nth_equalityI)
  fix j
  assume "j < length (round_robin_picks (length ctxs) name ctxs counters)"
  then have j: "j < length ctxs" by simp
  with assms(1) show "round_robin_picks (length ctxs) name ctxs counters ! j
     = map Some (rotate (counter_of counters name) (map deployment_id ctxs)) ! j"
    unfolding round_robin_picks_nth [OF assms j]
    by (simp add: nth_rotate mod_less_divisor)
qed simp

lemma rotate_four: "rotate 4 [''a'', ''b'', ''c''] = [''b'', ''c'', ''a'']"
  by code_simp

theorem round_robin_fair_witness:
  "round_robin_picks 3 ''m'' [example_context ''a'' 1, example_context ''b'' 1,
       example_context ''c'' 1] [''m'' \<mapsto> 4] = [Some ''b'', Some ''c'', Some ''a'']"
proof -
  let ?c = "[example_context ''a'' 1, example_context ''b'' 1, example_context ''c'' 1]"
  have "round_robin_picks (length ?c) ''m'' ?c [''m'' \<mapsto> 4]
      = map Some (rotate (counter_of [''m'' \<mapsto> 4] ''m'') (map deployment_id ?c))"
    by (rule round_robin_fair) (simp_all add: counter_of_def)
  moreover have "length ?c = 3" "counter_of [''m'' \<mapsto> 4] ''m'' = 4"
    "map deployment_id ?c = [''a'', ''b'', ''c'']"
    by (simp_all add: counter_of_def example_context_def)
  ultimately show ?thesis
    by (simp only: rotate_four list.map)
qed

end
