(* ===== verification/Aliases.thy ===== *)
theory Aliases
  imports Router_Types "HOL-Library.Char_ord" "HOL-Library.List_Lexorder"
begin

section \<open>Model aliases\<close>

text \<open>
  Models the alias table of a routing snapshot (\<open>add_model_alias\<close> and
  \<open>resolve_model_name\<close> of \<^verbatim>\<open>src/core/router/unified.rs\<close>), the validation of the
  alias map of a configuration (\<open>validate_model_alias_map\<close> of
  \<^verbatim>\<open>src/config/validation/config_validators.rs\<close>) and its normalisation
  (\<^verbatim>\<open>src/core/router/gateway_aliases.rs\<close>).

  The loops that follow alias chains have no bound of their own: they are
  \<open>partial_function (option)\<close>s, \<open>None\<close> meaning that the loop runs forever.  A configured map
  is an association list with distinct keys; characters are code points below 256.
\<close>

type_synonym alias_map = "string \<rightharpoonup> string"

definition quoted :: "string \<Rightarrow> string" where
  "quoted s = [CHR 0x27] @ s @ [CHR 0x27]"

subsection \<open>The alias table of a snapshot\<close>

text \<open>The loop of \<open>add_model_alias\<close>: does the chain from \<open>current\<close> hit a visited name?\<close>

partial_function (option) alias_cycle_walk ::
  "alias_map \<Rightarrow> string set \<Rightarrow> string \<Rightarrow> bool option" where
  "alias_cycle_walk m visited current =
     (case m current of
        None \<Rightarrow> Some False
      | Some next \<Rightarrow>
          if next \<in> visited then Some True
          else alias_cycle_walk m (insert next visited) next)"

definition alias_cycle_message :: "string \<Rightarrow> string \<Rightarrow> string" where
  "alias_cycle_message alias name =
     quoted alias @ '' -> '' @ quoted name @ '' would create a cycle''"

definition add_model_alias ::
  "string \<Rightarrow> string \<Rightarrow> alias_map \<Rightarrow> (router_error + alias_map) option" where
  "add_model_alias alias name m =
     (if alias = name then Some (Inl (AliasCycle (alias_cycle_message alias name)))
      else (case alias_cycle_walk m {alias} name of
              None \<Rightarrow> None
            | Some cyclic \<Rightarrow>
                Some (if cyclic then Inl (AliasCycle (alias_cycle_message alias name))
                      else Inr (m(alias \<mapsto> name)))))"

definition MAX_ALIAS_HOPS :: nat where
  "MAX_ALIAS_HOPS = 16"

fun resolve_hops :: "nat \<Rightarrow> alias_map \<Rightarrow> string \<Rightarrow> string" where
  "resolve_hops 0 m current = current"
| "resolve_hops (Suc n) m current =
     (case m current of Some next \<Rightarrow> resolve_hops n m next | None \<Rightarrow> current)"

definition resolve_model_name :: "alias_map \<Rightarrow> string \<Rightarrow> string" where
  "resolve_model_name m name = resolve_hops MAX_ALIAS_HOPS m name"

subsection \<open>Configured alias maps\<close>

type_synonym alias_config = "(string \<times> string) list"

definition is_whitespace :: "char \<Rightarrow> bool" where
  "is_whitespace c \<longleftrightarrow>
     (let n = of_char c :: nat in (9 \<le> n \<and> n \<le> 13) \<or> n = 32 \<or> n = 133 \<or> n = 160)"

definition trim_str :: "string \<Rightarrow> string" where
  "trim_str s = rev (dropWhile is_whitespace (rev (dropWhile is_whitespace s)))"

fun validate_alias_names :: "alias_config \<Rightarrow> string list \<Rightarrow> string + unit" where
  "validate_alias_names al [] = Inr ()"
| "validate_alias_names al (alias # names) =
     (let target = the (map_of al alias)
      in if trim_str alias = [] then Inl ''Model alias name cannot be empty''
         else if alias \<noteq> trim_str alias
         then Inl (''Model alias name '' @ quoted alias
                   @ '' cannot contain leading or trailing whitespace'')
         else if trim_str target = []
         then Inl (''Model alias '' @ quoted alias @ '' target cannot be empty'')
         else if trim_str alias = trim_str target
         then Inl (''Model alias '' @ quoted alias @ '' cannot target itself'')
         else validate_alias_names al names)"

text \<open>The path of a cycle, if the chain from \<open>current\<close> has one.\<close>

partial_function (option) alias_path_walk ::
  "alias_map \<Rightarrow> string set \<Rightarrow> string list \<Rightarrow> string \<Rightarrow> string list option option" where
  "alias_path_walk m visited path current =
     (if current \<in> visited then Some (Some (path @ [current]))
      else (case m current of
              None \<Rightarrow> Some None
            | Some next \<Rightarrow> alias_path_walk m (insert current visited) (path @ [current]) next))"

fun join :: "string \<Rightarrow> string list \<Rightarrow> string" where
  "join sep [] = []"
| "join sep [x] = x"
| "join sep (x # y # xs) = x @ sep @ join sep (y # xs)"

fun validate_alias_chains :: "alias_config \<Rightarrow> string list \<Rightarrow> (string + unit) option" where
  "validate_alias_chains al [] = Some (Inr ())"
| "validate_alias_chains al (alias # names) =
     (case alias_path_walk (map_of al) {} [] alias of
        None \<Rightarrow> None
      | Some (Some path) \<Rightarrow> Some (Inl (''Model alias cycle detected: '' @ join '' -> '' path))
      | Some None \<Rightarrow> validate_alias_chains al names)"

definition validate_model_alias_map :: "alias_config \<Rightarrow> (string + unit) option" where
  "validate_model_alias_map al =
     (let alias_names = sort (map fst al)
      in case validate_alias_names al alias_names of
           Inl e \<Rightarrow> Some (Inl e)
         | Inr _ \<Rightarrow> validate_alias_chains al alias_names)"

partial_function (option) alias_target :: "alias_map \<Rightarrow> string \<Rightarrow> string option" where
  "alias_target m target =
     (case m target of None \<Rightarrow> Some target | Some next \<Rightarrow> alias_target m next)"

fun normalize_loop ::
  "alias_config \<Rightarrow> string set \<Rightarrow> string list \<Rightarrow> alias_map \<Rightarrow> (router_error + alias_map) option" where
  "normalize_loop al canonical [] normalized = Some (Inr normalized)"
| "normalize_loop al canonical (alias # names) normalized =
     (case alias_target (map_of al) (the (map_of al alias)) of
        None \<Rightarrow> None
      | Some target \<Rightarrow>
          if target \<notin> canonical
          then Some (Inl (InvalidConfiguration
                 (''model alias '' @ quoted alias @ '' resolves to unavailable model '' @ quoted target)))
          else normalize_loop al canonical names (normalized(alias \<mapsto> target)))"

definition normalize_model_aliases ::
  "alias_config \<Rightarrow> string set \<Rightarrow> (router_error + alias_map) option" where
  "normalize_model_aliases al canonical =
     (let alias_names = sort (map fst al)
      in case find (\<lambda>alias. alias \<in> canonical) alias_names of
           Some alias \<Rightarrow>
             Some (Inl (InvalidConfiguration
               (''model alias '' @ quoted alias @ '' collides with an enabled canonical model'')))
         | None \<Rightarrow> normalize_loop al canonical alias_names Map.empty)"

subsection \<open>Alias chains\<close>

text \<open>An alias table is well formed when it is finite and no name leads back to itself.\<close>

definition alias_ok :: "alias_map \<Rightarrow> bool" where
  "alias_ok m \<longleftrightarrow> finite (dom m) \<and> acyclic (Map.graph m)"

lemma graph_iff [simp]: "(a, b) \<in> Map.graph m \<longleftrightarrow> m a = Some b"
  by (simp add: Map.graph_def)

lemma alias_ok_wf: "alias_ok m \<Longrightarrow> wf ((Map.graph m)\<inverse>)"
  by (simp add: alias_ok_def finite_acyclic_wf_converse finite_graph_iff_finite_dom)

lemma alias_ok_empty [simp]: "alias_ok Map.empty"
  by (simp add: alias_ok_def acyclic_def)

lemma alias_rtrancl_cases:
  assumes "(a, c) \<in> (Map.graph m)\<^sup>*"
  obtains "c = a" | b where "m a = Some b" "(b, c) \<in> (Map.graph m)\<^sup>*"
  using assms by (cases rule: converse_rtranclE) auto

lemma alias_trancl_iff:
  "(a, c) \<in> (Map.graph m)\<^sup>+ \<longleftrightarrow> (\<exists>b. m a = Some b \<and> (b, c) \<in> (Map.graph m)\<^sup>*)"
  by (auto dest: tranclD intro: rtrancl_into_trancl2)

lemma alias_no_loop: "alias_ok m \<Longrightarrow> m a = Some b \<Longrightarrow> (b, a) \<notin> (Map.graph m)\<^sup>*"
  unfolding alias_ok_def acyclic_def by (metis alias_trancl_iff)

text \<open>The end of a chain: in a well-formed table it exists and is no alias.\<close>

lemma alias_target_ex:
  assumes "alias_ok m"
  shows "\<exists>y. alias_target m t = Some y \<and> m y = None \<and> (t, y) \<in> (Map.graph m)\<^sup>*"
  using alias_ok_wf [OF assms]
proof (induction t rule: wf_induct_rule)
  case (less t)
  show ?case
  proof (cases "m t")
    case None
    then show ?thesis by (subst alias_target.simps) simp
  next
    case (Some n)
    with less obtain y where "alias_target m n = Some y" "m y = None" "(n, y) \<in> (Map.graph m)\<^sup>*"
      by (metis converse_iff graph_iff)
    with Some show ?thesis
      by (subst alias_target.simps)
        (auto intro: converse_rtrancl_into_rtrancl)
  qed
qed

text \<open>The names of a chain that are aliases; their number bounds the hops.\<close>

definition chain_aliases :: "alias_map \<Rightarrow> string \<Rightarrow> string set" where
  "chain_aliases m x = {y \<in> dom m. (x, y) \<in> (Map.graph m)\<^sup>*}"

lemma chain_aliases_step:
  assumes "alias_ok m" "m x = Some z"
  shows "card (chain_aliases m z) < card (chain_aliases m x)"
proof (rule psubset_card_mono)
  show "finite (chain_aliases m x)"
    using assms(1) by (simp add: alias_ok_def chain_aliases_def)
  have "x \<in> chain_aliases m x" "x \<notin> chain_aliases m z"
    using assms alias_no_loop [OF assms] by (auto simp: chain_aliases_def)
  moreover have "chain_aliases m z \<subseteq> chain_aliases m x"
    using assms(2) by (auto simp: chain_aliases_def intro: converse_rtrancl_into_rtrancl)
  ultimately show "chain_aliases m z \<subset> chain_aliases m x" by blast
qed

lemma resolve_hops_target:
  assumes "alias_ok m" "card (chain_aliases m x) \<le> n"
  shows "alias_target m x = Some (resolve_hops n m x)"
  using assms(2)
proof (induction n arbitrary: x)
  case 0
  then have "chain_aliases m x = {}"
    using assms(1) by (simp add: chain_aliases_def alias_ok_def)
  then have "m x = None"
    by (auto simp: chain_aliases_def)
  then show ?case by (subst alias_target.simps) simp
next
  case (Suc n)
  show ?case
  proof (cases "m x")
    case (Some z)
    with chain_aliases_step [OF assms(1) Some] Suc show ?thesis
      by (subst alias_target.simps) simp
  qed (subst alias_target.simps, simp)
qed

subsection \<open>The walks decide reachability\<close>

lemma alias_cycle_walk_decides:
  assumes "finite (dom m)"
  shows "\<exists>b. alias_cycle_walk m V c = Some b
     \<and> (b \<longrightarrow> (\<exists>x. (c, x) \<in> (Map.graph m)\<^sup>+ \<and> (x \<in> V \<or> (x, x) \<in> (Map.graph m)\<^sup>+)))
     \<and> (\<not> b \<longrightarrow> (\<forall>x. (c, x) \<in> (Map.graph m)\<^sup>+ \<longrightarrow> x \<notin> V))"
proof (induction "card (ran m - V)" arbitrary: V c rule: less_induct)
  case less
  have fin: "finite (ran m)"
    using assms by (rule finite_ran)
  show ?case
  proof (cases "m c")
    case None
    then show ?thesis
      by (subst alias_cycle_walk.simps) (auto simp: alias_trancl_iff)
  next
    case (Some n)
    show ?thesis
    proof (cases "n \<in> V")
      case True
      with Some show ?thesis
        by (subst alias_cycle_walk.simps) (auto simp: alias_trancl_iff)
    next
      case False
      have "n \<in> ran m"
        using Some by (auto simp: ran_def)
      with False have "card (ran m - insert n V) < card (ran m - V)"
        using fin by (intro psubset_card_mono) auto
      from less [OF this, of n] obtain b where
        b: "alias_cycle_walk m (insert n V) n = Some b"
        "b \<Longrightarrow> \<exists>x. (n, x) \<in> (Map.graph m)\<^sup>+ \<and> (x \<in> insert n V \<or> (x, x) \<in> (Map.graph m)\<^sup>+)"
        "\<not> b \<Longrightarrow> \<forall>x. (n, x) \<in> (Map.graph m)\<^sup>+ \<longrightarrow> x \<notin> insert n V"
        by blast
      have walk: "alias_cycle_walk m V c = Some b"
        using b(1) Some False by (subst alias_cycle_walk.simps) simp
      have step: "(c, x) \<in> (Map.graph m)\<^sup>+ \<longleftrightarrow> x = n \<or> (n, x) \<in> (Map.graph m)\<^sup>+" for x
        using Some by (auto simp: alias_trancl_iff [of c] rtrancl_eq_or_trancl)
      show ?thesis
        using walk b(2,3) False unfolding step by (cases b) blast+
    qed
  qed
qed

lemma alias_path_walk_decides:
  assumes "finite (dom m)"
  shows "\<exists>r. alias_path_walk m V p c = Some r
     \<and> (r = None \<longleftrightarrow> (\<forall>x. (c, x) \<in> (Map.graph m)\<^sup>* \<longrightarrow> x \<notin> V \<and> (x, x) \<notin> (Map.graph m)\<^sup>+))"
proof (induction "card (dom m - V)" arbitrary: V c p rule: less_induct)
  case less
  show ?case
  proof (cases "c \<in> V")
    case True
    then show ?thesis by (subst alias_path_walk.simps) auto
  next
    case False
    show ?thesis
    proof (cases "m c")
      case None
      have "(c, x) \<in> (Map.graph m)\<^sup>* \<longleftrightarrow> x = c" for x
        using None by (auto elim: converse_rtranclE)
      with None False show ?thesis
        by (subst alias_path_walk.simps) (auto simp: alias_trancl_iff)
    next
      case (Some n)
      with False have "card (dom m - insert c V) < card (dom m - V)"
        using assms by (intro psubset_card_mono) auto
      from less [OF this, of "p @ [c]" n] obtain r where
        r: "alias_path_walk m (insert c V) (p @ [c]) n = Some r"
        "r = None \<longleftrightarrow> (\<forall>x. (n, x) \<in> (Map.graph m)\<^sup>* \<longrightarrow> x \<notin> insert c V \<and> (x, x) \<notin> (Map.graph m)\<^sup>+)"
        by blast
      have walk: "alias_path_walk m V p c = Some r"
        using r(1) Some False by (subst alias_path_walk.simps) simp
      have step: "(c, x) \<in> (Map.graph m)\<^sup>* \<longleftrightarrow> x = c \<or> (n, x) \<in> (Map.graph m)\<^sup>*" for x
        using Some by (auto elim: alias_rtrancl_cases intro: converse_rtrancl_into_rtrancl)
      have cyc: "(c, c) \<in> (Map.graph m)\<^sup>+ \<longleftrightarrow> (n, c) \<in> (Map.graph m)\<^sup>*"
        using Some by (simp add: alias_trancl_iff)
      have "r = None \<longleftrightarrow> (n, c) \<notin> (Map.graph m)\<^sup>*
          \<and> (\<forall>x. (n, x) \<in> (Map.graph m)\<^sup>* \<longrightarrow> x \<notin> V \<and> (x, x) \<notin> (Map.graph m)\<^sup>+)"
        unfolding r(2) by (metis insert_iff)
      then show ?thesis
        using walk False cyc unfolding step by (intro exI [of _ r]) metis
    qed
  qed
qed

lemma alias_ok_update:
  assumes "alias_ok m" "(name, alias) \<notin> (Map.graph m)\<^sup>*"
  shows "alias_ok (m(alias \<mapsto> name))"
proof -
  have "Map.graph (m(alias \<mapsto> name)) \<subseteq> insert (alias, name) (Map.graph m)"
    by (auto split: if_splits)
  moreover have "acyclic (insert (alias, name) (Map.graph m))"
    using assms by (simp add: alias_ok_def)
  ultimately have "acyclic (Map.graph (m(alias \<mapsto> name)))"
    by (rule acyclic_subset [rotated])
  then show ?thesis
    using assms(1) unfolding alias_ok_def by simp
qed

lemma add_model_alias_cases:
  assumes "alias_ok m"
  shows "add_model_alias alias name m =
     Some (if (name, alias) \<in> (Map.graph m)\<^sup>*
           then Inl (AliasCycle (alias_cycle_message alias name)) else Inr (m(alias \<mapsto> name)))"
proof (cases "alias = name")
  case False
  have "finite (dom m)" and ac: "acyclic (Map.graph m)"
    using assms by (auto simp: alias_ok_def)
  from alias_cycle_walk_decides [OF this(1), of "{alias}" name] obtain b where
    b: "alias_cycle_walk m {alias} name = Some b"
    "b \<Longrightarrow> \<exists>x. (name, x) \<in> (Map.graph m)\<^sup>+ \<and> (x \<in> {alias} \<or> (x, x) \<in> (Map.graph m)\<^sup>+)"
    "\<not> b \<Longrightarrow> \<forall>x. (name, x) \<in> (Map.graph m)\<^sup>+ \<longrightarrow> x \<notin> {alias}"
    by blast
  then have "b \<longleftrightarrow> (name, alias) \<in> (Map.graph m)\<^sup>+"
    using ac by (auto simp: acyclic_def)
  with b(1) False show ?thesis
    by (simp add: add_model_alias_def rtrancl_eq_or_trancl)
qed (simp add: add_model_alias_def)

subsection \<open>Properties of aliases\<close>

text \<open>
  C33.  On a well-formed alias table, adding an alias always ends.  It is refused exactly
  when the new target already leads to the alias (or is the alias), and otherwise the table
  with the new entry is well formed again; so a table built from nothing never has a cycle.
\<close>

theorem add_model_alias_exact:
  assumes "alias_ok m"
  shows "case add_model_alias alias name m of
           None \<Rightarrow> False
         | Some (Inl e) \<Rightarrow> (name, alias) \<in> (Map.graph m)\<^sup>* \<and> (\<exists>msg. e = AliasCycle msg)
         | Some (Inr m') \<Rightarrow> (name, alias) \<notin> (Map.graph m)\<^sup>* \<and> m' = m(alias \<mapsto> name) \<and> alias_ok m'"
  using assms alias_ok_update [OF assms, of name "alias"] by (simp add: add_model_alias_cases)

theorem add_model_alias_exact_witness:
  "add_model_alias ''gpt'' ''gpt-4o'' Map.empty = Some (Inr [''gpt'' \<mapsto> ''gpt-4o''])
   \<and> (\<exists>msg. add_model_alias ''gpt-4o'' ''gpt'' [''gpt'' \<mapsto> ''gpt-4o''] = Some (Inl (AliasCycle msg)))"
proof -
  have "alias_ok [''gpt'' \<mapsto> ''gpt-4o'']"
    by (rule alias_ok_update) (auto elim: converse_rtranclE)
  moreover have "(''gpt'', ''gpt-4o'') \<in> (Map.graph [''gpt'' \<mapsto> ''gpt-4o''])\<^sup>*"
    by (rule r_into_rtrancl) simp
  ultimately have "\<exists>msg. add_model_alias ''gpt-4o'' ''gpt'' [''gpt'' \<mapsto> ''gpt-4o'']
      = Some (Inl (AliasCycle msg))"
    using add_model_alias_exact [of "[''gpt'' \<mapsto> ''gpt-4o'']" "''gpt''" "''gpt-4o''"]
    by (auto split: option.splits sum.splits)
  moreover have "(''gpt-4o'', ''gpt'') \<notin> (Map.graph Map.empty)\<^sup>*"
    by (auto elim: converse_rtranclE)
  then have "add_model_alias ''gpt'' ''gpt-4o'' Map.empty = Some (Inr [''gpt'' \<mapsto> ''gpt-4o''])"
    using add_model_alias_exact [of Map.empty "''gpt-4o''" "''gpt''"]
    by (auto split: option.splits sum.splits)
  ultimately show ?thesis by blast
qed

text \<open>
  In a well-formed table, a name whose chain has at most sixteen aliases resolves to
  the end of the chain, which is no alias; resolving again changes nothing.
\<close>

theorem resolve_model_name_canonical:
  assumes "alias_ok m" and "card (chain_aliases m name) \<le> MAX_ALIAS_HOPS"
  shows "m (resolve_model_name m name) = None
         \<and> (name, resolve_model_name m name) \<in> (Map.graph m)\<^sup>*
         \<and> resolve_model_name m (resolve_model_name m name) = resolve_model_name m name"
proof -
  have "alias_target m name = Some (resolve_model_name m name)"
    using resolve_hops_target [OF assms] by (simp add: resolve_model_name_def)
  moreover obtain y where "alias_target m name = Some y" "m y = None" "(name, y) \<in> (Map.graph m)\<^sup>*"
    using alias_target_ex [OF assms(1)] by blast
  moreover have "resolve_model_name m x = x" if "m x = None" for x
    using that by (simp add: resolve_model_name_def MAX_ALIAS_HOPS_def eval_nat_numeral)
  ultimately show ?thesis by simp
qed

theorem resolve_model_name_canonical_witness:
  "[''gpt'' \<mapsto> ''gpt-4o''] (resolve_model_name [''gpt'' \<mapsto> ''gpt-4o''] ''gpt'') = None"
proof -
  have ok: "alias_ok [''gpt'' \<mapsto> ''gpt-4o'']"
    by (rule alias_ok_update) (auto elim: converse_rtranclE)
  have "card (chain_aliases [''gpt'' \<mapsto> ''gpt-4o''] ''gpt'') \<le> card {''gpt''}"
    by (rule card_mono) (auto simp: chain_aliases_def)
  then have "card (chain_aliases [''gpt'' \<mapsto> ''gpt-4o''] ''gpt'') \<le> MAX_ALIAS_HOPS"
    by (simp add: MAX_ALIAS_HOPS_def)
  from resolve_model_name_canonical [OF ok this] show ?thesis by simp
qed

subsection \<open>Validation and normalisation of configured maps\<close>

definition alias_entry_ok :: "string \<times> string \<Rightarrow> bool" where
  "alias_entry_ok e \<longleftrightarrow>
     (case e of (a, t) \<Rightarrow>
        trim_str a \<noteq> [] \<and> a = trim_str a \<and> trim_str t \<noteq> [] \<and> trim_str a \<noteq> trim_str t)"

lemma validate_alias_names_ok:
  "validate_alias_names al names = Inr () \<longleftrightarrow>
     (\<forall>a \<in> set names. alias_entry_ok (a, the (map_of al a)))"
  by (induction al names rule: validate_alias_names.induct)
    (auto simp: alias_entry_ok_def Let_def split: if_splits)

lemma validate_alias_chains_ok:
  "\<exists>r. validate_alias_chains al names = Some r
     \<and> (r = Inr () \<longleftrightarrow> (\<forall>a \<in> set names. \<forall>x. (a, x) \<in> (Map.graph (map_of al))\<^sup>* \<longrightarrow>
           (x, x) \<notin> (Map.graph (map_of al))\<^sup>+))"
proof (induction names)
  case (Cons a names)
  obtain r where r: "alias_path_walk (map_of al) {} [] a = Some r"
    "r = None \<longleftrightarrow> (\<forall>x. (a, x) \<in> (Map.graph (map_of al))\<^sup>* \<longrightarrow> (x, x) \<notin> (Map.graph (map_of al))\<^sup>+)"
    using alias_path_walk_decides [OF finite_dom_map_of, of al "{}" "[]" a] by auto
  show ?case
  proof (cases r)
    case None
    with Cons r show ?thesis by auto
  next
    case (Some p)
    with r show ?thesis by (auto simp: Some)
  qed
qed simp

lemma acyclic_from_aliases:
  "acyclic (Map.graph m) \<longleftrightarrow>
     (\<forall>a \<in> dom m. \<forall>x. (a, x) \<in> (Map.graph m)\<^sup>* \<longrightarrow> (x, x) \<notin> (Map.graph m)\<^sup>+)"
proof
  assume r: "\<forall>a \<in> dom m. \<forall>x. (a, x) \<in> (Map.graph m)\<^sup>* \<longrightarrow> (x, x) \<notin> (Map.graph m)\<^sup>+"
  have "(x, x) \<notin> (Map.graph m)\<^sup>+" for x
    using r by (cases "x \<in> dom m") (auto simp: alias_trancl_iff)
  then show "acyclic (Map.graph m)" by (simp add: acyclic_def)
qed (simp add: acyclic_def)

lemma validate_model_alias_map_iff:
  assumes "distinct (map fst al)"
  shows "\<exists>r. validate_model_alias_map al = Some r
           \<and> (r = Inr () \<longleftrightarrow>
              (\<forall>e \<in> set al. alias_entry_ok e) \<and> acyclic (Map.graph (map_of al)))"
proof -
  have entries: "(\<forall>a \<in> set (map fst al). alias_entry_ok (a, the (map_of al a)))
      \<longleftrightarrow> (\<forall>e \<in> set al. alias_entry_ok e)"
    using assms by (auto simp: map_of_is_SomeI)
  have names: "set (map fst al) = dom (map_of al)"
    by (simp add: dom_map_of_conv_image_fst)
  obtain r where r: "validate_alias_chains al (sort (map fst al)) = Some r"
    "r = Inr () \<longleftrightarrow> acyclic (Map.graph (map_of al))"
    using validate_alias_chains_ok [of al "sort (map fst al)"] acyclic_from_aliases [of "map_of al"]
    unfolding set_sort names by blast
  show ?thesis
  proof (cases "validate_alias_names al (sort (map fst al))")
    case (Inl e)
    then have "\<not> (\<forall>e \<in> set al. alias_entry_ok e)"
      using validate_alias_names_ok [of al "sort (map fst al)"] entries by auto
    with Inl show ?thesis by (auto simp: validate_model_alias_map_def)
  next
    case (Inr u)
    then have "\<forall>e \<in> set al. alias_entry_ok e"
      using validate_alias_names_ok [of al "sort (map fst al)"] entries by auto
    with Inr r show ?thesis by (auto simp: validate_model_alias_map_def)
  qed
qed

text \<open>
  C35.  The validation of a configured alias map always ends and is exact: it accepts the
  map if and only if every alias is a non-empty name without surrounding white space, every
  target is not blank and, trimmed, different from its alias, and the aliases form no cycle.
\<close>

theorem validate_model_alias_map_exact:
  assumes "distinct (map fst al)"
  shows "\<exists>r. validate_model_alias_map al = Some r
           \<and> (r = Inr () \<longleftrightarrow>
              (\<forall>e \<in> set al. alias_entry_ok e) \<and> acyclic (Map.graph (map_of al)))"
  using validate_model_alias_map_iff [OF assms] .

lemma alias_example_ok:
  "alias_entry_ok (''fast'', ''gpt-4o'')" "alias_entry_ok (''best'', ''fast'')"
  by (simp_all add: alias_entry_ok_def trim_str_def is_whitespace_def)

lemma alias_example_acyclic:
  "acyclic (Map.graph (map_of [(''best'', ''fast''), (''fast'', ''gpt-4o'')]))"
proof -
  have "alias_ok [''fast'' \<mapsto> ''gpt-4o'']"
    by (rule alias_ok_update) (auto elim: converse_rtranclE)
  then have "alias_ok ([''fast'' \<mapsto> ''gpt-4o''](''best'' \<mapsto> ''fast''))"
    by (rule alias_ok_update) (auto elim!: converse_rtranclE)
  then show ?thesis by (simp add: alias_ok_def)
qed

theorem validate_model_alias_map_exact_witness:
  "validate_model_alias_map [(''best'', ''fast''), (''fast'', ''gpt-4o'')] = Some (Inr ())"
  using validate_model_alias_map_exact [of "[(''best'', ''fast''), (''fast'', ''gpt-4o'')]"]
    alias_example_acyclic alias_example_ok by auto

lemma normalize_loop_result:
  assumes "alias_ok (map_of al)"
  shows "\<exists>r. normalize_loop al canonical names n = Some r
     \<and> (case r of
          Inl e \<Rightarrow> \<exists>a \<in> set names. the (alias_target (map_of al) (the (map_of al a))) \<notin> canonical
        | Inr n' \<Rightarrow> (\<forall>a \<in> set names. the (alias_target (map_of al) (the (map_of al a))) \<in> canonical)
            \<and> n' = n ++ (\<lambda>a. if a \<in> set names then alias_target (map_of al) (the (map_of al a))
                             else None))"
proof (induction names arbitrary: n)
  case Nil
  then show ?case by (simp add: map_add_def)
next
  case (Cons a names)
  obtain t where t: "alias_target (map_of al) (the (map_of al a)) = Some t"
    using alias_target_ex [OF assms] by blast
  show ?case
  proof (cases "t \<in> canonical")
    case True
    obtain r where r: "normalize_loop al canonical names (n(a \<mapsto> t)) = Some r"
      "case r of
          Inl e \<Rightarrow> \<exists>a \<in> set names. the (alias_target (map_of al) (the (map_of al a))) \<notin> canonical
        | Inr n' \<Rightarrow> (\<forall>a \<in> set names. the (alias_target (map_of al) (the (map_of al a))) \<in> canonical)
            \<and> n' = n(a \<mapsto> t) ++ (\<lambda>a. if a \<in> set names
                then alias_target (map_of al) (the (map_of al a)) else None)"
      using Cons by blast
    moreover have "alias_target (map_of al) x \<noteq> None" for x
      using alias_target_ex [OF assms, of x] by auto
    ultimately show ?thesis
      using t True by (cases r) (auto simp: fun_eq_iff map_add_def split: option.splits)
  next
    case False
    with t show ?thesis by auto
  qed
qed

text \<open>
  C34.  Normalisation ends on every validated map, although its loop has no bound.  It
  succeeds exactly when no alias is also a canonical model and every chain ends in a
  canonical model; the normalised table then has the same aliases, each bound directly to
  the end of its chain, so that it resolves in a single hop to a canonical model.
\<close>

theorem normalize_validated_aliases:
  assumes "distinct (map fst al)" and "validate_model_alias_map al = Some (Inr ())"
  shows "\<exists>r. normalize_model_aliases al canonical = Some r
     \<and> (case r of
          Inl e \<Rightarrow> \<exists>a \<in> dom (map_of al). a \<in> canonical
                     \<or> the (alias_target (map_of al) a) \<notin> canonical
        | Inr n \<Rightarrow> dom n = dom (map_of al)
            \<and> (\<forall>a \<in> dom n. a \<notin> canonical \<and> n a = alias_target (map_of al) a
                 \<and> n a = Some (resolve_model_name n a) \<and> resolve_model_name n a \<in> canonical))"
proof -
  let ?m = "map_of al" and ?names = "sort (map fst al)"
  have ok: "alias_ok ?m"
    using validate_model_alias_map_iff [OF assms(1)] assms(2) finite_dom_map_of
    by (auto simp: alias_ok_def)
  have names: "set ?names = dom ?m"
    by (simp add: dom_map_of_conv_image_fst)
  have hop: "alias_target ?m (the (?m a)) = alias_target ?m a" if "a \<in> dom ?m" for a
    using that by (subst (2) alias_target.simps) auto
  obtain r where r: "normalize_loop al canonical ?names Map.empty = Some r" and
    res: "case r of
          Inl e \<Rightarrow> \<exists>a \<in> dom ?m. the (alias_target ?m (the (?m a))) \<notin> canonical
        | Inr n \<Rightarrow> (\<forall>a \<in> dom ?m. the (alias_target ?m (the (?m a))) \<in> canonical)
            \<and> n = (\<lambda>a. if a \<in> dom ?m then alias_target ?m (the (?m a)) else None)"
    using normalize_loop_result [OF ok, of canonical ?names Map.empty]
    unfolding names empty_map_add by blast
  show ?thesis
  proof (cases "find (\<lambda>a. a \<in> canonical) ?names")
    case (Some a)
    then have "a \<in> set ?names" "a \<in> canonical"
      unfolding find_Some_iff by (auto intro!: nth_mem simp del: set_sort)
    then have "a \<in> dom ?m" "a \<in> canonical"
      unfolding names .
    with Some show ?thesis by (auto simp: normalize_model_aliases_def)
  next
    case None
    then have out: "a \<notin> canonical" if "a \<in> dom ?m" for a
      using that unfolding find_None_iff names by blast
    have eq: "normalize_model_aliases al canonical = Some r"
      using None r by (simp add: normalize_model_aliases_def)
    show ?thesis
    proof (cases r)
      case (Inl e)
      with eq res hop show ?thesis by auto
    next
      case (Inr n)
      have n: "n = (\<lambda>a. if a \<in> dom ?m then alias_target ?m a else None)"
        using res Inr hop by auto
      have "n a = Some (resolve_model_name n a) \<and> resolve_model_name n a \<in> canonical"
        if a: "a \<in> dom ?m" for a
      proof -
        obtain t where t: "alias_target ?m a = Some t"
          using alias_target_ex [OF ok] by blast
        have "the (alias_target ?m (the (?m a))) \<in> canonical"
          using res Inr a by simp
        with t hop [OF a] have "t \<in> canonical" by simp
        with out n have "n t = None" by auto
        moreover have "n a = Some t" using n t a by simp
        ultimately have "resolve_model_name n a = t"
          by (simp add: resolve_model_name_def MAX_ALIAS_HOPS_def eval_nat_numeral)
        with \<open>n a = Some t\<close> \<open>t \<in> canonical\<close> show ?thesis by simp
      qed
      moreover have "\<exists>y. alias_target ?m x = Some y" for x
        using alias_target_ex [OF ok] by blast
      then have "dom n = dom ?m"
        unfolding n by (auto split: if_splits)
      ultimately show ?thesis
        using eq Inr n out by auto
    qed
  qed
qed

theorem normalize_validated_aliases_witness:
  "\<exists>r. normalize_model_aliases [(''best'', ''fast''), (''fast'', ''gpt-4o'')] {''gpt-4o''} = Some r"
proof -
  have "validate_model_alias_map [(''best'', ''fast''), (''fast'', ''gpt-4o'')] = Some (Inr ())"
    using validate_model_alias_map_iff [of "[(''best'', ''fast''), (''fast'', ''gpt-4o'')]"]
      alias_example_acyclic alias_example_ok by auto
  with normalize_validated_aliases [of "[(''best'', ''fast''), (''fast'', ''gpt-4o'')]"]
  show ?thesis by auto
qed

end
