(* ===== verification/Snapshot.thy ===== *)
theory Snapshot
  imports Deployment Aliases
begin

section \<open>Routing snapshots\<close>

text \<open>
  Models \<open>RoutingSnapshot\<close> and its writers in \<^verbatim>\<open>src/core/router/unified.rs\<close> and
  \<^verbatim>\<open>src/core/router/provider_identity.rs\<close>.

  The provider's own name (\<open>Provider::name\<close>) is the argument \<open>pname\<close>, and the digest of a
  credential has the type \<open>'c\<close>.  A panic (a generation counter that is exhausted) is
  \<open>None\<close>.  A writer holds the write lock, builds the next snapshot and installs it with one
  store, so it is one transition; \<open>gen\<close> is the process-wide generation counter.
\<close>

record ('p, 'c) routing_snapshot =
  sn_generation :: u64
  deployments :: "string \<rightharpoonup> 'p deployment"
  model_index :: "string \<rightharpoonup> string list"
  model_order :: "string list"
  model_aliases :: alias_map
  provider_names :: "string \<rightharpoonup> string"
  legacy_selector_metadata :: "string \<rightharpoonup> 'c"

definition next_routing_generation :: "u64 \<Rightarrow> u64 exec" where
  "next_routing_generation gen = checked_add gen 1"

definition empty_snapshot :: "u64 \<Rightarrow> ('p, 'c) routing_snapshot" where
  "empty_snapshot g =
     \<lparr>sn_generation = g, deployments = Map.empty, model_index = Map.empty, model_order = [],
      model_aliases = Map.empty, provider_names = Map.empty,
      legacy_selector_metadata = Map.empty\<rparr>"

subsection \<open>Writers\<close>

definition remove_from_model_index ::
  "string \<Rightarrow> string \<Rightarrow> ('p, 'c) routing_snapshot \<Rightarrow> ('p, 'c) routing_snapshot" where
  "remove_from_model_index name i sn =
     (case model_index sn name of
        None \<Rightarrow> sn
      | Some entry \<Rightarrow>
          (let entry = filter (\<lambda>did. did \<noteq> i) entry
           in if entry = []
              then sn\<lparr>model_index := (model_index sn)(name := None),
                      model_order := remove1 name (model_order sn)\<rparr>
              else sn\<lparr>model_index := (model_index sn)(name \<mapsto> entry)\<rparr>))"

definition state_for_insertion ::
  "('p, 'c) routing_snapshot \<Rightarrow> 'p deployment \<Rightarrow> deployment_state exec" where
  "state_for_insertion sn d =
     (case deployments sn (dep_id d) of
        Some existing \<Rightarrow>
          for_snapshot_insertion_with_provider (provider_instance_identity (state d)) (state existing)
      | None \<Rightarrow> for_snapshot_insertion (state d))"

definition retained_provider_name ::
  "('p, 'c) routing_snapshot \<Rightarrow> string \<Rightarrow> string \<Rightarrow> string" where
  "retained_provider_name sn i fallback =
     (case provider_names sn i of Some n \<Rightarrow> n | None \<Rightarrow> fallback)"

text \<open>The last steps of an insertion: the group is created on demand and the id appended once.\<close>

definition index_insert ::
  "string \<Rightarrow> string \<Rightarrow> ('p, 'c) routing_snapshot \<Rightarrow> ('p, 'c) routing_snapshot" where
  "index_insert name i sn =
     (let sn = (if model_index sn name = None
                then sn\<lparr>model_order := model_order sn @ [name]\<rparr> else sn);
          entry = (case model_index sn name of Some e \<Rightarrow> e | None \<Rightarrow> [])
      in sn\<lparr>model_index := (model_index sn)
              (name \<mapsto> (if i \<in> set entry then entry else entry @ [i]))\<rparr>)"

definition insert_deployment ::
  "('p \<Rightarrow> string) \<Rightarrow> 'p deployment \<Rightarrow> ('p, 'c) routing_snapshot \<Rightarrow> ('p, 'c) routing_snapshot exec"
  where
  "insert_deployment pname d sn =
     do {
       let provider_name = retained_provider_name sn (dep_id d) (pname (provider d));
       s \<leftarrow> state_for_insertion sn d;
       let old = deployments sn (dep_id d);
       let sn = sn\<lparr>deployments := (deployments sn)(dep_id d \<mapsto> d\<lparr>state := s\<rparr>)\<rparr>;
       let sn = (case old of
                   Some od \<Rightarrow> if model_name od \<noteq> model_name d
                              then remove_from_model_index (model_name od) (dep_id d) sn else sn
                 | None \<Rightarrow> sn);
       let sn = sn\<lparr>provider_names := (provider_names sn)(dep_id d \<mapsto> provider_name)\<rparr>;
       Some (index_insert (model_name d) (dep_id d) sn)
     }"

definition insert_deployment_with_legacy_metadata ::
  "('p \<Rightarrow> string) \<Rightarrow> 'p deployment \<Rightarrow> 'c \<Rightarrow> ('p, 'c) routing_snapshot
     \<Rightarrow> ('p, 'c) routing_snapshot exec" where
  "insert_deployment_with_legacy_metadata pname d metadata sn =
     do {
       sn \<leftarrow> insert_deployment pname d sn;
       Some (sn\<lparr>legacy_selector_metadata := (legacy_selector_metadata sn)(dep_id d \<mapsto> metadata)\<rparr>)
     }"

definition insert_gateway_deployment ::
  "('p \<Rightarrow> string) \<Rightarrow> 'p deployment \<Rightarrow> 'c option \<Rightarrow> string \<Rightarrow> ('p, 'c) routing_snapshot
     \<Rightarrow> ('p, 'c) routing_snapshot exec" where
  "insert_gateway_deployment pname d metadata provider_name sn =
     do {
       sn \<leftarrow> (case metadata of
                Some m \<Rightarrow> insert_deployment_with_legacy_metadata pname d m sn
              | None \<Rightarrow> insert_deployment pname d sn);
       Some (sn\<lparr>provider_names := (provider_names sn)(dep_id d \<mapsto> provider_name)\<rparr>)
     }"

definition remove_deployment ::
  "string \<Rightarrow> ('p, 'c) routing_snapshot \<Rightarrow> 'p deployment option \<times> ('p, 'c) routing_snapshot" where
  "remove_deployment i sn =
     (let removed = deployments sn i;
          sn = sn\<lparr>deployments := (deployments sn)(i := None),
                  provider_names := (provider_names sn)(i := None),
                  legacy_selector_metadata := (legacy_selector_metadata sn)(i := None)\<rparr>
      in (removed,
          case removed of
            Some d \<Rightarrow> remove_from_model_index (model_name d) i sn
          | None \<Rightarrow> sn))"

text \<open>
  The bulk replacement.  The handles of the previous snapshot share their probe lifecycle
  with the new ones, so every generation drawn for a new handle is also written back to the
  previous snapshot's state (\<open>sync_lifecycle\<close>), where a duplicate id meets it again.
\<close>

definition sync_lifecycle ::
  "string \<Rightarrow> deployment_state \<Rightarrow> (string \<rightharpoonup> 'p deployment) \<Rightarrow> (string \<rightharpoonup> 'p deployment)" where
  "sync_lifecycle i s previous =
     (case previous i of
        None \<Rightarrow> previous
      | Some d \<Rightarrow>
          previous(i \<mapsto> d\<lparr>state := (state d)\<lparr>probe_lifecycle := probe_lifecycle s\<rparr>\<rparr>))"

fun insert_preserving ::
  "('p \<Rightarrow> string) \<Rightarrow> 'p deployment list \<Rightarrow> (string \<rightharpoonup> 'p deployment)
     \<Rightarrow> ('p, 'c) routing_snapshot \<Rightarrow> ('p, 'c) routing_snapshot exec" where
  "insert_preserving pname [] previous sn = Some sn"
| "insert_preserving pname (d # ds) previous sn =
     do {
       (d, sn) \<leftarrow>
         (case previous (dep_id d) of
            None \<Rightarrow> Some (d, sn)
          | Some old \<Rightarrow>
              do {
                s \<leftarrow> for_snapshot_insertion_with_provider
                       (provider_instance_identity (state d)) (state old);
                Some (d\<lparr>state := s\<rparr>,
                      sn\<lparr>deployments := sync_lifecycle (dep_id d) s (deployments sn)\<rparr>)
              });
       sn \<leftarrow> insert_deployment pname d sn;
       insert_preserving pname ds
         (case deployments sn (dep_id d) of
            Some d' \<Rightarrow> sync_lifecycle (dep_id d) (state d') previous
          | None \<Rightarrow> previous) sn
     }"

fun first_occurrences :: "string set \<Rightarrow> string list \<Rightarrow> string list" where
  "first_occurrences seen [] = []"
| "first_occurrences seen (x # xs) =
     (if x \<in> seen then first_occurrences seen xs
      else x # first_occurrences (insert x seen) xs)"

definition from_deployments_preserving_state ::
  "('p \<Rightarrow> string) \<Rightarrow> 'p deployment list \<Rightarrow> ('p, 'c) routing_snapshot
     \<Rightarrow> ('p, 'c) routing_snapshot exec" where
  "from_deployments_preserving_state pname ds previous =
     do {
       let input_model_order = first_occurrences {} (map model_name ds);
       sn \<leftarrow> insert_preserving pname ds (deployments previous)
              \<lparr>sn_generation = sn_generation previous, deployments = Map.empty,
               model_index = Map.empty, model_order = [],
               model_aliases = model_aliases previous, provider_names = Map.empty,
               legacy_selector_metadata = Map.empty\<rparr>;
       Some (sn\<lparr>model_order := filter (\<lambda>name. model_index sn name \<noteq> None) input_model_order\<rparr>)
     }"

definition restore_provider_names ::
  "(string \<rightharpoonup> string) \<Rightarrow> ('p, 'c) routing_snapshot \<Rightarrow> ('p, 'c) routing_snapshot" where
  "restore_provider_names previous sn =
     sn\<lparr>provider_names := provider_names sn
          ++ (\<lambda>i. if deployments sn i \<noteq> None then previous i else None)\<rparr>"

subsection \<open>The router's entry points\<close>

definition update_routing_snapshot ::
  "(('p, 'c) routing_snapshot \<Rightarrow> ('p, 'c) routing_snapshot exec) \<Rightarrow> u64
     \<Rightarrow> ('p, 'c) routing_snapshot \<Rightarrow> (u64 \<times> ('p, 'c) routing_snapshot) exec" where
  "update_routing_snapshot update gen sn =
     do {
       sn \<leftarrow> update sn;
       g \<leftarrow> next_routing_generation gen;
       Some (g, sn\<lparr>sn_generation := g\<rparr>)
     }"

definition add_deployment ::
  "('p \<Rightarrow> string) \<Rightarrow> 'p deployment \<Rightarrow> u64 \<Rightarrow> ('p, 'c) routing_snapshot
     \<Rightarrow> (u64 \<times> ('p, 'c) routing_snapshot) exec" where
  "add_deployment pname d =
     update_routing_snapshot
       (\<lambda>sn. insert_deployment pname d
         (sn\<lparr>legacy_selector_metadata := (legacy_selector_metadata sn)(dep_id d := None)\<rparr>))"

definition router_remove_deployment ::
  "string \<Rightarrow> u64 \<Rightarrow> ('p, 'c) routing_snapshot \<Rightarrow> (u64 \<times> ('p, 'c) routing_snapshot) exec" where
  "router_remove_deployment i = update_routing_snapshot (\<lambda>sn. Some (snd (remove_deployment i sn)))"

definition set_model_list ::
  "('p \<Rightarrow> string) \<Rightarrow> 'p deployment list \<Rightarrow> u64 \<Rightarrow> ('p, 'c) routing_snapshot
     \<Rightarrow> (u64 \<times> ('p, 'c) routing_snapshot) exec" where
  "set_model_list pname ds =
     update_routing_snapshot
       (\<lambda>sn. do {
          sn' \<leftarrow> from_deployments_preserving_state pname ds sn;
          Some (restore_provider_names (provider_names sn) sn')
        })"

text \<open>A refused alias publishes nothing.\<close>

definition router_add_model_alias ::
  "string \<Rightarrow> string \<Rightarrow> u64 \<Rightarrow> ('p, 'c) routing_snapshot
     \<Rightarrow> (router_error + (u64 \<times> ('p, 'c) routing_snapshot)) exec" where
  "router_add_model_alias alias name gen sn =
     (case add_model_alias alias name (model_aliases sn) of
        None \<Rightarrow> None
      | Some (Inl e) \<Rightarrow> Some (Inl e)
      | Some (Inr m) \<Rightarrow>
          map_option Inr (update_routing_snapshot (\<lambda>sn. Some (sn\<lparr>model_aliases := m\<rparr>)) gen sn))"

subsection \<open>Readers\<close>

definition get_deployments_for_model :: "('p, 'c) routing_snapshot \<Rightarrow> string \<Rightarrow> string list" where
  "get_deployments_for_model sn name =
     (case model_index sn (resolve_model_name (model_aliases sn) name) of
        Some ids \<Rightarrow> ids
      | None \<Rightarrow> [])"

definition list_models_in_insertion_order :: "('p, 'c) routing_snapshot \<Rightarrow> string list" where
  "list_models_in_insertion_order = model_order"

datatype legacy_error = LegacyModelNotFound string | LegacyAmbiguous

fun legacy_scan ::
  "('p, 'c) routing_snapshot \<Rightarrow> 'c \<Rightarrow> string list \<Rightarrow> nat \<times> string option \<Rightarrow> nat \<times> string option" where
  "legacy_scan sn digest [] acc = acc"
| "legacy_scan sn digest (i # ids) (n, matched) =
     (case legacy_selector_metadata sn i of
        None \<Rightarrow> legacy_scan sn digest ids (n, matched)
      | Some metadata \<Rightarrow>
          if metadata = digest
          then legacy_scan sn digest ids
                 (n + 1, case matched of Some m \<Rightarrow> Some m | None \<Rightarrow> Some i)
          else legacy_scan sn digest ids (n, matched))"

definition resolve_legacy_credential_with ::
  "('p, 'c) routing_snapshot \<Rightarrow> string \<Rightarrow> 'c \<Rightarrow> legacy_error + string" where
  "resolve_legacy_credential_with sn name digest =
     (let resolved = resolve_model_name (model_aliases sn) name;
          candidates = (case model_index sn resolved of Some ids \<Rightarrow> ids | None \<Rightarrow> [])
      in case legacy_scan sn digest candidates (0, None) of
           (n, matched) \<Rightarrow>
             if n = 1 \<and> matched \<noteq> None then Inr (the matched)
             else if n = 0 then Inl (LegacyModelNotFound resolved)
             else Inl LegacyAmbiguous)"

subsection \<open>The index is consistent\<close>

text \<open>
  \<open>groups\<close> says which model group a deployment belongs to; the index and the order of the
  groups are consistent with it when every group lists exactly its members, once each.
\<close>

definition index_ok ::
  "(string \<rightharpoonup> string) \<Rightarrow> (string \<rightharpoonup> string list) \<Rightarrow> string list \<Rightarrow> bool" where
  "index_ok groups idx order \<longleftrightarrow>
     (\<forall>name. case idx name of
        Some ids \<Rightarrow> ids \<noteq> [] \<and> distinct ids \<and> set ids = {i. groups i = Some name}
      | None \<Rightarrow> {i. groups i = Some name} = {})
     \<and> distinct order \<and> set order = dom idx"

definition group_of :: "('p, 'c) routing_snapshot \<Rightarrow> string \<rightharpoonup> string" where
  "group_of sn i = map_option model_name (deployments sn i)"

definition snapshot_ok :: "('p, 'c) routing_snapshot \<Rightarrow> bool" where
  "snapshot_ok sn \<longleftrightarrow>
     index_ok (group_of sn) (model_index sn) (model_order sn)
     \<and> (\<forall>i d. deployments sn i = Some d \<longrightarrow> dep_id d = i)
     \<and> dom (provider_names sn) = dom (deployments sn)
     \<and> dom (legacy_selector_metadata sn) \<subseteq> dom (deployments sn)
     \<and> alias_ok (model_aliases sn)"

lemma index_okD:
  assumes "index_ok g idx order"
  shows "idx name = Some ids \<Longrightarrow> ids \<noteq> [] \<and> distinct ids \<and> set ids = {i. g i = Some name}"
    and "idx name = None \<Longrightarrow> {i. g i = Some name} = {}"
    and "distinct order" and "set order = dom idx"
proof -
  have all: "case idx name of
        Some ids \<Rightarrow> ids \<noteq> [] \<and> distinct ids \<and> set ids = {i. g i = Some name}
      | None \<Rightarrow> {i. g i = Some name} = {}"
    using assms unfolding index_ok_def by blast
  then show "idx name = Some ids \<Longrightarrow> ids \<noteq> [] \<and> distinct ids \<and> set ids = {i. g i = Some name}"
    and "idx name = None \<Longrightarrow> {i. g i = Some name} = {}"
    by simp_all
  show "distinct order" "set order = dom idx"
    using assms unfolding index_ok_def by blast+
qed

lemma index_okI:
  assumes "\<And>name ids. idx name = Some ids \<Longrightarrow>
      ids \<noteq> [] \<and> distinct ids \<and> set ids = {i. g i = Some name}"
    and "\<And>name i. idx name = None \<Longrightarrow> g i \<noteq> Some name"
    and "distinct order" "set order = dom idx"
  shows "index_ok g idx order"
  unfolding index_ok_def using assms by (auto split: option.splits)

lemma remove_from_model_index_frame [simp]:
  "deployments (remove_from_model_index name i sn) = deployments sn"
  "provider_names (remove_from_model_index name i sn) = provider_names sn"
  "legacy_selector_metadata (remove_from_model_index name i sn) = legacy_selector_metadata sn"
  "model_aliases (remove_from_model_index name i sn) = model_aliases sn"
  "sn_generation (remove_from_model_index name i sn) = sn_generation sn"
  by (simp_all add: remove_from_model_index_def Let_def split: option.split)

lemma index_insert_frame [simp]:
  "deployments (index_insert name i sn) = deployments sn"
  "provider_names (index_insert name i sn) = provider_names sn"
  "legacy_selector_metadata (index_insert name i sn) = legacy_selector_metadata sn"
  "model_aliases (index_insert name i sn) = model_aliases sn"
  "sn_generation (index_insert name i sn) = sn_generation sn"
  by (simp_all add: index_insert_def Let_def)

lemma remove_from_model_index_ok:
  assumes ok: "index_ok g (model_index sn) (model_order sn)" and g: "g i = Some name"
  shows "index_ok (g(i := None)) (model_index (remove_from_model_index name i sn))
           (model_order (remove_from_model_index name i sn))"
proof -
  obtain ids where ids: "model_index sn name = Some ids"
    using index_okD(2) [OF ok, of name] g by (cases "model_index sn name") auto
  note mem = index_okD(1) [OF ok ids]
  have other: "set ids' = {j. (g(i := None)) j = Some n}"
    if "n \<noteq> name" "model_index sn n = Some ids'" for n ids'
    using index_okD(1) [OF ok that(2)] g that(1) by auto
  show ?thesis
  proof (cases "filter (\<lambda>d. d \<noteq> i) ids = []")
    case True
    then have new: "model_index (remove_from_model_index name i sn) = (model_index sn)(name := None)"
      "model_order (remove_from_model_index name i sn) = remove1 name (model_order sn)"
      using ids by (simp_all add: remove_from_model_index_def)
    have gone: "set ids \<subseteq> {i}"
      using True by (auto simp: filter_empty_conv)
    show ?thesis unfolding new
    proof (rule index_okI)
      show "(g(i := None)) j \<noteq> Some n" if "((model_index sn)(name := None)) n = None" for n j
        using that index_okD(2) [OF ok, of n] gone mem by (auto split: if_splits)
      show "ids' \<noteq> [] \<and> distinct ids' \<and> set ids' = {j. (g(i := None)) j = Some n}"
        if "((model_index sn)(name := None)) n = Some ids'" for n ids'
        using that other [of n ids'] index_okD(1) [OF ok, of n ids'] by (auto split: if_splits)
      show "set (remove1 name (model_order sn)) = dom ((model_index sn)(name := None))"
        using index_okD(3,4) [OF ok] by (simp add: set_remove1_eq)
    qed (use index_okD(3) [OF ok] in simp)
  next
    case False
    then have new: "model_index (remove_from_model_index name i sn)
        = (model_index sn)(name \<mapsto> filter (\<lambda>d. d \<noteq> i) ids)"
      "model_order (remove_from_model_index name i sn) = model_order sn"
      using ids by (simp_all add: remove_from_model_index_def)
    show ?thesis unfolding new
    proof (rule index_okI)
      show "(g(i := None)) j \<noteq> Some n"
        if "((model_index sn)(name \<mapsto> filter (\<lambda>d. d \<noteq> i) ids)) n = None" for n j
        using that index_okD(2) [OF ok, of n] by (auto split: if_splits)
      show "ids' \<noteq> [] \<and> distinct ids' \<and> set ids' = {j. (g(i := None)) j = Some n}"
        if "((model_index sn)(name \<mapsto> filter (\<lambda>d. d \<noteq> i) ids)) n = Some ids'" for n ids'
      proof (cases "n = name")
        case True
        with that have "ids' = filter (\<lambda>d. d \<noteq> i) ids" by simp
        with mem False True show ?thesis by auto
      next
        case neq: False
        with that other [of n ids'] index_okD(1) [OF ok, of n ids'] show ?thesis by simp
      qed
    qed (use index_okD(3,4) [OF ok] ids in auto)
  qed
qed

lemma index_insert_ok:
  assumes ok: "index_ok g (model_index sn) (model_order sn)"
    and g: "g i = None \<or> g i = Some name"
  shows "index_ok (g(i \<mapsto> name)) (model_index (index_insert name i sn))
           (model_order (index_insert name i sn))"
proof -
  define entry where "entry = (case model_index sn name of Some e \<Rightarrow> e | None \<Rightarrow> [])"
  define entry' where "entry' = (if i \<in> set entry then entry else entry @ [i])"
  have new: "model_index (index_insert name i sn) = (model_index sn)(name \<mapsto> entry')"
    "model_order (index_insert name i sn)
       = (if model_index sn name = None then model_order sn @ [name] else model_order sn)"
    by (simp_all add: index_insert_def entry_def entry'_def Let_def split: option.split)
  have mem: "distinct entry \<and> set entry = {j. g j = Some name}"
    using index_okD(1,2) [OF ok, of name] by (cases "model_index sn name") (auto simp: entry_def)
  have entry': "entry' \<noteq> [] \<and> distinct entry' \<and> set entry' = {j. (g(i \<mapsto> name)) j = Some name}"
  proof (cases "i \<in> set entry")
    case True
    then have "(g(i \<mapsto> name)) j = Some name \<longleftrightarrow> g j = Some name" for j
      using mem by auto
    with True mem show ?thesis unfolding entry'_def by auto
  next
    case False
    with mem show ?thesis unfolding entry'_def by auto
  qed
  show ?thesis unfolding new
  proof (rule index_okI)
    show "ids' \<noteq> [] \<and> distinct ids' \<and> set ids' = {j. (g(i \<mapsto> name)) j = Some n}"
      if "((model_index sn)(name \<mapsto> entry')) n = Some ids'" for n ids'
      using that entry' g index_okD(1) [OF ok, of n ids'] by (cases "n = name") auto
    show "(g(i \<mapsto> name)) j \<noteq> Some n" if "((model_index sn)(name \<mapsto> entry')) n = None" for n j
      using that index_okD(2) [OF ok, of n] by (auto split: if_splits)
  qed (use index_okD(3,4) [OF ok] in \<open>auto split: if_splits\<close>)
qed

subsection \<open>Every writer keeps the snapshot consistent\<close>

lemma group_of_update:
  "group_of (sn\<lparr>deployments := (deployments sn)(i := v)\<rparr>) = (group_of sn)(i := map_option model_name v)"
  by (auto simp: group_of_def)

text \<open>The effect of an insertion, taken apart once.\<close>

lemma insert_deployment_cases:
  assumes "insert_deployment pname d sn = Some sn'"
  obtains s sn1 where "state_for_insertion sn d = Some s"
    and "sn1 = (case deployments sn (dep_id d) of
                  Some od \<Rightarrow> if model_name od \<noteq> model_name d
                             then remove_from_model_index (model_name od) (dep_id d) sn else sn
                | None \<Rightarrow> sn)"
    and "model_index sn' = model_index (index_insert (model_name d) (dep_id d) sn1)"
    and "model_order sn' = model_order (index_insert (model_name d) (dep_id d) sn1)"
    and "deployments sn' = (deployments sn)(dep_id d \<mapsto> d\<lparr>state := s\<rparr>)"
    and "dom (provider_names sn') = insert (dep_id d) (dom (provider_names sn))"
    and "legacy_selector_metadata sn' = legacy_selector_metadata sn"
    and "model_aliases sn' = model_aliases sn"
    and "sn_generation sn' = sn_generation sn"
proof -
  from assms obtain s where s: "state_for_insertion sn d = Some s"
    by (auto simp: insert_deployment_def bind_eq_Some_conv Let_def)
  let ?sn1 = "case deployments sn (dep_id d) of
                  Some od \<Rightarrow> if model_name od \<noteq> model_name d
                             then remove_from_model_index (model_name od) (dep_id d) sn else sn
                | None \<Rightarrow> sn"
  from assms s show thesis
    by (intro that [of s ?sn1])
      (auto simp: insert_deployment_def index_insert_def remove_from_model_index_def Let_def
        split: option.splits if_splits)
qed

lemma insert_deployment_ok:
  assumes "insert_deployment pname d sn = Some sn'" and ok: "snapshot_ok sn"
  shows "snapshot_ok sn'"
  using assms(1)
proof (rule insert_deployment_cases)
  fix s sn1
  assume sn1: "sn1 = (case deployments sn (dep_id d) of
                  Some od \<Rightarrow> if model_name od \<noteq> model_name d
                             then remove_from_model_index (model_name od) (dep_id d) sn else sn
                | None \<Rightarrow> sn)"
    and new: "model_index sn' = model_index (index_insert (model_name d) (dep_id d) sn1)"
      "model_order sn' = model_order (index_insert (model_name d) (dep_id d) sn1)"
      "deployments sn' = (deployments sn)(dep_id d \<mapsto> d\<lparr>state := s\<rparr>)"
      "dom (provider_names sn') = insert (dep_id d) (dom (provider_names sn))"
      "legacy_selector_metadata sn' = legacy_selector_metadata sn"
      "model_aliases sn' = model_aliases sn"
  let ?i = "dep_id d"
  have idx: "index_ok (group_of sn) (model_index sn) (model_order sn)"
    using ok by (simp add: snapshot_ok_def)
  have "\<exists>g1. index_ok g1 (model_index sn1) (model_order sn1)
      \<and> (g1 ?i = None \<or> g1 ?i = Some (model_name d))
      \<and> g1(?i \<mapsto> model_name d) = (group_of sn)(?i \<mapsto> model_name d)"
  proof (cases "\<exists>od. deployments sn ?i = Some od \<and> model_name od \<noteq> model_name d")
    case True
    then obtain od where od: "deployments sn ?i = Some od" "model_name od \<noteq> model_name d" by blast
    then have "index_ok ((group_of sn)(?i := None)) (model_index sn1) (model_order sn1)"
      using remove_from_model_index_ok [OF idx, of ?i "model_name od"]
      by (simp add: sn1 group_of_def)
    then show ?thesis by (intro exI [of _ "(group_of sn)(?i := None)"]) simp
  next
    case False
    then have "sn1 = sn" by (auto simp: sn1 split: option.split)
    with False idx show ?thesis
      by (intro exI [of _ "group_of sn"]) (auto simp: group_of_def)
  qed
  then obtain g1 where "index_ok g1 (model_index sn1) (model_order sn1)"
    "g1 ?i = None \<or> g1 ?i = Some (model_name d)"
    "g1(?i \<mapsto> model_name d) = (group_of sn)(?i \<mapsto> model_name d)" by blast
  moreover have "group_of sn' = (group_of sn)(?i \<mapsto> model_name d)"
    by (auto simp: group_of_def new)
  ultimately have "index_ok (group_of sn') (model_index sn') (model_order sn')"
    using index_insert_ok [of g1 sn1 ?i "model_name d"] by (simp add: new)
  with ok new show ?thesis
    by (auto simp: snapshot_ok_def)
qed

lemma group_of_frame [simp]:
  "group_of (sn\<lparr>provider_names := x\<rparr>) = group_of sn"
  "group_of (sn\<lparr>legacy_selector_metadata := y\<rparr>) = group_of sn"
  "group_of (sn\<lparr>model_aliases := a\<rparr>) = group_of sn"
  "group_of (sn\<lparr>model_order := ord\<rparr>) = group_of sn"
  "group_of (sn\<lparr>sn_generation := g\<rparr>) = group_of sn"
  by (simp_all add: group_of_def fun_eq_iff)

lemma insert_deployment_dom:
  "insert_deployment pname d sn = Some sn' \<Longrightarrow> dep_id d \<in> dom (deployments sn')"
  by (erule insert_deployment_cases) simp

lemma insert_with_metadata_ok:
  assumes "insert_deployment_with_legacy_metadata pname d m sn = Some sn'" "snapshot_ok sn"
  shows "snapshot_ok sn' \<and> dep_id d \<in> dom (deployments sn')"
proof -
  from assms(1) obtain sn1 where ins: "insert_deployment pname d sn = Some sn1"
    and sn': "sn' = sn1\<lparr>legacy_selector_metadata := (legacy_selector_metadata sn1)(dep_id d \<mapsto> m)\<rparr>"
    by (auto simp: insert_deployment_with_legacy_metadata_def bind_eq_Some_conv)
  from insert_deployment_ok [OF ins assms(2)] insert_deployment_dom [OF ins]
  show ?thesis by (auto simp: sn' snapshot_ok_def)
qed

lemma insert_gateway_deployment_ok:
  assumes "insert_gateway_deployment pname d m name sn = Some sn'" and ok: "snapshot_ok sn"
  shows "snapshot_ok sn'"
proof -
  from assms(1) obtain sn1 where
    "(case m of Some m \<Rightarrow> insert_deployment_with_legacy_metadata pname d m sn
              | None \<Rightarrow> insert_deployment pname d sn) = Some sn1"
    and sn': "sn' = sn1\<lparr>provider_names := (provider_names sn1)(dep_id d \<mapsto> name)\<rparr>"
    by (auto simp: insert_gateway_deployment_def bind_eq_Some_conv)
  then have "snapshot_ok sn1 \<and> dep_id d \<in> dom (deployments sn1)"
    using insert_with_metadata_ok [OF _ ok] insert_deployment_ok [OF _ ok] insert_deployment_dom
    by (cases m) (simp_all del: domIff)
  then show ?thesis
    by (auto simp: sn' snapshot_ok_def)
qed

lemma remove_deployment_ok:
  assumes ok: "snapshot_ok sn"
  shows "snapshot_ok (snd (remove_deployment i sn))"
proof (cases "deployments sn i")
  case None
  moreover have "i \<notin> dom (provider_names sn)" "i \<notin> dom (legacy_selector_metadata sn)"
    using None ok by (auto simp: snapshot_ok_def)
  ultimately show ?thesis
    using ok by (simp add: remove_deployment_def snapshot_ok_def domIff fun_upd_idem
        group_of_def)
next
  case (Some d)
  let ?sn = "sn\<lparr>deployments := (deployments sn)(i := None),
                  provider_names := (provider_names sn)(i := None),
                  legacy_selector_metadata := (legacy_selector_metadata sn)(i := None)\<rparr>"
  have rem: "snd (remove_deployment i sn) = remove_from_model_index (model_name d) i ?sn"
    by (simp add: remove_deployment_def Some)
  have "index_ok ((group_of sn)(i := None)) (model_index (remove_from_model_index (model_name d) i ?sn))
      (model_order (remove_from_model_index (model_name d) i ?sn))"
    using ok Some by (intro remove_from_model_index_ok) (simp_all add: snapshot_ok_def group_of_def)
  moreover have "group_of (snd (remove_deployment i sn)) = (group_of sn)(i := None)"
    by (auto simp: rem group_of_def fun_eq_iff)
  ultimately show ?thesis
    using ok unfolding rem by (auto simp: snapshot_ok_def)
qed

lemma sync_lifecycle_frame:
  "map_option model_name (sync_lifecycle i s ds j) = map_option model_name (ds j)"
  "map_option dep_id (sync_lifecycle i s ds j) = map_option dep_id (ds j)"
  "dom (sync_lifecycle i s ds) = dom ds"
  by (auto simp: sync_lifecycle_def split: option.splits if_splits)

lemma sync_snapshot_ok:
  assumes "snapshot_ok sn"
  shows "snapshot_ok (sn\<lparr>deployments := sync_lifecycle i s (deployments sn)\<rparr>)"
proof -
  have "group_of (sn\<lparr>deployments := sync_lifecycle i s (deployments sn)\<rparr>) = group_of sn"
    by (auto simp: group_of_def sync_lifecycle_frame)
  moreover have "dep_id d = j" if "sync_lifecycle i s (deployments sn) j = Some d" for j d
    using assms that sync_lifecycle_frame(2) [of i s "deployments sn" j]
    by (cases "deployments sn j") (auto simp: snapshot_ok_def)
  ultimately show ?thesis
    using assms by (simp add: snapshot_ok_def sync_lifecycle_frame)
qed

subsection \<open>Bulk replacement\<close>

text \<open>
  A deployment's specification (everything but its state), and a state without the fields
  that belong to one handle: the provider instance and the probe evidence.
\<close>

definition spec_of ::
  "'p deployment \<Rightarrow> string \<times> 'p \<times> string \<times> string \<times> deployment_config \<times> string list" where
  "spec_of d = (dep_id d, provider d, model d, model_name d, config d, tags d)"

definition runtime_of :: "deployment_state \<Rightarrow> deployment_state" where
  "runtime_of s = s\<lparr>provider_instance_identity := 0, probe_health := 0,
     probe_last_checked_at_millis := 0, probe_lifecycle := 0, probe_generation := 0\<rparr>"

definition specs :: "(string \<rightharpoonup> 'p deployment) \<Rightarrow> string \<rightharpoonup>
    string \<times> 'p \<times> string \<times> string \<times> deployment_config \<times> string list" where
  "specs ds i = map_option spec_of (ds i)"

definition runtimes :: "(string \<rightharpoonup> 'p deployment) \<Rightarrow> string \<rightharpoonup> deployment_state" where
  "runtimes ds i = map_option (\<lambda>d. runtime_of (state d)) (ds i)"

lemma spec_of_state [simp]: "spec_of (d\<lparr>state := s\<rparr>) = spec_of d"
  by (simp add: spec_of_def)

lemma specs_empty [simp]: "specs Map.empty = Map.empty"
  by (simp add: specs_def fun_eq_iff)

lemma for_insertion_runtime:
  "for_snapshot_insertion_with_provider p s = Some s' \<Longrightarrow> runtime_of s' = runtime_of s"
  by (auto simp: for_snapshot_insertion_with_provider_def next_generation_def runtime_of_def
      bind_eq_Some_conv)

lemma sync_lifecycle_views [simp]:
  "specs (sync_lifecycle i s ds) = specs ds" "runtimes (sync_lifecycle i s ds) = runtimes ds"
  by (auto simp: specs_def runtimes_def sync_lifecycle_def runtime_of_def fun_eq_iff
      split: option.splits)

lemma insert_deployment_views:
  assumes "insert_deployment pname d sn = Some sn'"
  shows "specs (deployments sn') = (specs (deployments sn))(dep_id d \<mapsto> spec_of d)"
    and "runtimes (deployments sn') = (runtimes (deployments sn))(dep_id d \<mapsto>
           (case runtimes (deployments sn) (dep_id d) of
              Some r \<Rightarrow> r | None \<Rightarrow> runtime_of (state d)))"
  using assms
proof (atomize (full), rule insert_deployment_cases)
  fix s
  assume s: "state_for_insertion sn d = Some s"
    and ds: "deployments sn' = (deployments sn)(dep_id d \<mapsto> d\<lparr>state := s\<rparr>)"
  have "runtime_of s = (case runtimes (deployments sn) (dep_id d) of
              Some r \<Rightarrow> r | None \<Rightarrow> runtime_of (state d))"
    using s by (auto simp: state_for_insertion_def runtimes_def for_snapshot_insertion_def
        dest: for_insertion_runtime split: option.splits)
  then show "specs (deployments sn') = (specs (deployments sn))(dep_id d \<mapsto> spec_of d)
    \<and> runtimes (deployments sn') = (runtimes (deployments sn))(dep_id d \<mapsto>
           (case runtimes (deployments sn) (dep_id d) of
              Some r \<Rightarrow> r | None \<Rightarrow> runtime_of (state d)))"
    by (auto simp: ds specs_def runtimes_def fun_eq_iff)
qed

text \<open>One round of the bulk insertion.\<close>

lemma insert_preserving_cases:
  assumes "insert_preserving pname (d # ds) previous sn = Some sn'"
  obtains d1 sn1 sn2 previous' where "insert_deployment pname d1 sn1 = Some sn2"
    and "insert_preserving pname ds previous' sn2 = Some sn'"
    and "sn1 = sn \<or> (\<exists>s. sn1 = sn\<lparr>deployments := sync_lifecycle (dep_id d) s (deployments sn)\<rparr>)"
    and "dep_id d1 = dep_id d" "spec_of d1 = spec_of d"
    and "\<And>r. runtimes previous (dep_id d) = Some r \<Longrightarrow> runtime_of (state d1) = r"
    and "runtimes previous' = runtimes previous"
proof -
  from assms obtain d1 sn1 where round: "(case previous (dep_id d) of
            None \<Rightarrow> Some (d, sn)
          | Some old \<Rightarrow>
              do {
                s \<leftarrow> for_snapshot_insertion_with_provider
                       (provider_instance_identity (state d)) (state old);
                Some (d\<lparr>state := s\<rparr>,
                      sn\<lparr>deployments := sync_lifecycle (dep_id d) s (deployments sn)\<rparr>)
              }) = Some (d1, sn1)"
    and "\<exists>sn2. insert_deployment pname d1 sn1 = Some sn2 \<and> insert_preserving pname ds
         (case deployments sn2 (dep_id d1) of
            Some d' \<Rightarrow> sync_lifecycle (dep_id d1) (state d') previous
          | None \<Rightarrow> previous) sn2 = Some sn'"
    by (auto simp: bind_eq_Some_conv)
  then obtain sn2 where ins: "insert_deployment pname d1 sn1 = Some sn2"
    and rest: "insert_preserving pname ds
         (case deployments sn2 (dep_id d1) of
            Some d' \<Rightarrow> sync_lifecycle (dep_id d1) (state d') previous
          | None \<Rightarrow> previous) sn2 = Some sn'"
    by blast
  have d1: "dep_id d1 = dep_id d" "spec_of d1 = spec_of d"
    "sn1 = sn \<or> (\<exists>s. sn1 = sn\<lparr>deployments := sync_lifecycle (dep_id d) s (deployments sn)\<rparr>)"
    "\<And>r. runtimes previous (dep_id d) = Some r \<Longrightarrow> runtime_of (state d1) = r"
    using round by (auto simp: runtimes_def bind_eq_Some_conv dest: for_insertion_runtime
        split: option.splits)
  show thesis
    by (rule that [OF ins rest d1(3) d1(1,2,4)]) (auto split: option.split)
qed

lemma insert_preserving_ok:
  "insert_preserving pname ds previous sn = Some sn' \<Longrightarrow> snapshot_ok sn \<Longrightarrow>
     snapshot_ok sn' \<and> model_aliases sn' = model_aliases sn
     \<and> legacy_selector_metadata sn' = legacy_selector_metadata sn"
proof (induction ds arbitrary: previous sn)
  case (Cons d ds)
  from Cons.prems(1) show ?case
  proof (rule insert_preserving_cases)
    fix d1 sn1 sn2 previous'
    assume ins: "insert_deployment pname d1 sn1 = Some sn2"
      and rest: "insert_preserving pname ds previous' sn2 = Some sn'"
      and sn1: "sn1 = sn \<or> (\<exists>s. sn1 = sn\<lparr>deployments := sync_lifecycle (dep_id d) s (deployments sn)\<rparr>)"
    have "snapshot_ok sn1"
      using sn1 Cons.prems(2) sync_snapshot_ok by blast
    with ins have "snapshot_ok sn2" by (rule insert_deployment_ok)
    moreover have "model_aliases sn2 = model_aliases sn1"
      "legacy_selector_metadata sn2 = legacy_selector_metadata sn1"
      by (rule insert_deployment_cases [OF ins], simp)+
    ultimately show ?thesis
      using Cons.IH [OF rest] sn1 by auto
  qed
qed simp

definition keyed :: "'p deployment list \<Rightarrow>
    (string \<times> string \<times> 'p \<times> string \<times> string \<times> deployment_config \<times> string list) list" where
  "keyed ds = map (\<lambda>d. (dep_id d, spec_of d)) ds"

lemma insert_preserving_views:
  assumes "insert_preserving pname ds previous sn = Some sn'"
    and "\<And>i r. runtimes previous i = Some r \<Longrightarrow> runtimes (deployments sn) i \<in> {None, Some r}"
  shows "specs (deployments sn') = specs (deployments sn) ++ map_of (rev (keyed ds))
     \<and> (\<forall>i r. runtimes previous i = Some r \<longrightarrow> runtimes (deployments sn') i \<in> {None, Some r})"
  using assms
proof (induction ds arbitrary: previous sn)
  case Nil
  then show ?case by (simp add: keyed_def)
next
  case (Cons d ds)
  from Cons.prems(1) show ?case
  proof (rule insert_preserving_cases)
    fix d1 sn1 sn2 previous'
    assume ins: "insert_deployment pname d1 sn1 = Some sn2"
      and rest: "insert_preserving pname ds previous' sn2 = Some sn'"
      and sn1: "sn1 = sn \<or> (\<exists>s. sn1 = sn\<lparr>deployments := sync_lifecycle (dep_id d) s (deployments sn)\<rparr>)"
      and d1: "dep_id d1 = dep_id d" "spec_of d1 = spec_of d"
        "\<And>r. runtimes previous (dep_id d) = Some r \<Longrightarrow> runtime_of (state d1) = r"
      and prev: "runtimes previous' = runtimes previous"
    have views: "specs (deployments sn1) = specs (deployments sn)"
      "runtimes (deployments sn1) = runtimes (deployments sn)"
      using sn1 by auto
    note new = insert_deployment_views [OF ins, unfolded views d1]
    have "runtimes (deployments sn2) i \<in> {None, Some r}" if "runtimes previous' i = Some r" for i r
      using that Cons.prems(2) [of i r] d1(3) unfolding prev new(2)
      by (auto split: option.splits)
    from Cons.IH [OF rest this] show ?thesis
      unfolding prev new(1) by (simp add: keyed_def map_add_def fun_eq_iff split: option.splits)
  qed
qed

lemma first_occurrences_set: "set (first_occurrences seen xs) = set xs - seen"
  by (induction seen xs rule: first_occurrences.induct) auto

lemma first_occurrences_distinct: "distinct (first_occurrences seen xs)"
  by (induction seen xs rule: first_occurrences.induct) (auto simp: first_occurrences_set)

lemma specs_group: "group_of sn i = map_option (\<lambda>(_, _, _, n, _). n) (specs (deployments sn) i)"
  by (simp add: group_of_def specs_def spec_of_def option.map_comp o_def)

lemma bulk_start_ok:
  "alias_ok a \<Longrightarrow> snapshot_ok \<lparr>sn_generation = g, deployments = Map.empty, model_index = Map.empty,
     model_order = [], model_aliases = a, provider_names = Map.empty,
     legacy_selector_metadata = Map.empty\<rparr>"
  by (simp add: snapshot_ok_def index_ok_def group_of_def)

lemma from_deployments_cases:
  assumes "from_deployments_preserving_state pname ds previous = Some sn'" "snapshot_ok previous"
  obtains sn where "snapshot_ok sn"
    and "sn' = sn\<lparr>model_order := filter (\<lambda>n. model_index sn n \<noteq> None)
                    (first_occurrences {} (map model_name ds))\<rparr>"
    and "specs (deployments sn) = map_of (rev (keyed ds))"
    and "\<forall>i r. runtimes (deployments previous) i = Some r \<longrightarrow>
           runtimes (deployments sn) i \<in> {None, Some r}"
proof -
  let ?start = "\<lparr>sn_generation = sn_generation previous, deployments = Map.empty,
               model_index = Map.empty, model_order = [],
               model_aliases = model_aliases previous, provider_names = Map.empty,
               legacy_selector_metadata = Map.empty\<rparr>"
  from assms(1) obtain sn where
    sn: "insert_preserving pname ds (deployments previous) ?start = Some sn"
    and sn': "sn' = sn\<lparr>model_order := filter (\<lambda>n. model_index sn n \<noteq> None)
                    (first_occurrences {} (map model_name ds))\<rparr>"
    by (auto simp: from_deployments_preserving_state_def bind_eq_Some_conv)
  have "snapshot_ok ?start"
    using assms(2) by (intro bulk_start_ok) (simp add: snapshot_ok_def)
  with sn have "snapshot_ok sn" using insert_preserving_ok by blast
  with sn' insert_preserving_views [OF sn] show thesis
    by (intro that [of sn]) (simp_all add: runtimes_def)
qed

lemma from_deployments_ok:
  fixes sn' :: "('p, 'c) routing_snapshot"
  assumes "from_deployments_preserving_state pname ds previous = Some sn'" "snapshot_ok previous"
  shows "snapshot_ok sn'"
  using assms
proof (rule from_deployments_cases)
  fix sn :: "('p, 'c) routing_snapshot"
  let ?ord = "filter (\<lambda>n. model_index sn n \<noteq> None) (first_occurrences {} (map model_name ds))"
  assume ok: "snapshot_ok sn" and sn': "sn' = sn\<lparr>model_order := ?ord\<rparr>"
    and specs: "specs (deployments sn) = map_of (rev (keyed ds))"
  note idx = ok [unfolded snapshot_ok_def, THEN conjunct1]
  have "dom (model_index sn) \<subseteq> model_name ` set ds"
  proof
    fix n
    assume "n \<in> dom (model_index sn)"
    then obtain ids where "model_index sn n = Some ids" by blast
    then obtain i where "group_of sn i = Some n"
      using index_okD(1) [OF idx] by (metis (mono_tags) all_not_in_conv mem_Collect_eq set_empty)
    then obtain x where "map_of (rev (keyed ds)) i = Some x" "(\<lambda>(_, _, _, n, _). n) x = n"
      unfolding specs_group specs by auto
    then show "n \<in> model_name ` set ds"
      by (auto dest!: map_of_SomeD simp: keyed_def spec_of_def)
  qed
  then have "set ?ord = dom (model_index sn)"
    by (auto simp: first_occurrences_set)
  moreover have "distinct ?ord"
    by (simp add: first_occurrences_distinct)
  ultimately have "index_ok (group_of sn) (model_index sn) ?ord"
    using idx by (simp add: index_ok_def)
  with ok show ?thesis by (simp add: sn' snapshot_ok_def)
qed

lemma restore_provider_names_ok: "snapshot_ok sn \<Longrightarrow> snapshot_ok (restore_provider_names p sn)"
  by (auto simp: snapshot_ok_def restore_provider_names_def split: if_splits)

subsection \<open>The routing table as a state machine\<close>

inductive snapshot_step ::
  "('p \<Rightarrow> string) \<Rightarrow> u64 \<times> ('p, 'c) routing_snapshot \<Rightarrow> u64 \<times> ('p, 'c) routing_snapshot \<Rightarrow> bool"
  for pname where
  add: "add_deployment pname d gen sn = Some next \<Longrightarrow> snapshot_step pname (gen, sn) next"
| remove: "router_remove_deployment i gen sn = Some next \<Longrightarrow> snapshot_step pname (gen, sn) next"
| bulk: "set_model_list pname ds gen sn = Some next \<Longrightarrow> snapshot_step pname (gen, sn) next"
| new_alias: "router_add_model_alias a n gen sn = Some (Inr next) \<Longrightarrow> snapshot_step pname (gen, sn) next"
| gateway: "update_routing_snapshot (insert_gateway_deployment pname d m name) gen sn = Some next \<Longrightarrow>
     snapshot_step pname (gen, sn) next"
| other_router: "gen \<le> gen' \<Longrightarrow> snapshot_step pname (gen, sn) (gen', sn)"

definition snapshot_init :: "u64 \<times> ('p, 'c) routing_snapshot \<Rightarrow> bool" where
  "snapshot_init w \<longleftrightarrow> (\<exists>gen. w = (gen, empty_snapshot gen))"

definition snapshot_inv :: "u64 \<times> ('p, 'c) routing_snapshot \<Rightarrow> bool" where
  "snapshot_inv w \<longleftrightarrow> snapshot_ok (snd w) \<and> sn_generation (snd w) \<le> fst w"

lemma snapshot_ok_generation [simp]: "snapshot_ok (sn\<lparr>sn_generation := g\<rparr>) = snapshot_ok sn"
  by (simp add: snapshot_ok_def)

text \<open>A published snapshot has a new generation, greater than every one before it.\<close>

lemma update_routing_snapshot_inv:
  assumes "update_routing_snapshot upd gen sn = Some w" "snapshot_ok sn"
    and "\<And>sn'. upd sn = Some sn' \<Longrightarrow> snapshot_ok sn'"
  shows "snapshot_inv w \<and> gen < sn_generation (snd w) \<and> fst w = sn_generation (snd w)"
  using assms
  by (auto simp: update_routing_snapshot_def next_routing_generation_def snapshot_inv_def
      bind_eq_Some_conv word_less_nat_alt dest!: checked_add_one_Some)

lemma writers_inv:
  assumes "snapshot_ok sn"
  shows "add_deployment pname d gen sn = Some w \<Longrightarrow>
      snapshot_inv w \<and> gen < sn_generation (snd w) \<and> fst w = sn_generation (snd w)"
    and "router_remove_deployment i gen sn = Some w \<Longrightarrow>
      snapshot_inv w \<and> gen < sn_generation (snd w) \<and> fst w = sn_generation (snd w)"
    and "set_model_list pname ds gen sn = Some w \<Longrightarrow>
      snapshot_inv w \<and> gen < sn_generation (snd w) \<and> fst w = sn_generation (snd w)"
    and "router_add_model_alias a n gen sn = Some (Inr w) \<Longrightarrow>
      snapshot_inv w \<and> gen < sn_generation (snd w) \<and> fst w = sn_generation (snd w)"
    and "update_routing_snapshot (insert_gateway_deployment pname d m name) gen sn = Some w \<Longrightarrow>
      snapshot_inv w \<and> gen < sn_generation (snd w) \<and> fst w = sn_generation (snd w)"
proof -
  have cleared: "snapshot_ok
      (sn\<lparr>legacy_selector_metadata := (legacy_selector_metadata sn)(dep_id d := None)\<rparr>)"
    using assms by (auto simp: snapshot_ok_def)
  show "add_deployment pname d gen sn = Some w \<Longrightarrow>
      snapshot_inv w \<and> gen < sn_generation (snd w) \<and> fst w = sn_generation (snd w)"
    unfolding add_deployment_def
    by (erule update_routing_snapshot_inv [OF _ assms]) (rule insert_deployment_ok [OF _ cleared])
  show "router_remove_deployment i gen sn = Some w \<Longrightarrow>
      snapshot_inv w \<and> gen < sn_generation (snd w) \<and> fst w = sn_generation (snd w)"
    unfolding router_remove_deployment_def
    by (erule update_routing_snapshot_inv [OF _ assms]) (use remove_deployment_ok [OF assms] in auto)
  show "set_model_list pname ds gen sn = Some w \<Longrightarrow>
      snapshot_inv w \<and> gen < sn_generation (snd w) \<and> fst w = sn_generation (snd w)"
    unfolding set_model_list_def
    by (erule update_routing_snapshot_inv [OF _ assms])
      (auto simp: bind_eq_Some_conv intro: restore_provider_names_ok from_deployments_ok [OF _ assms])
  show "update_routing_snapshot (insert_gateway_deployment pname d m name) gen sn = Some w \<Longrightarrow>
      snapshot_inv w \<and> gen < sn_generation (snd w) \<and> fst w = sn_generation (snd w)"
    by (erule update_routing_snapshot_inv [OF _ assms]) (rule insert_gateway_deployment_ok [OF _ assms])
  have al: "alias_ok (model_aliases sn)"
    using assms by (simp add: snapshot_ok_def)
  assume "router_add_model_alias a n gen sn = Some (Inr w)"
  then obtain m where "add_model_alias a n (model_aliases sn) = Some (Inr m)"
    and upd: "update_routing_snapshot (\<lambda>sn. Some (sn\<lparr>model_aliases := m\<rparr>)) gen sn = Some w"
    by (auto simp: router_add_model_alias_def split: option.splits sum.splits)
  then have "alias_ok m"
    using alias_ok_update [OF al] by (auto simp: add_model_alias_cases [OF al] split: if_splits)
  with assms have "snapshot_ok (sn\<lparr>model_aliases := m\<rparr>)"
    by (simp add: snapshot_ok_def)
  then show "snapshot_inv w \<and> gen < sn_generation (snd w) \<and> fst w = sn_generation (snd w)"
    by (intro update_routing_snapshot_inv [OF upd assms]) auto
qed

lemma snapshot_step_inv: "snapshot_step pname w w' \<Longrightarrow> snapshot_inv w \<Longrightarrow> snapshot_inv w'"
  by (induction rule: snapshot_step.induct)
    (auto simp: snapshot_inv_def dest: writers_inv)

interpretation routing: invariant_system snapshot_init "snapshot_step pname" snapshot_inv for pname
proof
  show "snapshot_inv s" if "snapshot_init s" for s :: "u64 \<times> ('a, 'b) routing_snapshot"
    using that by (auto simp: snapshot_init_def snapshot_inv_def empty_snapshot_def bulk_start_ok)
qed (rule snapshot_step_inv)

subsection \<open>Properties of snapshots\<close>

lemma snapshot_ok_index_dom:
  assumes "snapshot_ok sn"
  shows "dom (model_index sn) = model_name ` ran (deployments sn)"
proof (intro set_eqI iffI)
  have idx: "index_ok (group_of sn) (model_index sn) (model_order sn)"
    using assms by (simp add: snapshot_ok_def)
  fix n
  show "n \<in> model_name ` ran (deployments sn)" if "n \<in> dom (model_index sn)"
  proof -
    from that obtain ids where "model_index sn n = Some ids" by blast
    then obtain i where "group_of sn i = Some n"
      using index_okD(1) [OF idx] by (metis (mono_tags) all_not_in_conv mem_Collect_eq set_empty)
    then show ?thesis by (auto simp: group_of_def ran_def)
  qed
  show "n \<in> dom (model_index sn)" if "n \<in> model_name ` ran (deployments sn)"
  proof -
    from that obtain i where "group_of sn i = Some n"
      by (auto simp: group_of_def ran_def)
    then show ?thesis
      using index_okD(2) [OF idx, of n] by (cases "model_index sn n") auto
  qed
qed

text \<open>
  C29.  In every reachable snapshot the routing table is consistent: the candidates of a
  model name, after resolution of aliases, are exactly the deployments of that group, each
  once; the ordered list of models has exactly the groups that have a deployment, each once;
  every deployment has a provider name and selector metadata belongs to existing deployments
  only; and the alias table is well formed.
\<close>

theorem snapshot_lookup_exact:
  assumes "snapshot_init w0" and "rtranclp (snapshot_step pname) w0 (gen, sn)"
  shows "distinct (get_deployments_for_model sn name)
         \<and> set (get_deployments_for_model sn name)
           = {i. \<exists>d. deployments sn i = Some d
                \<and> model_name d = resolve_model_name (model_aliases sn) name}
         \<and> distinct (list_models_in_insertion_order sn)
         \<and> set (list_models_in_insertion_order sn) = model_name ` ran (deployments sn)
         \<and> dom (provider_names sn) = dom (deployments sn)
         \<and> dom (legacy_selector_metadata sn) \<subseteq> dom (deployments sn)
         \<and> alias_ok (model_aliases sn)"
proof -
  let ?n = "resolve_model_name (model_aliases sn) name"
  have ok: "snapshot_ok sn"
    using routing.reachable_inv [OF assms] by (simp add: snapshot_inv_def)
  then have idx: "index_ok (group_of sn) (model_index sn) (model_order sn)"
    by (simp add: snapshot_ok_def)
  have grp: "group_of sn i = Some n \<longleftrightarrow> (\<exists>d. deployments sn i = Some d \<and> model_name d = n)" for i n
    by (auto simp: group_of_def)
  have "distinct (get_deployments_for_model sn name)
      \<and> set (get_deployments_for_model sn name) = {i. group_of sn i = Some ?n}"
    using index_okD(1,2) [OF idx, of ?n]
    by (cases "model_index sn ?n") (auto simp: get_deployments_for_model_def)
  moreover have "dom (model_index sn) = model_name ` ran (deployments sn)"
    using ok by (rule snapshot_ok_index_dom)
  ultimately show ?thesis
    using ok index_okD(3,4) [OF idx]
    by (simp add: grp snapshot_ok_def list_models_in_insertion_order_def)
qed

definition example_deployment :: "string \<Rightarrow> string \<Rightarrow> unit deployment" where
  "example_deployment i n = new_with_provider_instance i () n n 0 0"

definition example_snapshot :: "(unit, unit) routing_snapshot" where
  "example_snapshot =
     \<lparr>sn_generation = 2,
      deployments = [''d1'' \<mapsto> (example_deployment ''d1'' ''gpt'')
         \<lparr>state := (new_for_provider_instance 0 0)\<lparr>provider_instance_identity := 0,
            probe_health := 0, probe_last_checked_at_millis := 0, probe_generation := 1,
            probe_lifecycle := 1\<rparr>\<rparr>],
      model_index = [''gpt'' \<mapsto> [''d1'']], model_order = [''gpt''],
      model_aliases = Map.empty, provider_names = [''d1'' \<mapsto> ''p''],
      legacy_selector_metadata = Map.empty\<rparr>"

lemma example_added:
  "add_deployment (\<lambda>_. ''p'') (example_deployment ''d1'' ''gpt'') 1 (empty_snapshot 1)
     = Some (2, example_snapshot)"
  by (simp add: add_deployment_def update_routing_snapshot_def insert_deployment_def
      retained_provider_name_def state_for_insertion_def empty_snapshot_def index_insert_def
      for_snapshot_insertion_def for_snapshot_insertion_with_provider_def next_generation_def
      checked_add_def next_routing_generation_def example_deployment_def example_snapshot_def
      new_with_provider_instance_def new_for_provider_instance_def)

lemma example_reached:
  "snapshot_init (1, empty_snapshot 1)"
  "rtranclp (snapshot_step (\<lambda>_. ''p'')) (1, empty_snapshot 1) (2, example_snapshot)"
  by (auto simp: snapshot_init_def intro!: r_into_rtranclp snapshot_step.add [OF example_added])

lemma example_ok: "snapshot_ok example_snapshot"
  using routing.reachable_inv [OF example_reached] by (simp add: snapshot_inv_def)

lemma example_resolves: "resolve_model_name Map.empty n = n"
  by (simp add: resolve_model_name_def MAX_ALIAS_HOPS_def eval_nat_numeral)

theorem snapshot_lookup_exact_witness:
  "rtranclp (snapshot_step (\<lambda>_. ''p'')) (1, empty_snapshot 1) (2, example_snapshot)
   \<and> set (get_deployments_for_model example_snapshot ''gpt'') = {''d1''}"
  using snapshot_lookup_exact [OF example_reached, of "''gpt''"] example_reached(2)
  by (auto simp: example_snapshot_def example_resolves example_deployment_def
      new_with_provider_instance_def split: if_splits)

text \<open>
  C32.  A bulk replacement keeps the running state of every deployment that survives it.
  The new table has exactly the deployments of the input, the last entry of a duplicated id
  winning; a deployment whose id was present before keeps its counters, reservations, breaker
  and health, whatever else about it changed; the models appear in the order of the input;
  and the published generation is greater than any before it.
\<close>

theorem set_model_list_preserves_state:
  assumes "snapshot_ok sn" and "set_model_list pname ds gen sn = Some (gen', sn')"
  shows "specs (deployments sn') = map_of (rev (keyed ds))
         \<and> (\<forall>i d d'. deployments sn i = Some d \<and> deployments sn' i = Some d' \<longrightarrow>
              runtime_of (state d') = runtime_of (state d))
         \<and> model_order sn' = filter (\<lambda>n. n \<in> model_name ` ran (deployments sn'))
                               (first_occurrences {} (map model_name ds))
         \<and> gen < sn_generation sn' \<and> snapshot_ok sn'"
proof -
  note inv = writers_inv(3) [OF assms]
  from assms(2) obtain sn1 where sn1: "from_deployments_preserving_state pname ds sn = Some sn1"
    and sn': "deployments sn' = deployments sn1" "model_order sn' = model_order sn1"
      "model_index sn' = model_index sn1"
    by (auto simp: set_model_list_def update_routing_snapshot_def bind_eq_Some_conv
        restore_provider_names_def)
  have ok': "snapshot_ok sn'"
    using inv by (simp add: snapshot_inv_def)
  from sn1 assms(1) show ?thesis
  proof (rule from_deployments_cases)
    fix sn2
    assume "sn1 = sn2\<lparr>model_order := filter (\<lambda>n. model_index sn2 n \<noteq> None)
                    (first_occurrences {} (map model_name ds))\<rparr>"
      and "specs (deployments sn2) = map_of (rev (keyed ds))"
      and run: "\<forall>i r. runtimes (deployments sn) i = Some r \<longrightarrow>
           runtimes (deployments sn2) i \<in> {None, Some r}"
    moreover have "model_index sn' n \<noteq> None \<longleftrightarrow> n \<in> model_name ` ran (deployments sn')" for n
      using snapshot_ok_index_dom [OF ok'] by blast
    moreover have "runtime_of (state d') = runtime_of (state d)"
      if "deployments sn i = Some d" "deployments sn2 i = Some d'" for i d d'
    proof -
      have "runtimes (deployments sn2) i \<in> {None, Some (runtime_of (state d))}"
        using run that(1) by (auto simp: runtimes_def)
      with that(2) show ?thesis by (simp add: runtimes_def)
    qed
    ultimately show ?thesis
      using inv ok' sn' by auto
  qed
qed

theorem set_model_list_preserves_state_witness:
  "\<exists>sn'. set_model_list (\<lambda>_. ''p'') [example_deployment ''d1'' ''new''] 2 example_snapshot = Some (3, sn')
     \<and> snapshot_ok sn' \<and> model_order sn' = [''new'']"
proof -
  note ok = example_ok
  obtain sn' where sn': "set_model_list (\<lambda>_. ''p'') [example_deployment ''d1'' ''new''] 2 example_snapshot
      = Some (3, sn')" "ran (deployments sn') = {(example_deployment ''d1'' ''new'')
         \<lparr>state := (new_for_provider_instance 0 0)\<lparr>provider_instance_identity := 0,
            probe_health := 0, probe_last_checked_at_millis := 0, probe_generation := 3,
            probe_lifecycle := 3\<rparr>\<rparr>}"
    by (simp add: set_model_list_def update_routing_snapshot_def from_deployments_preserving_state_def
        insert_deployment_def retained_provider_name_def state_for_insertion_def index_insert_def
        for_snapshot_insertion_def for_snapshot_insertion_with_provider_def next_generation_def
        checked_add_def next_routing_generation_def example_deployment_def example_snapshot_def
        new_with_provider_instance_def new_for_provider_instance_def restore_provider_names_def
        sync_lifecycle_def)
  with set_model_list_preserves_state [OF ok sn'(1)] show ?thesis
    by (simp add: example_deployment_def new_with_provider_instance_def)
qed

lemma legacy_scan_count:
  "legacy_scan sn digest ids (n, matched) =
     (n + length (filter (\<lambda>i. legacy_selector_metadata sn i = Some digest) ids),
      case matched of
        Some m \<Rightarrow> Some m
      | None \<Rightarrow> find (\<lambda>i. legacy_selector_metadata sn i = Some digest) ids)"
  by (induction ids arbitrary: n matched) (auto split: option.splits)

text \<open>
  A legacy credential selects a deployment exactly when it is unambiguous: the result
  is a deployment if and only if it is the only candidate of the model whose stored digest
  equals the digest of the credential; no candidate gives a not-found error and several an
  ambiguity error.
\<close>

theorem resolve_legacy_credential_unique:
  fixes sn :: "('p, 'c) routing_snapshot" and name :: string and digest :: 'c
  assumes "snapshot_ok sn"
  defines "hits \<equiv> {i \<in> set (get_deployments_for_model sn name).
                      legacy_selector_metadata sn i = Some digest}"
  shows "case resolve_legacy_credential_with sn name digest of
           Inr i \<Rightarrow> hits = {i}
         | Inl (LegacyModelNotFound n) \<Rightarrow>
             hits = {} \<and> n = resolve_model_name (model_aliases sn) name
         | Inl LegacyAmbiguous \<Rightarrow> card hits > 1"
proof -
  let ?ids = "get_deployments_for_model sn name"
  let ?hit = "\<lambda>i. legacy_selector_metadata sn i = Some digest"
  have "distinct ?ids"
    using assms(1) index_okD(1) [of "group_of sn" "model_index sn" "model_order sn"]
    by (auto simp: get_deployments_for_model_def snapshot_ok_def split: option.split)
  then have card: "length (filter ?hit ?ids) = card hits"
    using distinct_card [of "filter ?hit ?ids"] by (simp add: hits_def)
  have res: "resolve_legacy_credential_with sn name digest =
      (if card hits = 1 \<and> find ?hit ?ids \<noteq> None then Inr (the (find ?hit ?ids))
       else if card hits = 0 then Inl (LegacyModelNotFound (resolve_model_name (model_aliases sn) name))
       else Inl LegacyAmbiguous)"
    by (simp add: resolve_legacy_credential_with_def legacy_scan_count card [symmetric]
        get_deployments_for_model_def Let_def)
  have fin: "finite hits" by (simp add: hits_def)
  have found: "i \<in> hits" if "find ?hit ?ids = Some i" for i
    using that by (auto simp: find_Some_iff hits_def)
  have none: "find ?hit ?ids = None \<longleftrightarrow> hits = {}"
    by (auto simp: find_None_iff hits_def)
  consider "hits = {}" | i where "hits = {i}" | "card hits > 1"
  proof -
    consider "card hits = 0" | "card hits = 1" | "card hits > 1" by linarith
    then show thesis
      using that fin by cases (auto simp: card_1_singleton_iff)
  qed
  then show ?thesis
  proof cases
    case 2
    then obtain j where "find ?hit ?ids = Some j" using none by auto
    with 2 found [of j] show ?thesis by (simp add: res)
  qed (use fin in \<open>simp_all add: res\<close>)
qed

theorem resolve_legacy_credential_unique_witness:
  "resolve_legacy_credential_with
     (example_snapshot\<lparr>legacy_selector_metadata := [''d1'' \<mapsto> ()]\<rparr>) ''gpt'' () = Inr ''d1''"
proof -
  from example_ok have "snapshot_ok (example_snapshot\<lparr>legacy_selector_metadata := [''d1'' \<mapsto> ()]\<rparr>)"
    by (simp add: snapshot_ok_def) (simp add: example_snapshot_def)
  moreover have "{i \<in> {''d1''}. [''d1'' \<mapsto> ()] i = Some ()} = {''d1''}" by auto
  ultimately show ?thesis
    using resolve_legacy_credential_unique [of "example_snapshot\<lparr>legacy_selector_metadata :=
        [''d1'' \<mapsto> ()]\<rparr>" "''gpt''" "()"]
    by (auto simp: get_deployments_for_model_def example_snapshot_def example_resolves
        split: sum.splits legacy_error.splits)
qed

end
