(* ===== verification/Provider_Error.thy ===== *)
theory Provider_Error
  imports Prelude
begin

section \<open>Provider errors and their facts\<close>

text \<open>
  Models \<open>ProviderError\<close> (\<^verbatim>\<open>src/core/providers/unified_provider_error.rs\<close> and the
  constructors of \<^verbatim>\<open>unified_provider_methods.rs\<close>), its canonical code
  (\<^verbatim>\<open>src/utils/error/canonical.rs\<close>), its HTTP facts and the mapping of HTTP statuses to
  errors (\<^verbatim>\<open>unified_provider_http_mapping.rs\<close>), and the facts the retry policy reads
  (\<^verbatim>\<open>src/core/providers/failure.rs\<close>).

  A \<open>&'static str\<close> is compared by its text everywhere but in
  \<open>is_bedrock_modeled_retry_error\<close>, which compares the address with the one string allocated
  for the purpose; \<open>BedrockModeledRetry\<close> is that string.  The extraction of a message or of a
  delay from a JSON body is an argument of the mappers that use it.
\<close>

datatype static_str = Static string | BedrockModeledRetry

primrec static_text :: "static_str \<Rightarrow> string" where
  "static_text (Static s) = s"
| "static_text BedrockModeledRetry = ''bedrock''"

datatype provider_error =
    Authentication static_str string
  | RateLimit static_str string "u64 option" "u32 option" "u32 option" "real option"
  | QuotaExceeded static_str string
  | ModelNotFound static_str string
  | InvalidRequest static_str string
  | Network static_str string
  | ProviderUnavailable static_str string
  | NotSupported static_str string
  | NotImplemented static_str string
  | Configuration static_str string
  | Serialization static_str string
  | Timeout static_str string
  | ContextLengthExceeded static_str usize usize
  | ContentFiltered static_str string "string list option" "bool option"
  | ApiError static_str u16 string
  | TokenLimitExceeded static_str string
  | FeatureDisabled static_str string
  | DeploymentError static_str string string
  | ResponseParsing static_str string
  | RoutingError static_str "string list" string
  | TransformationError static_str string string string
  | Cancelled static_str string "string option"
  | Streaming static_str string "u64 option" "string option" string
  | Other static_str string

primrec error_provider :: "provider_error \<Rightarrow> static_str" where
  "error_provider (Authentication p _) = p"
| "error_provider (RateLimit p _ _ _ _ _) = p"
| "error_provider (QuotaExceeded p _) = p"
| "error_provider (ModelNotFound p _) = p"
| "error_provider (InvalidRequest p _) = p"
| "error_provider (Network p _) = p"
| "error_provider (ProviderUnavailable p _) = p"
| "error_provider (NotSupported p _) = p"
| "error_provider (NotImplemented p _) = p"
| "error_provider (Configuration p _) = p"
| "error_provider (Serialization p _) = p"
| "error_provider (Timeout p _) = p"
| "error_provider (ContextLengthExceeded p _ _) = p"
| "error_provider (ContentFiltered p _ _ _) = p"
| "error_provider (ApiError p _ _) = p"
| "error_provider (TokenLimitExceeded p _) = p"
| "error_provider (FeatureDisabled p _) = p"
| "error_provider (DeploymentError p _ _) = p"
| "error_provider (ResponseParsing p _) = p"
| "error_provider (RoutingError p _ _) = p"
| "error_provider (TransformationError p _ _ _) = p"
| "error_provider (Cancelled p _ _) = p"
| "error_provider (Streaming p _ _ _ _) = p"
| "error_provider (Other p _) = p"

subsection \<open>Constructors\<close>

definition rate_limit_error :: "static_str \<Rightarrow> u64 option \<Rightarrow> provider_error" where
  "rate_limit_error p retry_after =
     RateLimit p
       (case retry_after of
          Some seconds \<Rightarrow>
            ''Rate limit exceeded. Retry after '' @ decimal (unat seconds) @ '' seconds''
        | None \<Rightarrow> ''Rate limit exceeded'')
       retry_after None None None"

text \<open>A public constructor never yields the internal provenance of a Bedrock error.\<close>

definition api_error :: "static_str \<Rightarrow> u16 \<Rightarrow> string \<Rightarrow> provider_error" where
  "api_error p status msg =
     ApiError (if static_text p = ''bedrock'' then Static ''bedrock'' else p) status msg"

definition bedrock_modeled_retry_error :: "string \<Rightarrow> provider_error" where
  "bedrock_modeled_retry_error msg = ApiError BedrockModeledRetry 424 msg"

definition is_bedrock_modeled_retry_error :: "provider_error \<Rightarrow> bool" where
  "is_bedrock_modeled_retry_error e =
     (case e of ApiError p status _ \<Rightarrow> status = 424 \<and> p = BedrockModeledRetry | _ \<Rightarrow> False)"

subsection \<open>Canonical codes\<close>

datatype error_code =
    CAuthentication | CAuthorization | CRateLimited | CQuotaExceeded | CInvalidRequest | CNotFound
  | CConflict | CTimeout | CUnavailable | CNetwork | CConfiguration | CParsing | CNotImplemented
  | CInternal

primrec error_code_str :: "error_code \<Rightarrow> string" where
  "error_code_str CAuthentication = ''AUTHENTICATION''"
| "error_code_str CAuthorization = ''AUTHORIZATION''"
| "error_code_str CRateLimited = ''RATE_LIMITED''"
| "error_code_str CQuotaExceeded = ''QUOTA_EXCEEDED''"
| "error_code_str CInvalidRequest = ''INVALID_REQUEST''"
| "error_code_str CNotFound = ''NOT_FOUND''"
| "error_code_str CConflict = ''CONFLICT''"
| "error_code_str CTimeout = ''TIMEOUT''"
| "error_code_str CUnavailable = ''UNAVAILABLE''"
| "error_code_str CNetwork = ''NETWORK''"
| "error_code_str CConfiguration = ''CONFIGURATION''"
| "error_code_str CParsing = ''PARSING''"
| "error_code_str CNotImplemented = ''NOT_IMPLEMENTED''"
| "error_code_str CInternal = ''INTERNAL''"

definition error_code_is_retryable :: "error_code \<Rightarrow> bool" where
  "error_code_is_retryable c \<longleftrightarrow> c \<in> {CRateLimited, CTimeout, CUnavailable, CNetwork}"

definition status_code :: "u16 \<Rightarrow> error_code" where
  "status_code s =
     (if s = 401 then CAuthentication
      else if s = 403 then CAuthorization
      else if s = 404 then CNotFound
      else if s = 408 \<or> s = 504 then CTimeout
      else if s = 409 then CConflict
      else if s = 429 then CRateLimited
      else if 400 \<le> s \<and> s \<le> 499 then CInvalidRequest
      else if 500 \<le> s \<and> s \<le> 599 then CUnavailable
      else CInternal)"

primrec canonical_code :: "provider_error \<Rightarrow> error_code" where
  "canonical_code (Authentication _ _) = CAuthentication"
| "canonical_code (RateLimit _ _ _ _ _ _) = CRateLimited"
| "canonical_code (QuotaExceeded _ _) = CQuotaExceeded"
| "canonical_code (ModelNotFound _ _) = CNotFound"
| "canonical_code (DeploymentError _ _ _) = CNotFound"
| "canonical_code (InvalidRequest _ _) = CInvalidRequest"
| "canonical_code (ContextLengthExceeded _ _ _) = CInvalidRequest"
| "canonical_code (ContentFiltered _ _ _ _) = CInvalidRequest"
| "canonical_code (TokenLimitExceeded _ _) = CInvalidRequest"
| "canonical_code (Cancelled _ _ _) = CInvalidRequest"
| "canonical_code (Network _ _) = CNetwork"
| "canonical_code (ProviderUnavailable _ _) = CUnavailable"
| "canonical_code (RoutingError _ _ _) = CUnavailable"
| "canonical_code (NotSupported _ _) = CNotImplemented"
| "canonical_code (NotImplemented _ _) = CNotImplemented"
| "canonical_code (FeatureDisabled _ _) = CNotImplemented"
| "canonical_code (Configuration _ _) = CConfiguration"
| "canonical_code (Serialization _ _) = CParsing"
| "canonical_code (ResponseParsing _ _) = CParsing"
| "canonical_code (TransformationError _ _ _ _) = CParsing"
| "canonical_code (Timeout _ _) = CTimeout"
| "canonical_code (ApiError _ s _) = status_code s"
| "canonical_code (Streaming _ _ _ _ _) = CInternal"
| "canonical_code (Other _ _) = CInternal"

subsection \<open>HTTP facts\<close>

record http_error_headers =
  hdr_retry_after :: "u64 option"
  hdr_rpm_limit :: "u32 option"
  hdr_tpm_limit :: "u32 option"

record http_error_facts =
  http_status :: u16
  gateway_code :: string
  openai_error_type :: string
  openai_code :: string
  headers :: http_error_headers

definition http_facts :: "u16 \<Rightarrow> string \<Rightarrow> string \<Rightarrow> string \<Rightarrow> http_error_facts" where
  "http_facts s g t c =
     \<lparr>http_status = s, gateway_code = g, openai_error_type = t, openai_code = c,
      headers = \<lparr>hdr_retry_after = None, hdr_rpm_limit = None, hdr_tpm_limit = None\<rparr>\<rparr>"

definition valid_status_or_bad_gateway :: "u16 \<Rightarrow> u16" where
  "valid_status_or_bad_gateway s = (if 400 \<le> s \<and> s \<le> 599 then s else 502)"

definition provider_api_error_facts :: "u16 \<Rightarrow> http_error_facts" where
  "provider_api_error_facts status =
     (let s = valid_status_or_bad_gateway status; api = ''PROVIDER_API_ERROR''
      in if s = 400 then http_facts s api ''invalid_request_error'' ''invalid_request''
         else if s = 401 then http_facts s api ''authentication_error'' ''authentication_error''
         else if s = 403 then http_facts s api ''permission_error'' ''permission_denied''
         else if s = 404 then http_facts s api ''invalid_request_error'' ''not_found''
         else if s = 408 then http_facts s api ''server_error'' ''timeout''
         else if s = 409 then http_facts s api ''invalid_request_error'' ''conflict''
         else if s = 429 then http_facts s api ''rate_limit_error'' ''rate_limit_exceeded''
         else http_facts s api ''server_error'' ''provider_api_error'')"

definition starts_with :: "string \<Rightarrow> string \<Rightarrow> bool" where
  "starts_with pre s \<longleftrightarrow> take (length pre) s = pre"

definition is_model_not_priced_message :: "string \<Rightarrow> bool" where
  "is_model_not_priced_message msg = starts_with ''model_not_priced:'' msg"

primrec provider_http_error_facts :: "provider_error \<Rightarrow> http_error_facts" where
  "provider_http_error_facts (Authentication _ _) =
     http_facts 401 ''PROVIDER_AUTH_ERROR'' ''authentication_error'' ''authentication_error''"
| "provider_http_error_facts (RateLimit _ _ ra rpm tpm _) =
     (http_facts 429 ''PROVIDER_RATE_LIMIT'' ''rate_limit_error'' ''rate_limit_exceeded'')
       \<lparr>headers := \<lparr>hdr_retry_after = ra, hdr_rpm_limit = rpm, hdr_tpm_limit = tpm\<rparr>\<rparr>"
| "provider_http_error_facts (QuotaExceeded _ _) =
     http_facts 402 ''PROVIDER_QUOTA_EXCEEDED'' ''insufficient_quota'' ''insufficient_quota''"
| "provider_http_error_facts (ModelNotFound _ _) =
     http_facts 404 ''MODEL_NOT_FOUND'' ''invalid_request_error'' ''model_not_found''"
| "provider_http_error_facts (InvalidRequest _ msg) =
     http_facts 400 ''INVALID_REQUEST'' ''invalid_request_error''
       (if is_model_not_priced_message msg then ''model_not_priced'' else ''invalid_request'')"
| "provider_http_error_facts (Network _ _) =
     http_facts 502 ''PROVIDER_NETWORK_ERROR'' ''server_error'' ''provider_network_error''"
| "provider_http_error_facts (ProviderUnavailable _ _) =
     http_facts 503 ''PROVIDER_UNAVAILABLE'' ''server_error'' ''provider_unavailable''"
| "provider_http_error_facts (NotSupported _ _) =
     http_facts 501 ''PROVIDER_NOT_IMPLEMENTED'' ''invalid_request_error'' ''not_supported''"
| "provider_http_error_facts (NotImplemented _ _) =
     http_facts 501 ''PROVIDER_NOT_IMPLEMENTED'' ''invalid_request_error'' ''not_supported''"
| "provider_http_error_facts (FeatureDisabled _ _) =
     http_facts 501 ''PROVIDER_NOT_IMPLEMENTED'' ''invalid_request_error'' ''not_supported''"
| "provider_http_error_facts (Configuration _ _) =
     http_facts 500 ''PROVIDER_INTERNAL_ERROR'' ''server_error'' ''internal_error''"
| "provider_http_error_facts (Serialization _ _) =
     http_facts 500 ''PROVIDER_INTERNAL_ERROR'' ''server_error'' ''internal_error''"
| "provider_http_error_facts (TransformationError _ _ _ _) =
     http_facts 500 ''PROVIDER_INTERNAL_ERROR'' ''server_error'' ''internal_error''"
| "provider_http_error_facts (Timeout _ _) =
     http_facts 504 ''PROVIDER_TIMEOUT'' ''server_error'' ''timeout''"
| "provider_http_error_facts (ContextLengthExceeded _ _ _) =
     http_facts 400 ''PROVIDER_REQUEST_ERROR'' ''invalid_request_error'' ''context_length_exceeded''"
| "provider_http_error_facts (ContentFiltered _ _ _ _) =
     http_facts 400 ''PROVIDER_REQUEST_ERROR'' ''invalid_request_error'' ''content_filter''"
| "provider_http_error_facts (ApiError _ s _) = provider_api_error_facts s"
| "provider_http_error_facts (TokenLimitExceeded _ _) =
     http_facts 400 ''PROVIDER_REQUEST_ERROR'' ''invalid_request_error'' ''token_limit_exceeded''"
| "provider_http_error_facts (DeploymentError _ _ _) =
     http_facts 404 ''DEPLOYMENT_NOT_FOUND'' ''invalid_request_error'' ''deployment_not_found''"
| "provider_http_error_facts (ResponseParsing _ _) =
     http_facts 502 ''PROVIDER_RESPONSE_ERROR'' ''server_error'' ''provider_response_error''"
| "provider_http_error_facts (Streaming _ _ _ _ _) =
     http_facts 502 ''PROVIDER_RESPONSE_ERROR'' ''server_error'' ''provider_response_error''"
| "provider_http_error_facts (RoutingError _ _ _) =
     http_facts 503 ''PROVIDER_ROUTING_ERROR'' ''server_error'' ''provider_routing_error''"
| "provider_http_error_facts (Cancelled _ _ _) =
     http_facts 499 ''PROVIDER_CANCELLED'' ''server_error'' ''cancelled''"
| "provider_http_error_facts (Other _ _) =
     http_facts 502 ''PROVIDER_ERROR'' ''server_error'' ''provider_error''"

subsection \<open>From HTTP statuses to errors\<close>

definition default_http_error_mapper ::
  "(string \<Rightarrow> string option) \<Rightarrow> (string \<Rightarrow> u64 option) \<Rightarrow> static_str \<Rightarrow> u16 \<Rightarrow> string \<Rightarrow> provider_error"
  where
  "default_http_error_mapper parse_message parse_retry_after p s body =
     (let message = (case parse_message body of Some m \<Rightarrow> m | None \<Rightarrow> body)
      in if s = 400 then InvalidRequest p message
         else if s = 401 then Authentication p ''Invalid API key''
         else if s = 403 then api_error p s message
         else if s = 404 then ModelNotFound p ''Model not found''
         else if s = 429 then rate_limit_error p (parse_retry_after body)
         else api_error p s body)"

definition extended_http_error_mapper :: "static_str \<Rightarrow> u16 \<Rightarrow> string \<Rightarrow> provider_error" where
  "extended_http_error_mapper p s body =
     (if s = 400 then InvalidRequest p body
      else if s = 401 then Authentication p body
      else if s = 403 then api_error p s body
      else if s = 402 then QuotaExceeded p body
      else if s = 404 then ModelNotFound p body
      else if s = 408 \<or> s = 504 then Timeout p body
      else if s = 413 then ContextLengthExceeded p 0 0
      else if s = 429 then rate_limit_error p None
      else if s = 500 then api_error p s body
      else if s = 502 \<or> s = 503 then ProviderUnavailable p body
      else api_error p s body)"

subsection \<open>Facts for the retry policy\<close>

record failure_facts =
  ff_provider :: static_str
  ff_canonical_code :: error_code
  ff_http :: http_error_facts
  upstream_status :: "u16 option"
  hint_retry_after :: "duration option"
  content_filter_retryable :: bool
  retry_candidate :: bool
  pre_output_only :: bool
  streaming_failure :: bool
  ff_cancelled :: bool
  modeled_bedrock_retry :: bool
  legacy_retryable :: bool
  legacy_retry_delay :: "duration option"

definition base_facts :: "provider_error \<Rightarrow> failure_facts" where
  "base_facts e =
     \<lparr>ff_provider = error_provider e, ff_canonical_code = canonical_code e,
      ff_http = provider_http_error_facts e, upstream_status = None, hint_retry_after = None,
      content_filter_retryable = False, retry_candidate = False, pre_output_only = False,
      streaming_failure = False, ff_cancelled = False, modeled_bedrock_retry = False,
      legacy_retryable = False, legacy_retry_delay = None\<rparr>"

definition failure_facts_of :: "provider_error \<Rightarrow> failure_facts" where
  "failure_facts_of e =
     (let f = base_facts e
      in case e of
           RateLimit _ _ retry_after _ _ _ \<Rightarrow>
             (let hint = map_option from_secs retry_after
              in f\<lparr>retry_candidate := True, legacy_retryable := True, hint_retry_after := hint,
                   legacy_retry_delay := hint\<rparr>)
         | Network _ _ \<Rightarrow>
             f\<lparr>retry_candidate := True, legacy_retryable := True,
               legacy_retry_delay := Some (from_secs 1)\<rparr>
         | Timeout _ _ \<Rightarrow>
             f\<lparr>retry_candidate := True, legacy_retryable := True,
               legacy_retry_delay := Some (from_secs 1)\<rparr>
         | ProviderUnavailable _ _ \<Rightarrow>
             f\<lparr>retry_candidate := True, legacy_retryable := True,
               legacy_retry_delay := Some (from_secs 5)\<rparr>
         | ContentFiltered _ _ _ potentially_retryable \<Rightarrow>
             (let r = (case potentially_retryable of Some b \<Rightarrow> b | None \<Rightarrow> False)
              in f\<lparr>content_filter_retryable := r, retry_candidate := r, pre_output_only := True,
                   legacy_retryable := r,
                   legacy_retry_delay := (if r then Some (from_secs 10) else None)\<rparr>)
         | ApiError _ status _ \<Rightarrow>
             (let bedrock = is_bedrock_modeled_retry_error e;
                  server = (500 \<le> status \<and> status \<le> 599)
              in f\<lparr>upstream_status := Some status, modeled_bedrock_retry := bedrock,
                   retry_candidate := (bedrock \<or> status = 408 \<or> status = 429 \<or> server),
                   legacy_retryable := (bedrock \<or> status = 429 \<or> server),
                   legacy_retry_delay :=
                     (if status = 424 \<and> bedrock then Some (from_secs 3)
                      else if status = 429 then Some (from_secs 60)
                      else if server then Some (from_secs 3)
                      else None)\<rparr>)
         | DeploymentError _ _ _ \<Rightarrow>
             f\<lparr>retry_candidate := True, pre_output_only := True, legacy_retryable := True,
               legacy_retry_delay := Some (from_secs 5)\<rparr>
         | Cancelled _ _ _ \<Rightarrow> f\<lparr>ff_cancelled := True\<rparr>
         | Streaming _ _ _ _ _ \<Rightarrow>
             f\<lparr>retry_candidate := True, pre_output_only := True, streaming_failure := True,
               legacy_retryable := True, legacy_retry_delay := Some (from_secs 2)\<rparr>
         | _ \<Rightarrow> f)"

lemma http_facts_simps [simp]:
  "http_status (http_facts s g t c) = s"
  by (simp add: http_facts_def)

lemma http_status_api [simp]:
  "http_status (provider_api_error_facts s) = valid_status_or_bad_gateway s"
  by (simp add: provider_api_error_facts_def Let_def)

subsection \<open>Properties\<close>

text \<open>
  An error response survives the trip through the error type.  The shared mapper turns an
  upstream error status into an error whose own HTTP status is the same; the extended mapper
  does so except for 408 (reported as 504), 413 (as 400) and 502 (as 503).  A status that is
  no error status becomes 502, whichever mapper is used.
\<close>

theorem http_status_round_trip:
  "http_status (provider_http_error_facts (default_http_error_mapper pm pr p s body))
     = valid_status_or_bad_gateway s
   \<and> http_status (provider_http_error_facts (extended_http_error_mapper p s body))
     = (if s = 408 then 504 else if s = 413 then 400 else if s = 502 then 503
        else valid_status_or_bad_gateway s)"
proof -
  have "http_status (provider_http_error_facts (default_http_error_mapper pm pr p s body))
     = valid_status_or_bad_gateway s"
    by (simp add: default_http_error_mapper_def api_error_def rate_limit_error_def
        valid_status_or_bad_gateway_def Let_def)
  moreover have "http_status (provider_http_error_facts (extended_http_error_mapper p s body))
     = (if s = 408 then 504 else if s = 413 then 400 else if s = 502 then 503
        else valid_status_or_bad_gateway s)"
    by (simp add: extended_http_error_mapper_def api_error_def rate_limit_error_def
        valid_status_or_bad_gateway_def)
  ultimately show ?thesis by blast
qed

text \<open>
  The facts are consistent: a legacy-retryable error is a retry candidate, every error but
  an upstream 408 is a candidate exactly when it is legacy-retryable, a hint to wait comes with
  rate limits only and is the upstream's delay, a cancelled operation is never a candidate, and
  only the internally constructed Bedrock error carries its provenance.
\<close>

theorem failure_facts_consistent:
  "case failure_facts_of e of f \<Rightarrow>
     (retry_candidate f = (legacy_retryable f \<or> (\<exists>p msg. e = ApiError p 408 msg)))
     \<and> (hint_retry_after f = (case e of RateLimit _ _ ra _ _ _ \<Rightarrow> map_option from_secs ra | _ \<Rightarrow> None))
     \<and> \<not> (ff_cancelled f \<and> retry_candidate f)
     \<and> (modeled_bedrock_retry f = (\<exists>msg. e = bedrock_modeled_retry_error msg))
     \<and> (\<forall>p s msg. \<not> modeled_bedrock_retry (failure_facts_of (api_error p s msg)))"
proof -
  have "\<not> modeled_bedrock_retry (failure_facts_of (api_error p s msg))" for p s msg
    by (cases p) (simp_all add: failure_facts_of_def base_facts_def api_error_def
        is_bedrock_modeled_retry_error_def Let_def)
  then show ?thesis
    by (cases e) (auto simp: failure_facts_of_def base_facts_def is_bedrock_modeled_retry_error_def
        bedrock_modeled_retry_error_def Let_def)
qed

end
