(* ===== verification/Fallback.thy ===== *)
theory Fallback
  imports Aliases
begin

section \<open>Fallback configuration\<close>

text \<open>
  Models \<^verbatim>\<open>src/core/router/fallback.rs\<close> and the fallback lookups of
  \<^verbatim>\<open>src/core/router/unified.rs\<close>.

  A fallback map is an association list with distinct keys whose order is the order in which
  the hash map is iterated.  The stack of the validation's depth-first search has its top at
  the head of the list.
\<close>

datatype fallback_type = General | ContextWindow | ContentPolicy | RateLimitFallback

type_synonym fallback_map = "(string \<times> string list) list"

record fallback_config =
  general :: fallback_map
  context_window :: fallback_map
  content_policy :: fallback_map
  rate_limit :: fallback_map

definition new_fallback_config :: fallback_config where
  "new_fallback_config = \<lparr>general = [], context_window = [], content_policy = [], rate_limit = []\<rparr>"

text \<open>\<open>HashMap::insert\<close>: an existing key keeps its place, its value is replaced.\<close>

fun map_insert :: "'k \<Rightarrow> 'v \<Rightarrow> ('k \<times> 'v) list \<Rightarrow> ('k \<times> 'v) list" where
  "map_insert k v [] = [(k, v)]"
| "map_insert k v ((k', v') # al) = (if k = k' then (k, v) # al else (k', v') # map_insert k v al)"

lemma map_of_map_insert [simp]: "map_of (map_insert k v al) = (map_of al)(k \<mapsto> v)"
  by (induction al rule: map_insert.induct) (auto simp: fun_eq_iff)

lemma map_insert_keys: "fst ` set (map_insert k v al) = insert k (fst ` set al)"
  by (induction al rule: map_insert.induct) auto

lemma map_insert_distinct: "distinct (map fst al) \<Longrightarrow> distinct (map fst (map_insert k v al))"
  by (induction al rule: map_insert.induct) (auto simp: map_insert_keys)

definition add_general :: "string \<Rightarrow> string list \<Rightarrow> fallback_config \<Rightarrow> fallback_config" where
  "add_general m fs c = c\<lparr>general := map_insert m fs (general c)\<rparr>"

definition add_context_window :: "string \<Rightarrow> string list \<Rightarrow> fallback_config \<Rightarrow> fallback_config" where
  "add_context_window m fs c = c\<lparr>context_window := map_insert m fs (context_window c)\<rparr>"

definition add_content_policy :: "string \<Rightarrow> string list \<Rightarrow> fallback_config \<Rightarrow> fallback_config" where
  "add_content_policy m fs c = c\<lparr>content_policy := map_insert m fs (content_policy c)\<rparr>"

definition add_rate_limit :: "string \<Rightarrow> string list \<Rightarrow> fallback_config \<Rightarrow> fallback_config" where
  "add_rate_limit m fs c = c\<lparr>rate_limit := map_insert m fs (rate_limit c)\<rparr>"

definition overwrite :: "fallback_config \<Rightarrow> fallback_config \<Rightarrow> fallback_config" where
  "overwrite other c =
     c\<lparr>general := general other, context_window := context_window other,
       content_policy := content_policy other, rate_limit := rate_limit other\<rparr>"

definition fallback_map_of :: "fallback_type \<Rightarrow> fallback_config \<Rightarrow> fallback_map" where
  "fallback_map_of t c =
     (case t of
        General \<Rightarrow> general c
      | ContextWindow \<Rightarrow> context_window c
      | ContentPolicy \<Rightarrow> content_policy c
      | RateLimitFallback \<Rightarrow> rate_limit c)"

definition get_fallbacks_for_type :: "string \<Rightarrow> fallback_type \<Rightarrow> fallback_config \<Rightarrow> string list" where
  "get_fallbacks_for_type name t c =
     (case map_of (fallback_map_of t c) name of Some fs \<Rightarrow> fs | None \<Rightarrow> [])"

definition get_fallbacks ::
  "alias_map \<Rightarrow> fallback_config \<Rightarrow> string \<Rightarrow> fallback_type \<Rightarrow> string list" where
  "get_fallbacks aliases c name t =
     (let resolved = resolve_model_name aliases name;
          fallbacks = get_fallbacks_for_type resolved t c
      in if fallbacks = [] \<and> t \<noteq> General then get_fallbacks_for_type resolved General c
         else fallbacks)"

definition get_models_with_fallbacks_for_snapshot ::
  "alias_map \<Rightarrow> fallback_config \<Rightarrow> string \<Rightarrow> fallback_type \<Rightarrow> string list" where
  "get_models_with_fallbacks_for_snapshot aliases c name t =
     (let resolved = resolve_model_name aliases name;
          fallbacks = get_fallbacks_for_type resolved t c;
          fallbacks = (if fallbacks = [] \<and> t \<noteq> General
                       then get_fallbacks_for_type resolved General c else fallbacks)
      in [resolved] @ fallbacks)"

subsection \<open>Validation\<close>

definition fallback_targets :: "fallback_map \<Rightarrow> string \<Rightarrow> string list" where
  "fallback_targets al node = (case map_of al node of Some ts \<Rightarrow> ts | None \<Rightarrow> [])"

definition cycle_message :: "string \<Rightarrow> string \<Rightarrow> string \<Rightarrow> string" where
  "cycle_message label start target =
     label @ '': cycle involving '' @ quoted start @ '' -> '' @ quoted target"

fun dfs_targets ::
  "string \<Rightarrow> string \<Rightarrow> string list \<Rightarrow> string set \<times> string list \<times> string list
     \<Rightarrow> string set \<times> string list \<times> string list" where
  "dfs_targets label start [] acc = acc"
| "dfs_targets label start (t # ts) (visited, stack, errors) =
     (if t \<in> visited
      then dfs_targets label start ts (visited, stack, errors @ [cycle_message label start t])
      else dfs_targets label start ts (insert t visited, t # stack, errors))"

lemma dfs_targets_visited:
  "dfs_targets label start ts (V, stk, errs) = (V', stk', errs') \<Longrightarrow> V' = V \<union> set ts"
  by (induction ts arbitrary: V stk errs) (auto split: if_splits)

lemma dfs_targets_stack:
  "dfs_targets label start ts (V, stk, errs) = (V', stk', errs') \<Longrightarrow>
     set stk' = set stk \<union> (V' - V) \<and> (V' = V \<longrightarrow> stk' = stk)"
proof (induction ts arbitrary: V stk errs)
  case (Cons t ts)
  then show ?case
    using dfs_targets_visited [OF Cons.prems] by (cases "t \<in> V") (fastforce+)
qed simp

definition all_targets :: "fallback_map \<Rightarrow> string set" where
  "all_targets al = \<Union> (set ` snd ` set al)"

lemma fallback_targets_all: "set (fallback_targets al node) \<subseteq> all_targets al"
proof (cases "map_of al node")
  case (Some ts)
  then have "(node, ts) \<in> set al" by (rule map_of_SomeD)
  with Some show ?thesis by (force simp: fallback_targets_def all_targets_def)
qed (simp add: fallback_targets_def)

lemma finite_all_targets [simp]: "finite (all_targets al)"
  by (simp add: all_targets_def)

function dfs ::
  "fallback_map \<Rightarrow> string \<Rightarrow> string \<Rightarrow> string set \<Rightarrow> string list \<Rightarrow> string list \<Rightarrow> string list" where
  "dfs al label start visited [] errors = errors"
| "dfs al label start visited (node # stack) errors =
     (case dfs_targets label start (fallback_targets al node) (visited, stack, errors) of
        (visited', stack', errors') \<Rightarrow> dfs al label start visited' stack' errors')"
  by pat_completeness auto

termination
proof (relation "inv_image (less_than <*lex*> less_than)
    (\<lambda>(al, label, start, V, stk, errs). (card (all_targets al - V), length stk))")
  fix al label start V node stk errs V' y stk' errs'
  assume "(V', y) = dfs_targets label start (fallback_targets al node) (V, stk, errs)"
    "(stk', errs') = y"
  then have step: "dfs_targets label start (fallback_targets al node) (V, stk, errs) = (V', stk', errs')"
    by simp
  note V' = dfs_targets_visited [OF step]
  show "((al, label, start, V', stk', errs'), al, label, start, V, node # stk, errs)
      \<in> inv_image (less_than <*lex*> less_than)
        (\<lambda>(al, label, start, V, stk, errs). (card (all_targets al - V), length stk))"
  proof (cases "V' = V")
    case True
    then show ?thesis using dfs_targets_stack [OF step] by simp
  next
    case False
    then have "all_targets al - V' \<subset> all_targets al - V"
      using V' fallback_targets_all [of al node] by blast
    then have "card (all_targets al - V') < card (all_targets al - V)"
      by (intro psubset_card_mono) simp_all
    then show ?thesis by simp
  qed
qed (simp add: wf_inv_image wf_lex_prod)

definition validate_map :: "string \<times> fallback_map \<Rightarrow> string list" where
  "validate_map lm =
     (case lm of (label, al) \<Rightarrow> concat (map (\<lambda>(start, _). dfs al label start {start} [start] []) al))"

definition validate_fallbacks :: "fallback_config \<Rightarrow> string list + unit" where
  "validate_fallbacks c =
     (let errors = concat (map validate_map
            [(''general'', general c), (''context_window'', context_window c),
             (''content_policy'', content_policy c), (''rate_limit'', rate_limit c)])
      in if errors = [] then Inr () else Inl errors)"

subsection \<open>What validation shows\<close>

definition fallback_graph :: "fallback_map \<Rightarrow> (string \<times> string) set" where
  "fallback_graph al = {(a, b). b \<in> set (fallback_targets al a)}"

lemma dfs_targets_errors:
  "dfs_targets label start ts (V, stk, errs) = (V', stk', errs') \<Longrightarrow>
     (\<exists>es. errs' = errs @ es) \<and> (start \<in> V \<longrightarrow> errs' = [] \<longrightarrow> start \<notin> set ts)"
proof (induction ts arbitrary: V stk errs)
  case (Cons t ts)
  show ?case
  proof (cases "t \<in> V")
    case True
    with Cons show ?thesis by fastforce
  next
    case False
    with Cons.prems Cons.IH [of "insert t V" "t # stk" errs] show ?thesis by auto
  qed
qed simp

lemma dfs_errors_grow: "\<exists>es. dfs al label start V stk errs = errs @ es"
proof (induction al label start V stk errs rule: dfs.induct)
  case (2 al label start V node stk errs)
  obtain V' stk' errs' where
    step: "dfs_targets label start (fallback_targets al node) (V, stk, errs) = (V', stk', errs')"
    by (metis prod_cases3)
  from "2.IH" [OF step [symmetric] refl] dfs_targets_errors [OF step] show ?case
    by (auto simp: step)
qed simp

text \<open>
  Without an error, the visited names are closed under the fallbacks and none of them falls
  back to the start.  \<open>P\<close> are the names taken from the stack so far.
\<close>

lemma dfs_no_errors:
  assumes "dfs al label start V stk errs = []" "start \<in> V" "V = P \<union> set stk"
    and "\<forall>n \<in> P. set (fallback_targets al n) \<subseteq> V - {start}"
  shows "\<exists>Q. start \<in> Q \<and> (\<forall>n \<in> Q. set (fallback_targets al n) \<subseteq> Q - {start})"
  using assms
proof (induction al label start V stk errs arbitrary: P rule: dfs.induct)
  case (1 al label start V errs)
  then show ?case by auto
next
  case (2 al label start V node stk errs)
  obtain V' stk' errs' where
    step: "dfs_targets label start (fallback_targets al node) (V, stk, errs) = (V', stk', errs')"
    by (metis prod_cases3)
  have rest: "dfs al label start V' stk' errs' = []"
    using "2.prems"(1) by (simp add: step)
  then have "errs' = []"
    using dfs_errors_grow [of al label start V' stk' errs'] by auto
  with dfs_targets_errors [OF step] "2.prems"(2)
  have new: "start \<notin> set (fallback_targets al node)" by blast
  note V' = dfs_targets_visited [OF step]
  show ?case
  proof (rule "2.IH" [OF step [symmetric] refl rest])
    show "start \<in> V'" using "2.prems"(2) V' by simp
    show "V' = insert node P \<union> set stk'"
      using dfs_targets_stack [OF step] "2.prems"(3) V' by auto
    show "\<forall>n \<in> insert node P. set (fallback_targets al n) \<subseteq> V' - {start}"
      using "2.prems"(4) new V' by auto
  qed
qed

lemma dfs_start_acyclic:
  assumes "dfs al label start {start} [start] [] = []"
  shows "(start, start) \<notin> (fallback_graph al)\<^sup>+"
proof
  assume cyc: "(start, start) \<in> (fallback_graph al)\<^sup>+"
  have "\<exists>Q. start \<in> Q \<and> (\<forall>n \<in> Q. set (fallback_targets al n) \<subseteq> Q - {start})"
    by (rule dfs_no_errors [OF assms, of "{}"]) simp_all
  then obtain Q where
    Q: "start \<in> Q" "\<forall>n \<in> Q. set (fallback_targets al n) \<subseteq> Q - {start}" by blast
  have "b \<in> Q - {start}" if "(start, b) \<in> (fallback_graph al)\<^sup>+" for b
    using that
  proof (induction rule: trancl_induct)
    case (base y)
    then show ?case using Q unfolding fallback_graph_def by blast
  next
    case (step y z)
    then show ?case using Q unfolding fallback_graph_def by blast
  qed
  from this [OF cyc] show False by simp
qed

lemma validate_map_acyclic:
  assumes "validate_map (label, al) = []"
  shows "acyclic (fallback_graph al)"
  unfolding acyclic_def
proof
  fix x
  show "(x, x) \<notin> (fallback_graph al)\<^sup>+"
  proof (cases "x \<in> fst ` set al")
    case True
    then have "dfs al label x {x} [x] [] = []"
      using assms by (auto simp: validate_map_def)
    then show ?thesis by (rule dfs_start_acyclic)
  next
    case False
    then have "fallback_targets al x = []"
      by (simp add: fallback_targets_def map_of_eq_None_iff [THEN iffD2])
    then show ?thesis
      by (auto simp: fallback_graph_def dest: tranclD)
  qed
qed

subsection \<open>Properties of fallbacks\<close>

text \<open>
  C39.  Validation always ends, and a configuration it accepts has no cycle in any of its
  four maps: following fallbacks of one kind from any model never leads back to it.
\<close>

theorem validate_fallbacks_sound:
  assumes "validate_fallbacks c = Inr ()"
  shows "\<forall>t. acyclic (fallback_graph (fallback_map_of t c))"
proof
  fix t
  show "acyclic (fallback_graph (fallback_map_of t c))"
    using assms
    by (cases t)
      (auto simp: validate_fallbacks_def fallback_map_of_def Let_def intro: validate_map_acyclic
        split: if_splits)
qed

definition example_fallbacks :: fallback_config where
  "example_fallbacks = add_general ''a'' [''b'', ''c''] (add_general ''b'' [''d''] new_fallback_config)"

theorem validate_fallbacks_sound_witness:
  "\<forall>t. acyclic (fallback_graph (fallback_map_of t example_fallbacks))"
  by (rule validate_fallbacks_sound)
    (simp add: example_fallbacks_def add_general_def new_fallback_config_def validate_fallbacks_def
      validate_map_def fallback_targets_def)


text \<open>
  The models to try start with the resolved model itself; the fallbacks configured for
  the kind of failure follow, or the general ones when there are none of that kind.
\<close>

lemma models_with_fallbacks_priority:
  "get_models_with_fallbacks_for_snapshot aliases c name t =
     resolve_model_name aliases name # get_fallbacks aliases c name t
   \<and> get_fallbacks aliases c name t =
       (let own = get_fallbacks_for_type (resolve_model_name aliases name) t c
        in if own \<noteq> [] then own
           else get_fallbacks_for_type (resolve_model_name aliases name) General c)"
  by (auto simp: get_models_with_fallbacks_for_snapshot_def get_fallbacks_def Let_def)

end
