(* ===== verification/Retry.thy ===== *)
theory Retry
  imports Deployment Router_Types Provider_Error Fallback
begin

section \<open>Retry policy and error classification\<close>

text \<open>
  Models \<^verbatim>\<open>src/core/router/retry_policy.rs\<close> and \<^verbatim>\<open>src/core/router/execution.rs\<close>.

  Durations are nanoseconds.  The deployment-specific schedule computes with IEEE doubles and
  \<open>powf\<close>, whose results the standard library does not determine: those operations are the
  fields of a record of float operations over an arbitrary type, and what is shown holds for
  all of them.
\<close>

subsection \<open>Classification\<close>

datatype budget_retry_scope = BudgetProvider | BudgetModel

definition retryable_budget_scope :: "provider_error \<Rightarrow> budget_retry_scope option" where
  "retryable_budget_scope e =
     (case e of
        QuotaExceeded p msg \<Rightarrow>
          if static_text p = ''budget'' \<and> starts_with ''provider '' msg then Some BudgetProvider
          else if static_text p = ''budget'' \<and> starts_with ''model '' msg then Some BudgetModel
          else None
      | _ \<Rightarrow> None)"

definition infer_fallback_type :: "provider_error \<Rightarrow> fallback_type" where
  "infer_fallback_type e =
     (case e of
        ContextLengthExceeded _ _ _ \<Rightarrow> ContextWindow
      | ContentFiltered _ _ _ _ \<Rightarrow> ContentPolicy
      | RateLimit _ _ _ _ _ _ \<Rightarrow> RateLimitFallback
      | _ \<Rightarrow> General)"

definition infer_cooldown_reason :: "provider_error \<Rightarrow> cooldown_reason" where
  "infer_cooldown_reason e =
     (case e of
        RateLimit _ _ _ _ _ _ \<Rightarrow> RateLimitReason
      | Authentication _ _ \<Rightarrow> AuthError
      | ModelNotFound _ _ \<Rightarrow> NotFound
      | DeploymentError _ _ _ \<Rightarrow> NotFound
      | Timeout _ _ \<Rightarrow> TimeoutReason
      | ApiError _ s _ \<Rightarrow>
          if s = 401 \<or> s = 403 then AuthError
          else if s = 404 then NotFound
          else if s = 408 then TimeoutReason
          else if s = 429 then RateLimitReason
          else ConsecutiveFailures
      | _ \<Rightarrow> ConsecutiveFailures)"

definition router_provider :: static_str where
  "router_provider = Static ''router''"

definition router_error_to_provider_error :: "router_error \<Rightarrow> provider_error" where
  "router_error_to_provider_error e =
     (case e of
        InvalidConfiguration msg \<Rightarrow> Configuration router_provider msg
      | RouterModelNotFound msg \<Rightarrow> ModelNotFound router_provider msg
      | NoAvailableDeployment msg \<Rightarrow>
          ProviderUnavailable router_provider (''No available deployment: '' @ msg)
      | UnsupportedCapability m capability \<Rightarrow>
          InvalidRequest router_provider
            (''Model '' @ quoted m @ '' does not support capability '' @ capability)
      | AllDeploymentsInCooldown msg \<Rightarrow>
          ProviderUnavailable router_provider (''All deployments in cooldown: '' @ msg)
      | DeploymentNotFound msg \<Rightarrow> DeploymentError router_provider msg ''Deployment not found''
      | RateLimitExceeded _ \<Rightarrow> rate_limit_error router_provider (Some 60)
      | AliasCycle msg \<Rightarrow> Other router_provider (''Circular alias detected: '' @ msg)
      | FallbackCycle msg \<Rightarrow> Other router_provider (''Circular fallback chain detected: '' @ msg))"

text \<open>The text of an error is generated by a derive macro: it is the argument \<open>display\<close>.\<close>

definition provider_error_to_router_error ::
  "(provider_error \<Rightarrow> string) \<Rightarrow> provider_error \<Rightarrow> string \<Rightarrow> router_error" where
  "provider_error_to_router_error display e name =
     (case e of
        ModelNotFound _ m \<Rightarrow> RouterModelNotFound m
      | RateLimit _ _ _ _ _ _ \<Rightarrow> RateLimitExceeded name
      | _ \<Rightarrow> NoAvailableDeployment (name @ '': '' @ display e))"

record 'r execution_result =
  er_result :: 'r
  er_deployment_id :: string
  er_attempts :: u32
  er_model_used :: string
  er_used_fallback :: bool
  er_latency_us :: u64

definition build_execution_result ::
  "'r \<Rightarrow> string \<Rightarrow> u32 \<Rightarrow> string \<Rightarrow> bool \<Rightarrow> u64 \<Rightarrow> 'r execution_result" where
  "build_execution_result r i n m fb lat =
     \<lparr>er_result = r, er_deployment_id = i, er_attempts = n, er_model_used = m,
      er_used_fallback = fb, er_latency_us = lat\<rparr>"

subsection \<open>Delays\<close>

definition calculate_retry_delay :: "router_config \<Rightarrow> u32 \<Rightarrow> duration" where
  "calculate_retry_delay cfg attempt =
     (let base = max (retry_after_secs cfg) 1;
          delay = base * 2 ^ unat (saturating_sub attempt 1)
      in from_secs (min delay 30))"

record 'f float_ops =
  f_of_u64 :: "u64 \<Rightarrow> 'f"
  f_of_u32 :: "u32 \<Rightarrow> 'f"
  f_of_real :: "real \<Rightarrow> 'f"
  f_add :: "'f \<Rightarrow> 'f \<Rightarrow> 'f"
  f_mul :: "'f \<Rightarrow> 'f \<Rightarrow> 'f"
  f_div :: "'f \<Rightarrow> 'f \<Rightarrow> 'f"
  f_powf :: "'f \<Rightarrow> 'f \<Rightarrow> 'f"
  f_clamp :: "'f \<Rightarrow> 'f \<Rightarrow> 'f \<Rightarrow> 'f"
  f_le :: "'f \<Rightarrow> 'f \<Rightarrow> bool"
  f_is_finite :: "'f \<Rightarrow> bool"
  f_from_secs :: "'f \<Rightarrow> duration"

definition from_millis :: "u64 \<Rightarrow> duration" where
  "from_millis ms = unat ms * 1000000"

definition calculate_retry_delay_for_schedule_with_sample ::
  "'f float_ops \<Rightarrow> retry_schedule \<Rightarrow> u32 \<Rightarrow> 'f \<Rightarrow> duration" where
  "calculate_retry_delay_for_schedule_with_sample F sched attempt sample =
     (let jitter = f_add F (f_of_real F 1)
                     (f_mul F (f_of_real F (jitter_ratio sched))
                        (f_clamp F sample (f_of_real F (- 1)) (f_of_real F 1)))
      in if f_le F jitter (f_of_real F 0) then 0
         else
           (let exponent = f_of_u32 F (saturating_sub attempt 1);
                base_delay = f_mul F (f_of_u64 F (base_delay_ms sched))
                               (f_powf F (f_of_real F (backoff_multiplier sched)) exponent);
                delay_ms = f_mul F base_delay jitter;
                max_delay = from_millis (max_delay_ms sched)
            in if \<not> f_is_finite F delay_ms \<or> f_le F (f_of_u64 F (max_delay_ms sched)) delay_ms
               then max_delay
               else if f_le F delay_ms (f_of_real F 0) then 0
               else min (f_from_secs F (f_div F delay_ms (f_of_real F 1000))) max_delay))"

definition calculate_retry_delay_for_schedule ::
  "'f float_ops \<Rightarrow> 'f \<Rightarrow> retry_schedule \<Rightarrow> u32 \<Rightarrow> duration" where
  "calculate_retry_delay_for_schedule F draw sched attempt =
     calculate_retry_delay_for_schedule_with_sample F sched attempt
       (if jitter_ratio sched = 0 then f_of_real F 0 else draw)"

subsection \<open>The policy\<close>

datatype retry_operation = Unary | StreamingOp

datatype stream_retry_stage = NotStreaming | BeforeFirstChunk | AfterChunksEmitted

datatype request_idempotency = Idempotent | NonIdempotent

record retry_context =
  operation :: retry_operation
  stream_stage :: stream_retry_stage
  idempotency :: request_idempotency
  attempt :: u32
  max_attempts :: u32
  retry_budget_remaining :: u32
  deadline_remaining :: "duration option"

definition new_retry_context ::
  "retry_operation \<Rightarrow> stream_retry_stage \<Rightarrow> request_idempotency \<Rightarrow> u32 \<Rightarrow> u32 \<Rightarrow> retry_context" where
  "new_retry_context oper stage idem att max_att =
     \<lparr>operation = oper, stream_stage = stage, idempotency = idem, attempt = att,
      max_attempts = max_att, retry_budget_remaining = saturating_sub max_att att,
      deadline_remaining = None\<rparr>"

definition unary :: "u32 \<Rightarrow> u32 \<Rightarrow> retry_context" where
  "unary = new_retry_context Unary NotStreaming Idempotent"

definition unary_non_idempotent :: "u32 \<Rightarrow> u32 \<Rightarrow> retry_context" where
  "unary_non_idempotent = new_retry_context Unary NotStreaming NonIdempotent"

definition stream_pre_output :: "u32 \<Rightarrow> u32 \<Rightarrow> retry_context" where
  "stream_pre_output = new_retry_context StreamingOp BeforeFirstChunk Idempotent"

definition stream_after_chunks :: "u32 \<Rightarrow> u32 \<Rightarrow> retry_context" where
  "stream_after_chunks = new_retry_context StreamingOp AfterChunksEmitted NonIdempotent"

definition with_deadline_remaining :: "duration \<Rightarrow> retry_context \<Rightarrow> retry_context" where
  "with_deadline_remaining d ctx = ctx\<lparr>deadline_remaining := Some d\<rparr>"

datatype retry_decision_reason =
    RetryableFailure | AttemptsExhausted | RetryBudgetExhausted | NonIdempotentRequest
  | StreamAlreadyEmitted | DeadlineWouldExpire | NonRetryableFailure

record retry_decision =
  should_retry :: bool
  delay :: "duration option"
  reason :: retry_decision_reason

definition decision_retry :: "duration \<Rightarrow> retry_decision" where
  "decision_retry d = \<lparr>should_retry = True, delay = Some d, reason = RetryableFailure\<rparr>"

definition decision_stop :: "retry_decision_reason \<Rightarrow> retry_decision" where
  "decision_stop r = \<lparr>should_retry = False, delay = None, reason = r\<rparr>"

definition failure_is_retryable :: "failure_facts \<Rightarrow> retry_context \<Rightarrow> bool" where
  "failure_is_retryable facts ctx =
     (if ff_cancelled facts then False
      else if streaming_failure facts
      then operation ctx = StreamingOp \<and> stream_stage ctx = BeforeFirstChunk
      else retry_candidate facts)"

definition decide_with_fallback_delay ::
  "provider_error \<Rightarrow> retry_context \<Rightarrow> duration \<Rightarrow> retry_decision" where
  "decide_with_fallback_delay e ctx fallback_delay =
     (let facts = failure_facts_of e
      in if attempt ctx \<ge> max_attempts ctx then decision_stop AttemptsExhausted
         else if retry_budget_remaining ctx = 0 then decision_stop RetryBudgetExhausted
         else if stream_stage ctx = AfterChunksEmitted then decision_stop StreamAlreadyEmitted
         else if idempotency ctx = NonIdempotent then decision_stop NonIdempotentRequest
         else if \<not> failure_is_retryable facts ctx then decision_stop NonRetryableFailure
         else
           (let d = (case hint_retry_after facts of Some h \<Rightarrow> h | None \<Rightarrow> fallback_delay)
            in case deadline_remaining ctx of
                 Some remaining \<Rightarrow>
                   if d > remaining then decision_stop DeadlineWouldExpire else decision_retry d
               | None \<Rightarrow> decision_retry d))"

definition decide :: "router_config \<Rightarrow> provider_error \<Rightarrow> retry_context \<Rightarrow> retry_decision" where
  "decide cfg e ctx =
     decide_with_fallback_delay e ctx (calculate_retry_delay cfg (attempt ctx))"

definition decide_for_deployment ::
  "'f float_ops \<Rightarrow> 'f \<Rightarrow> router_config \<Rightarrow> deployment_config \<Rightarrow> provider_error \<Rightarrow> retry_context
     \<Rightarrow> retry_decision" where
  "decide_for_deployment F draw cfg dc e ctx =
     decide_with_fallback_delay e ctx
       (case retry_schedule dc of
          Some sched \<Rightarrow> calculate_retry_delay_for_schedule F draw sched (attempt ctx)
        | None \<Rightarrow> calculate_retry_delay cfg (attempt ctx))"

subsection \<open>Properties\<close>


lemma calculate_retry_delay_nat:
  assumes "max (unat (retry_after_secs cfg)) 1 * 2 ^ (unat att - 1) < 2 ^ 64"
  shows "calculate_retry_delay cfg att
     = min (max (unat (retry_after_secs cfg)) 1 * 2 ^ (unat att - 1)) 30 * 1000000000"
proof -
  let ?b = "max (retry_after_secs cfg) 1" and ?n = "unat att - 1"
  have b: "unat ?b = max (unat (retry_after_secs cfg)) 1"
    by (simp add: word_max_unat)
  have "(2 :: nat) ^ ?n \<le> max (unat (retry_after_secs cfg)) 1 * 2 ^ ?n"
    by simp
  then have "(2 :: nat) ^ ?n < 2 ^ 64"
    using assms by (rule order_le_less_trans)
  have pow: "unat ((2 :: u64) ^ ?n) = 2 ^ ?n"
    unfolding unat_two_power using \<open>2 ^ ?n < 2 ^ 64\<close> by simp
  have "unat (?b * 2 ^ ?n) = max (unat (retry_after_secs cfg)) 1 * 2 ^ ?n"
    using unat_mult_small [of ?b "2 ^ ?n"] assms unfolding b pow by simp
  then show ?thesis
    by (simp add: calculate_retry_delay_def Let_def from_secs_def word_min_unat
        unat_saturating_sub)
qed

text \<open>
  The router's own delay doubles with every attempt and is capped at 30 seconds, as long
  as the doubled value fits 64 bits.
\<close>

theorem calculate_retry_delay_doubles:
  assumes "max (unat (retry_after_secs cfg)) 1 * 2 ^ (unat att - 1) < 2 ^ 64"
  shows "calculate_retry_delay cfg att
     = min (max (unat (retry_after_secs cfg)) 1 * 2 ^ (unat att - 1)) 30 * 1000000000"
  using assms by (rule calculate_retry_delay_nat)

theorem calculate_retry_delay_doubles_witness:
  "calculate_retry_delay router_config_default 4 = 8 * 1000000000"
  using calculate_retry_delay_doubles [of router_config_default 4] by simp

text \<open>
  C22. Beyond that the delay is lost: from the 65th attempt on the doubled value wraps around to
  zero and the router retries without any pause.
\<close>

theorem calculate_retry_delay_wraps:
  assumes "65 \<le> unat att"
  shows "calculate_retry_delay cfg att = 0"
proof -
  have "(2 :: nat) ^ 64 dvd 2 ^ (unat att - 1)"
    using assms by (intro le_imp_power_dvd) simp
  then have "unat ((2 :: u64) ^ (unat att - 1)) = 0"
    unfolding unat_two_power by simp
  then have "(2 :: u64) ^ (unat att - 1) = 0"
    by (simp only: unat_eq_zero)
  moreover have "unat (saturating_sub att 1) = unat att - 1"
    by (simp add: unat_saturating_sub)
  ultimately have "max (retry_after_secs cfg) 1 * 2 ^ unat (saturating_sub att 1) = 0"
    by (simp only: mult_zero_right)
  then have "min (max (retry_after_secs cfg) 1 * 2 ^ unat (saturating_sub att 1)) 30 = 0"
    by (simp only:) (simp add: min_def)
  then show ?thesis
    unfolding calculate_retry_delay_def Let_def from_secs_def by (simp only: unsigned_0 mult_zero_left)
qed

theorem calculate_retry_delay_wraps_witness: "calculate_retry_delay router_config_default 65 = 0"
  by (rule calculate_retry_delay_wraps) simp

text \<open>
  A configured schedule never waits longer than its maximum, whatever the attempt, the
  jitter drawn and the results of the floating-point operations.
\<close>

theorem schedule_delay_bounded:
  "calculate_retry_delay_for_schedule F draw sched att \<le> unat (max_delay_ms sched) * 1000000"
  by (simp add: calculate_retry_delay_for_schedule_def from_millis_def Let_def
      calculate_retry_delay_for_schedule_with_sample_def)

text \<open>
  A router error that passes through the provider error type keeps its class where the
  caller depends on it: an unknown model stays an unknown model of the same name, an exceeded
  rate limit stays one (for the requested model), and everything else becomes the absence of
  an available deployment.
\<close>

theorem router_error_round_trip:
  "provider_error_to_router_error display (router_error_to_provider_error e) name =
     (case e of
        RouterModelNotFound m \<Rightarrow> RouterModelNotFound m
      | RateLimitExceeded _ \<Rightarrow> RateLimitExceeded name
      | _ \<Rightarrow> NoAvailableDeployment (name @ '': '' @ display (router_error_to_provider_error e)))"
  by (cases e) (simp_all add: provider_error_to_router_error_def router_error_to_provider_error_def
      rate_limit_error_def)

end
