(* ===== verification/Selection.thy ===== *)
theory Selection
  imports Admission Circuit Strategy Snapshot Retry
begin

section \<open>Selection of a deployment\<close>

text \<open>
  Models \<^verbatim>\<open>src/core/router/selection.rs\<close>: filtering of the candidates of a model, the
  choice by the routing strategy and the reservation with its retry over the remaining
  candidates.  The answers of the shared breaker and of the admission backend, the clock
  readings and the random draws are arguments.  The loop over the candidates is a
  \<open>partial_function (option)\<close>, \<open>None\<close> meaning that it runs forever.
\<close>

subsection \<open>Filtering the candidates\<close>

record selection_env =
  se_rounds :: "string \<Rightarrow> observe_round \<times> observe_round"
  se_now :: u64
  se_clock :: "string \<Rightarrow> clock"
  se_draws :: "nat \<Rightarrow> random"
  se_admission :: "nat \<Rightarrow> admission_env"

definition reached :: "'a::linorder option \<Rightarrow> 'a \<Rightarrow> bool" where
  "reached cap current = (case cap of Some limit \<Rightarrow> current \<ge> limit | None \<Rightarrow> False)"

definition routing_candidate ::
  "router_config \<Rightarrow> selection_env \<Rightarrow> string \<Rightarrow> 'p deployment
     \<Rightarrow> routing_context option \<times> 'p deployment" where
  "routing_candidate rc env i d =
     (case deployment_is_selectable_with_observer rc (fst (se_rounds env i)) (snd (se_rounds env i))
             (state d) of
        (False, s) \<Rightarrow> (None, d\<lparr>state := s\<rparr>)
      | (True, s) \<Rightarrow>
          (let active = active_requests s
           in if reached (max_parallel_requests (config d)) active then (None, d\<lparr>state := s\<rparr>)
              else
                (let (minute, s) = minute_counters (se_now env) (se_clock env i 0) s
                 in if reached (rpm_limit (config d)) (mc_rpm minute) then (None, d\<lparr>state := s\<rparr>)
                    else
                      (let (tpm, s) = admission_tpm (se_now env) (se_clock env i 1) s
                       in if reached (tpm_limit (config d)) tpm then (None, d\<lparr>state := s\<rparr>)
                          else (Some \<lparr>deployment_id = i, ctx_weight = weight (config d),
                                      ctx_priority = priority (config d),
                                      ctx_active_requests = active, ctx_tpm_current = tpm,
                                      ctx_tpm_limit = tpm_limit (config d),
                                      ctx_rpm_current = mc_rpm minute,
                                      ctx_rpm_limit = rpm_limit (config d),
                                      ctx_avg_latency_us = avg_latency_us s\<rparr>,
                                d\<lparr>state := s\<rparr>)))))"

text \<open>The counts of existing and of matching deployments, the contexts and the new states.\<close>

fun filter_candidates ::
  "router_config \<Rightarrow> selection_env \<Rightarrow> ('p deployment \<Rightarrow> bool) \<Rightarrow> string \<Rightarrow> string list
     \<Rightarrow> (string \<rightharpoonup> 'p deployment) \<Rightarrow> nat \<times> nat \<times> routing_context list \<times> (string \<rightharpoonup> 'p deployment)" where
  "filter_candidates rc env is_candidate resolved [] ds = (0, 0, [], ds)"
| "filter_candidates rc env is_candidate resolved (i # ids) ds =
     (case ds i of
        None \<Rightarrow> filter_candidates rc env is_candidate resolved ids ds
      | Some d \<Rightarrow>
          if model_name d \<noteq> resolved then filter_candidates rc env is_candidate resolved ids ds
          else if \<not> is_candidate d
          then (let (e, m, ctxs, ds) = filter_candidates rc env is_candidate resolved ids ds
                in (e + 1, m, ctxs, ds))
          else
            (let (ctx, d') = routing_candidate rc env i d;
                 (e, m, ctxs, ds) = filter_candidates rc env is_candidate resolved ids (ds(i \<mapsto> d'))
             in (e + 1, m + 1, (case ctx of Some c \<Rightarrow> c # ctxs | None \<Rightarrow> ctxs), ds)))"

subsection \<open>Choosing and reserving\<close>

fun position_of :: "string \<Rightarrow> routing_context list \<Rightarrow> nat option" where
  "position_of i [] = None"
| "position_of i (c # cs) = (if deployment_id c = i then Some 0 else map_option Suc (position_of i cs))"

definition swap_remove :: "nat \<Rightarrow> 'a list \<Rightarrow> 'a list" where
  "swap_remove n xs = (if n = length xs - 1 then butlast xs else (butlast xs)[n := last xs])"

type_synonym 'p selection_result =
  "(router_error + deployment_lease) \<times> admission_command list \<times> (string \<rightharpoonup> 'p deployment)
     \<times> rr_counters"

partial_function (option) reserve_loop ::
  "router_config \<Rightarrow> admission_backend \<Rightarrow> selection_env \<Rightarrow> ('p deployment \<Rightarrow> u64) \<Rightarrow> string \<Rightarrow> string \<Rightarrow> nat
     \<Rightarrow> routing_context list \<Rightarrow> admission_command list \<Rightarrow> (string \<rightharpoonup> 'p deployment) \<Rightarrow> rr_counters
     \<Rightarrow> 'p selection_result option" where
  "reserve_loop rc backend env est name resolved k ctxs sent ds counters =
     (if ctxs = [] then Some (Inl (NoAvailableDeployment name), sent, ds, counters)
      else
        (case select_from_routing_contexts (routing_strategy rc) resolved (se_draws env k) ctxs
                counters of
           (None, counters) \<Rightarrow> Some (Inl (NoAvailableDeployment name), sent, ds, counters)
         | (Some i, counters) \<Rightarrow>
             (case ds i of
                None \<Rightarrow> reserve_loop rc backend env est name resolved (Suc k) ctxs sent ds counters
              | Some d \<Rightarrow>
                  (case try_reserve_deployment backend (se_admission env k) d resolved (est d) of
                     (Inr hold, cmds, s) \<Rightarrow>
                       Some (Inr (new_lease i hold), sent @ cmds, ds(i \<mapsto> d\<lparr>state := s\<rparr>), counters)
                   | (Inl _, cmds, s) \<Rightarrow>
                       (case position_of i ctxs of
                          None \<Rightarrow>
                            Some (Inl (NoAvailableDeployment name), sent @ cmds,
                                  ds(i \<mapsto> d\<lparr>state := s\<rparr>), counters)
                        | Some pos \<Rightarrow>
                            reserve_loop rc backend env est name resolved (Suc k)
                              (swap_remove pos ctxs) (sent @ cmds) (ds(i \<mapsto> d\<lparr>state := s\<rparr>))
                              counters)))))"

definition select_deployment_matching ::
  "router_config \<Rightarrow> admission_backend \<Rightarrow> selection_env \<Rightarrow> ('p, 'c) routing_snapshot \<Rightarrow> string
     \<Rightarrow> ('p deployment \<Rightarrow> bool) \<Rightarrow> router_error option \<Rightarrow> ('p deployment \<Rightarrow> u64) \<Rightarrow> rr_counters
     \<Rightarrow> 'p selection_result option" where
  "select_deployment_matching rc backend env sn name is_candidate no_match est counters =
     (let resolved = resolve_model_name (model_aliases sn) name
      in case model_index sn resolved of
           None \<Rightarrow> Some (Inl (RouterModelNotFound name), [], deployments sn, counters)
         | Some ids \<Rightarrow>
             if ids = [] then Some (Inl (RouterModelNotFound name), [], deployments sn, counters)
             else
               (case filter_candidates rc env is_candidate resolved ids (deployments sn) of
                  (existing, matching, ctxs, ds) \<Rightarrow>
                    if ctxs = []
                    then Some (Inl (if existing > 0 \<and> matching = 0 \<and> no_match \<noteq> None
                                    then the no_match else NoAvailableDeployment name), [], ds, counters)
                    else reserve_loop rc backend env est name resolved 0 ctxs [] ds counters))"

text \<open>Selection for a capability: \<open>supports\<close> and \<open>missing_mapping\<close> ask the provider.\<close>

definition no_matching_candidate_error ::
  "('p deployment \<Rightarrow> bool) \<Rightarrow> string \<Rightarrow> ('p, 'c) routing_snapshot \<Rightarrow> string \<Rightarrow> router_error" where
  "no_matching_candidate_error missing_mapping capability sn name =
     (let resolved = resolve_model_name (model_aliases sn) name;
          candidates = List.map_filter (deployments sn) (get_deployments_for_model sn name);
          missing = filter missing_mapping candidates
      in if candidates \<noteq> [] \<and> length candidates = length missing
         then InvalidConfiguration
                (''model '' @ quoted name @ '' requires settings.model_identity_mappings.'' @ resolved
                 @ ''.capability_catalog_model before capability routing'')
         else UnsupportedCapability name capability)"

definition select_for_capability ::
  "('p deployment \<Rightarrow> bool) \<Rightarrow> ('p deployment \<Rightarrow> bool) \<Rightarrow> string \<Rightarrow> router_config \<Rightarrow> admission_backend
     \<Rightarrow> selection_env \<Rightarrow> ('p, 'c) routing_snapshot \<Rightarrow> string \<Rightarrow> ('p deployment \<Rightarrow> bool)
     \<Rightarrow> ('p deployment \<Rightarrow> u64) \<Rightarrow> rr_counters \<Rightarrow> 'p selection_result option" where
  "select_for_capability supports missing_mapping capability rc backend env sn name is_candidate est
       counters =
     select_deployment_matching rc backend env sn name (\<lambda>d. supports d \<and> is_candidate d)
       (Some (no_matching_candidate_error missing_mapping capability sn name)) est counters"

subsection \<open>The candidates that pass the filter\<close>

definition identity_of :: "'p deployment \<Rightarrow> string \<times> 'p \<times> string \<times> string \<times> deployment_config \<times> string list"
  where
  "identity_of d = (dep_id d, provider d, model d, model_name d, config d, tags d)"

definition only_states_change ::
  "(string \<rightharpoonup> 'p deployment) \<Rightarrow> (string \<rightharpoonup> 'p deployment) \<Rightarrow> bool" where
  "only_states_change ds ds' \<longleftrightarrow> map_option identity_of \<circ> ds' = map_option identity_of \<circ> ds"

lemma identity_of_state [simp]: "identity_of (d\<lparr>state := s\<rparr>) = identity_of d"
  by (simp add: identity_of_def)

lemma only_states_change_refl [simp]: "only_states_change ds ds"
  by (simp add: only_states_change_def)

lemma only_states_change_trans:
  "only_states_change a b \<Longrightarrow> only_states_change b c \<Longrightarrow> only_states_change a c"
  by (simp add: only_states_change_def)

lemma only_states_change_upd:
  "ds i = Some d \<Longrightarrow> identity_of d' = identity_of d \<Longrightarrow> only_states_change ds (ds(i \<mapsto> d'))"
  by (auto simp: only_states_change_def fun_eq_iff)

lemma only_states_change_at:
  "only_states_change ds ds' \<Longrightarrow> map_option identity_of (ds' i) = map_option identity_of (ds i)"
  by (simp add: only_states_change_def fun_eq_iff)

lemma only_states_change_dom: "only_states_change ds ds' \<Longrightarrow> dom ds' = dom ds"
proof (rule set_eqI)
  fix i
  show "only_states_change ds ds' \<Longrightarrow> i \<in> dom ds' \<longleftrightarrow> i \<in> dom ds"
    by (drule only_states_change_at [of _ _ i]) (cases "ds i"; cases "ds' i"; simp add: dom_def)
qed

lemma routing_candidate_identity [simp]: "identity_of (snd (routing_candidate rc env i d)) = identity_of d"
  by (simp add: routing_candidate_def Let_def split: prod.split bool.split)

lemma routing_candidate_id: "fst (routing_candidate rc env i d) = Some c \<Longrightarrow> deployment_id c = i"
  by (auto simp: routing_candidate_def Let_def split: prod.splits bool.splits if_splits)

text \<open>What the filter promises of a context: its deployment passed every test at its state.\<close>

lemma routing_candidate_passed:
  assumes "fst (routing_candidate rc env i d) = Some c"
  shows "fst (deployment_is_selectable_with_observer rc (fst (se_rounds env i))
                (snd (se_rounds env i)) (state d))"
    and "\<not> reached (max_parallel_requests (config d)) (ctx_active_requests c)"
    and "\<not> reached (rpm_limit (config d)) (ctx_rpm_current c)"
    and "\<not> reached (tpm_limit (config d)) (ctx_tpm_current c)"
  using assms
  by (auto simp: routing_candidate_def Let_def split: prod.splits bool.splits if_splits)

definition of_group :: "(string \<rightharpoonup> 'p deployment) \<Rightarrow> string \<Rightarrow> string \<Rightarrow> bool" where
  "of_group ds m i \<longleftrightarrow> map_option model_name (ds i) = Some m"

definition matching ::
  "(string \<rightharpoonup> 'p deployment) \<Rightarrow> ('p deployment \<Rightarrow> bool) \<Rightarrow> string \<Rightarrow> string \<Rightarrow> bool" where
  "matching ds P m i \<longleftrightarrow> of_group ds m i \<and> P (the (ds i))"

lemma filter_candidates_states:
  "filter_candidates rc env P m ids ds = (e, k, ctxs, ds') \<Longrightarrow>
   only_states_change ds ds' \<and> ids_of ctxs \<subseteq> set ids \<inter> dom ds"
proof (induction ids arbitrary: ds e k ctxs)
  case (Cons i ids)
  show ?case
  proof (cases "matching ds P m i")
    case False
    then obtain e' k' where "filter_candidates rc env P m ids ds = (e', k', ctxs, ds')"
      using Cons.prems
      by (auto simp: matching_def of_group_def Let_def split: option.splits if_splits prod.splits)
    from Cons.IH [OF this] show ?thesis by auto
  next
    case True
    then obtain d where d: "ds i = Some d" "model_name d = m" "P d"
      by (auto simp: matching_def of_group_def)
    let ?r = "routing_candidate rc env i d"
    obtain e' k' cs where rest: "filter_candidates rc env P m ids (ds(i \<mapsto> snd ?r)) = (e', k', cs, ds')"
      and ctxs: "ctxs = (case fst ?r of Some c \<Rightarrow> c # cs | None \<Rightarrow> cs)"
      using Cons.prems d by (auto simp: Let_def split: prod.splits)
    have first: "only_states_change ds (ds(i \<mapsto> snd ?r))"
      by (rule only_states_change_upd [where ds = ds and i = i, OF d(1)]) simp
    note ih = Cons.IH [OF rest, unfolded only_states_change_dom [OF first]]
    from ih have "ids_of cs \<subseteq> set ids \<inter> dom ds" by blast
    moreover from ih have "only_states_change ds ds'"
      by (blast intro: only_states_change_trans [OF first])
    ultimately
    show ?thesis
      using ctxs d(1) by (auto simp: ids_of_def routing_candidate_id split: option.splits)
  qed
qed (simp add: ids_of_def)

text \<open>
  The loop is a comprehension: over distinct ids, the update of one candidate's state does not
  reach the others.
\<close>

definition candidate_of ::
  "router_config \<Rightarrow> selection_env \<Rightarrow> ('p deployment \<Rightarrow> bool) \<Rightarrow> string \<Rightarrow> (string \<rightharpoonup> 'p deployment)
     \<Rightarrow> string \<Rightarrow> routing_context option" where
  "candidate_of rc env P m ds i =
     (if matching ds P m i then fst (routing_candidate rc env i (the (ds i))) else None)"

lemma candidate_frame:
  assumes "j \<noteq> i"
  shows "of_group (ds(i \<mapsto> d)) m j = of_group ds m j"
    and "matching (ds(i \<mapsto> d)) P m j = matching ds P m j"
    and "candidate_of rc env P m (ds(i \<mapsto> d)) j = candidate_of rc env P m ds j"
proof -
  show "of_group (ds(i \<mapsto> d)) m j = of_group ds m j"
    using assms by (simp add: of_group_def)
  then show "matching (ds(i \<mapsto> d)) P m j = matching ds P m j"
    using assms by (simp add: matching_def)
  then show "candidate_of rc env P m (ds(i \<mapsto> d)) j = candidate_of rc env P m ds j"
    using assms by (simp add: candidate_of_def)
qed

lemma map_filter_cong: "(\<And>x. x \<in> set xs \<Longrightarrow> f x = g x) \<Longrightarrow> List.map_filter f xs = List.map_filter g xs"
  by (induction xs) (simp_all add: List.map_filter_simps split: option.split)

text \<open>One round of the loop on a deployment that does not match.\<close>

lemma filter_candidates_skip:
  assumes "\<not> matching ds P m i"
    and "filter_candidates rc env P m ids ds = (e, k, ctxs, ds')"
  shows "filter_candidates rc env P m (i # ids) ds
           = ((if of_group ds m i then Suc e else e), k, ctxs, ds')"
  using assms by (auto simp: matching_def of_group_def split: option.split)

lemma filter_candidates_exact:
  "distinct ids \<Longrightarrow>
   \<exists>ds'. filter_candidates rc env P m ids ds =
     (length (filter (of_group ds m) ids), length (filter (matching ds P m) ids),
      List.map_filter (candidate_of rc env P m ds) ids, ds')"
proof (induction ids arbitrary: ds)
  case Nil
  then show ?case by (simp add: List.map_filter_simps)
next
  case (Cons i ids)
  show ?case
  proof (cases "matching ds P m i")
    case False
    from Cons.IH [of ds] Cons.prems obtain ds' where
      "filter_candidates rc env P m ids ds =
        (length (filter (of_group ds m) ids), length (filter (matching ds P m) ids),
         List.map_filter (candidate_of rc env P m ds) ids, ds')"
      by auto
    moreover have "candidate_of rc env P m ds i = None"
      using False by (simp add: candidate_of_def)
    ultimately show ?thesis
      using filter_candidates_skip [OF False] False
      by (simp add: List.map_filter_simps del: filter_candidates.simps)
  next
    case True
    then obtain d where d: "ds i = Some d" "model_name d = m" "P d"
      by (auto simp: matching_def of_group_def)
    define ds1 where "ds1 = ds(i \<mapsto> snd (routing_candidate rc env i d))"
    have ne: "j \<noteq> i" if "j \<in> set ids" for j
      using that Cons.prems by auto
    have "filter (of_group ds1 m) ids = filter (of_group ds m) ids"
      "filter (matching ds1 P m) ids = filter (matching ds P m) ids"
      "List.map_filter (candidate_of rc env P m ds1) ids
         = List.map_filter (candidate_of rc env P m ds) ids"
      unfolding ds1_def by (intro filter_cong map_filter_cong refl candidate_frame ne; assumption)+
    with Cons.IH [of ds1] Cons.prems obtain ds' where
      rest: "filter_candidates rc env P m ids ds1 =
        (length (filter (of_group ds m) ids), length (filter (matching ds P m) ids),
         List.map_filter (candidate_of rc env P m ds) ids, ds')"
      by auto
    have "of_group ds m i" and "candidate_of rc env P m ds i = fst (routing_candidate rc env i d)"
      using d True by (simp_all add: of_group_def candidate_of_def)
    with True rest [unfolded ds1_def] d show ?thesis
      by (auto simp: List.map_filter_simps Let_def split: prod.splits option.splits)
  qed
qed

lemma in_map_filter: "x \<in> set (List.map_filter f xs) \<longleftrightarrow> (\<exists>y \<in> set xs. f y = Some x)"
  by (force simp: List.map_filter_def)

lemma candidate_of_id: "candidate_of rc env P m ds i = Some c \<Longrightarrow> deployment_id c = i"
  by (auto simp: candidate_of_def routing_candidate_id split: if_splits)

subsection \<open>The reservation loop\<close>

definition within_parallel_limit :: "'p deployment \<Rightarrow> bool" where
  "within_parallel_limit d \<longleftrightarrow>
     (case max_parallel_requests (config d) of
        Some limit \<Rightarrow> 0 < active_requests (state d) \<and> active_requests (state d) \<le> limit
      | None \<Rightarrow> True)"

lemma try_reserve_granted:
  assumes "try_reserve_deployment backend env d m est = (Inr hold, cmds, s)"
  shows "model_name d = m" and "within_parallel_limit (d\<lparr>state := s\<rparr>)"
  using assms
  by (auto elim!: try_reserve_granted_cases
      simp: reserve_slot_True within_parallel_limit_def word_less_add_one split: option.split)

lemma position_of_Some:
  "i \<in> ids_of ctxs \<Longrightarrow> \<exists>p < length ctxs. position_of i ctxs = Some p \<and> deployment_id (ctxs ! p) = i"
proof (induction ctxs)
  case (Cons c cs)
  show ?case
  proof (cases "deployment_id c = i")
    case False
    with Cons obtain p where "p < length cs" "position_of i cs = Some p" "deployment_id (cs ! p) = i"
      by (auto simp: ids_of_def)
    with False show ?thesis by (intro exI [of _ "Suc p"]) simp
  qed (intro exI [of _ 0], simp)
qed (simp add: ids_of_def)

lemma swap_remove_props:
  assumes "p < length xs"
  shows "length (swap_remove p xs) < length xs" and "set (swap_remove p xs) \<subseteq> set xs"
proof -
  have ne: "xs \<noteq> []" using assms by auto
  then show "length (swap_remove p xs) < length xs"
    by (simp add: swap_remove_def)
  show "set (swap_remove p xs) \<subseteq> set xs"
    using ne set_update_subset_insert [of "butlast xs" p "last xs"]
    by (auto simp: swap_remove_def dest: in_set_butlastD)
qed

definition loop_outcome ::
  "string \<Rightarrow> string \<Rightarrow> string set \<Rightarrow> router_error + deployment_lease \<Rightarrow> (string \<rightharpoonup> 'p deployment) \<Rightarrow> bool" where
  "loop_outcome name m ids r ds \<longleftrightarrow>
     (case r of
        Inl e \<Rightarrow> e = NoAvailableDeployment name
      | Inr lease \<Rightarrow>
          (\<exists>i \<in> ids. \<exists>hold d. lease = new_lease i hold \<and> ds i = Some d \<and> model_name d = m
              \<and> within_parallel_limit d))"

lemma reserve_loop_returns:
  "ids_of ctxs \<subseteq> dom ds \<Longrightarrow>
   \<exists>r q ds' counters'. reserve_loop rc backend env est name m k ctxs sent ds counters
       = Some (r, q, ds', counters')
     \<and> only_states_change ds ds' \<and> loop_outcome name m (ids_of ctxs) r ds'"
proof (induction "length ctxs" arbitrary: k ctxs sent ds counters rule: less_induct)
  case less
  note unfold = reserve_loop.simps [of rc backend env est name m k ctxs sent ds counters]
  show ?case
  proof (cases "ctxs = []")
    case True
    then show ?thesis by (subst unfold) (simp add: loop_outcome_def)
  next
    case False
    obtain i c1 where sel: "select_from_routing_contexts (routing_strategy rc) m (se_draws env k) ctxs
        counters = (Some i, c1)" and i: "i \<in> ids_of ctxs"
      using select_from_routing_contexts_sound
        [of "routing_strategy rc" m "se_draws env k" ctxs counters] False
      by (cases "select_from_routing_contexts (routing_strategy rc) m (se_draws env k) ctxs counters")
        auto
    with less.prems obtain d where d: "ds i = Some d" by auto
    obtain res cmds s where attempt: "try_reserve_deployment backend (se_admission env k) d m (est d)
        = (res, cmds, s)" by (metis surj_pair)
    let ?ds = "ds(i \<mapsto> d\<lparr>state := s\<rparr>)"
    have upd: "only_states_change ds ?ds"
      by (rule only_states_change_upd [where ds = ds and i = i, OF d]) simp
    show ?thesis
    proof (cases res)
      case (Inr hold)
      note granted = try_reserve_granted [OF attempt [unfolded Inr]]
      have "loop_outcome name m (ids_of ctxs) (Inr (new_lease i hold)) ?ds"
        using granted i by (auto simp: loop_outcome_def intro!: bexI [of _ i])
      with upd show ?thesis
        by (subst unfold) (simp add: False sel d attempt Inr)
    next
      case (Inl e)
      from position_of_Some [OF i] obtain p where p: "p < length ctxs" "position_of i ctxs = Some p"
        by blast
      note sw = swap_remove_props [OF p(1)]
      then have sub: "ids_of (swap_remove p ctxs) \<subseteq> ids_of ctxs"
        by (auto simp: ids_of_def)
      then have "ids_of (swap_remove p ctxs) \<subseteq> dom ?ds"
        using less.prems by auto
      from less.hyps [OF sw(1) this, of "Suc k" "sent @ cmds" c1] obtain r q ds' counters' where
        rest: "reserve_loop rc backend env est name m (Suc k) (swap_remove p ctxs) (sent @ cmds) ?ds c1
          = Some (r, q, ds', counters')"
        and post: "only_states_change ?ds ds'" "loop_outcome name m (ids_of (swap_remove p ctxs)) r ds'"
        by blast
      have "loop_outcome name m (ids_of ctxs) r ds'"
        using post(2) sub by (auto simp: loop_outcome_def split: sum.splits)
      with only_states_change_trans [OF upd post(1)] show ?thesis
        by (subst unfold) (simp add: False sel d attempt Inl p rest)
    qed
  qed
qed

subsection \<open>Properties of selection\<close>

lemma filter_result:
  obtains e k ctxs ds' where "filter_candidates rc env P m ids ds = (e, k, ctxs, ds')"
    and "only_states_change ds ds'" and "ids_of ctxs \<subseteq> dom ds'"
proof -
  obtain e k ctxs ds' where r: "filter_candidates rc env P m ids ds = (e, k, ctxs, ds')"
    by (metis surj_pair)
  show thesis
    using that [OF r] filter_candidates_states [OF r] only_states_change_dom by blast
qed

lemma select_returns:
  "\<exists>r sent ds' counters'.
     select_deployment_matching rc backend env sn name is_candidate no_match est counters
       = Some (r, sent, ds', counters')
     \<and> only_states_change (deployments sn) ds'"
proof -
  let ?m = "resolve_model_name (model_aliases sn) name"
  show ?thesis
  proof (cases "model_index sn ?m = None \<or> model_index sn ?m = Some []")
    case True
    then show ?thesis by (auto simp: select_deployment_matching_def)
  next
    case False
    then obtain ids where ids: "model_index sn ?m = Some ids" "ids \<noteq> []" by auto
    obtain e k ctxs ds1 where
      fil: "filter_candidates rc env is_candidate ?m ids (deployments sn) = (e, k, ctxs, ds1)"
      and ch: "only_states_change (deployments sn) ds1" and sub: "ids_of ctxs \<subseteq> dom ds1"
      by (rule filter_result)
    from reserve_loop_returns [OF sub, of rc backend env est name ?m 0 "[]" counters]
    show ?thesis
      using ids fil ch
      by (auto simp: select_deployment_matching_def Let_def intro: only_states_change_trans)
  qed
qed

lemma candidates_exist_iff:
  assumes "snapshot_ok sn" and "model_index sn m = Some ids"
  shows "distinct ids" and "ids \<noteq> []" and "i \<in> set ids \<longleftrightarrow> of_group (deployments sn) m i"
  using assms(1) index_okD(1) [of "group_of sn" "model_index sn" "model_order sn" m ids] assms(2)
  by (auto simp: snapshot_ok_def group_of_def of_group_def)

lemma filter_counts_zero:
  "length (filter (matching ds P m) ids) = 0 \<longleftrightarrow> (\<forall>i \<in> set ids. \<not> matching ds P m i)"
  by (simp add: filter_empty_conv)

lemma candidate_ids:
  assumes "i \<in> ids_of (List.map_filter (candidate_of rc env P m ds) ids)"
  shows "\<exists>c. candidate_of rc env P m ds i = Some c"
proof -
  from assms obtain c j where "deployment_id c = i" and "candidate_of rc env P m ds j = Some c"
    by (auto simp: ids_of_def in_map_filter)
  with candidate_of_id [OF this(2)] show ?thesis by auto
qed

lemma candidate_passed:
  assumes "i \<in> ids_of (List.map_filter (candidate_of rc env P m ds) ids)"
  shows "\<exists>d c. ds i = Some d \<and> model_name d = m \<and> P d
           \<and> fst (deployment_is_selectable_with_observer rc (fst (se_rounds env i))
                    (snd (se_rounds env i)) (state d))
           \<and> candidate_of rc env P m ds i = Some c
           \<and> \<not> reached (max_parallel_requests (config d)) (ctx_active_requests c)
           \<and> \<not> reached (rpm_limit (config d)) (ctx_rpm_current c)
           \<and> \<not> reached (tpm_limit (config d)) (ctx_tpm_current c)"
proof -
  obtain c where c: "candidate_of rc env P m ds i = Some c"
    using candidate_ids [OF assms] by blast
  then obtain d where "ds i = Some d" "model_name d = m" "P d"
    and "fst (routing_candidate rc env i d) = Some c"
    by (auto simp: candidate_of_def matching_def of_group_def split: if_splits)
  with routing_candidate_passed [OF this(4)] c show ?thesis by blast
qed

lemma select_outcome:
  assumes ok: "snapshot_ok sn"
    and sel: "select_deployment_matching rc backend env sn name is_candidate no_match est counters
                = Some (r, sent, ds', counters')"
    and m: "m = resolve_model_name (model_aliases sn) name"
  shows "if \<nexists>i. of_group (deployments sn) m i then r = Inl (RouterModelNotFound name)
         else if (\<nexists>i. matching (deployments sn) is_candidate m i) \<and> no_match \<noteq> None
         then r = Inl (the no_match)
         else r = Inl (NoAvailableDeployment name)
              \<or> (\<exists>i hold d c d'. r = Inr (new_lease i hold) \<and> deployments sn i = Some d
                   \<and> model_name d = m \<and> is_candidate d
                   \<and> fst (deployment_is_selectable_with_observer rc (fst (se_rounds env i))
                            (snd (se_rounds env i)) (state d))
                   \<and> candidate_of rc env is_candidate m (deployments sn) i = Some c
                   \<and> \<not> reached (max_parallel_requests (config d)) (ctx_active_requests c)
                   \<and> \<not> reached (rpm_limit (config d)) (ctx_rpm_current c)
                   \<and> \<not> reached (tpm_limit (config d)) (ctx_tpm_current c)
                   \<and> ds' i = Some d' \<and> within_parallel_limit d')"
proof (cases "model_index sn m")
  case None
  then have "\<nexists>i. of_group (deployments sn) m i"
    using ok index_okD(2) [of "group_of sn" "model_index sn" "model_order sn" m]
    by (auto simp: snapshot_ok_def group_of_def of_group_def)
  with None sel m show ?thesis
    by (simp add: select_deployment_matching_def)
next
  case (Some ids)
  note idx = candidates_exist_iff [OF ok Some]
  from idx(2,3) have grp: "\<exists>i. of_group (deployments sn) m i"
    by (metis list.set_intros(1) neq_Nil_conv)
  obtain ds1 where fil: "filter_candidates rc env is_candidate m ids (deployments sn) =
      (length (filter (of_group (deployments sn) m) ids),
       length (filter (matching (deployments sn) is_candidate m) ids),
       List.map_filter (candidate_of rc env is_candidate m (deployments sn)) ids, ds1)"
    using filter_candidates_exact [OF idx(1)] by metis
  let ?ctxs = "List.map_filter (candidate_of rc env is_candidate m (deployments sn)) ids"
  have none: "(\<nexists>i. matching (deployments sn) is_candidate m i) \<longleftrightarrow>
      length (filter (matching (deployments sn) is_candidate m) ids) = 0"
    unfolding filter_counts_zero using idx(3) by (auto simp: matching_def)
  have some: "length (filter (of_group (deployments sn) m) ids) > 0"
    using grp idx(3) by (auto simp: filter_empty_conv)
  show ?thesis
  proof (cases "?ctxs = []")
    case True
    have "r = Inl (if length (filter (matching (deployments sn) is_candidate m) ids) = 0
        \<and> no_match \<noteq> None then the no_match else NoAvailableDeployment name)"
      using sel Some idx(2) fil some True unfolding m
      by (simp add: select_deployment_matching_def Let_def)
    then show ?thesis
      using grp unfolding none by auto
  next
    case False
    have "ids_of ?ctxs \<subseteq> dom ds1"
      using filter_candidates_states [OF fil] only_states_change_dom by blast
    from reserve_loop_returns [OF this, of rc backend env est name m 0 "[]" counters]
    have out: "loop_outcome name m (ids_of ?ctxs) r ds'"
      using sel m Some idx(2) fil False
      by (auto simp: select_deployment_matching_def Let_def)
    obtain i0 where "i0 \<in> ids_of ?ctxs"
      using False by (cases ?ctxs) (auto simp: ids_of_def)
    then have "\<exists>i. matching (deployments sn) is_candidate m i"
      using candidate_ids by (metis candidate_of_def option.distinct(1))
    then show ?thesis
      using out grp candidate_passed by (cases r) (fastforce simp: loop_outcome_def)+
  qed
qed

text \<open>
  Selection always ends: whatever the snapshot, the strategy, the answers of the shared
  breaker and of the admission backend, the interference of other tasks and the random draws,
  the retry over the remaining candidates returns a lease or an error, and the only parts of
  the deployments it changes are their running states.
\<close>

theorem select_deployment_returns:
  "\<exists>r sent ds' counters'.
     select_deployment_matching rc backend env sn name is_candidate no_match est counters
       = Some (r, sent, ds', counters')
     \<and> only_states_change (deployments sn) ds'"
  by (rule select_returns)

text \<open>
  C3.  What selection returns on a consistent snapshot, on every branch.  A model without
  deployments is not found; if no deployment matches the request's requirements the caller's
  error is returned; if every matching one is filtered out, or loses its reservation, none is
  available; otherwise the lease is for a deployment of the resolved model that matches, that
  the circuit breaker lets through and that was below its parallel, request and token limits,
  and after the reservation its number of active requests is within the parallel limit,
  whatever other tasks did meanwhile.
\<close>

theorem select_deployment_sound:
  assumes ok: "snapshot_ok sn"
    and sel: "select_deployment_matching rc backend env sn name is_candidate no_match est counters
                = Some (r, sent, ds', counters')"
    and m: "m = resolve_model_name (model_aliases sn) name"
  shows "if \<nexists>i. of_group (deployments sn) m i then r = Inl (RouterModelNotFound name)
         else if (\<nexists>i. matching (deployments sn) is_candidate m i) \<and> no_match \<noteq> None
         then r = Inl (the no_match)
         else r = Inl (NoAvailableDeployment name)
              \<or> (\<exists>i hold d c d'. r = Inr (new_lease i hold) \<and> deployments sn i = Some d
                   \<and> model_name d = m \<and> is_candidate d
                   \<and> fst (deployment_is_selectable_with_observer rc (fst (se_rounds env i))
                            (snd (se_rounds env i)) (state d))
                   \<and> candidate_of rc env is_candidate m (deployments sn) i = Some c
                   \<and> \<not> reached (max_parallel_requests (config d)) (ctx_active_requests c)
                   \<and> \<not> reached (rpm_limit (config d)) (ctx_rpm_current c)
                   \<and> \<not> reached (tpm_limit (config d)) (ctx_tpm_current c)
                   \<and> ds' i = Some d' \<and> within_parallel_limit d')"
  using assms by (rule select_outcome)

text \<open>A quiet environment: no other task, no shared breaker, local admission only.\<close>

definition quiet_round :: observe_round where
  "quiet_round = \<lparr>answer = UseLocal, during_await = id, between_locks = id, read_apply = 1,
                  read_roll = 1, read_cooldown = 1\<rparr>"

definition quiet_env :: selection_env where
  "quiet_env = \<lparr>se_rounds = \<lambda>_. (quiet_round, quiet_round), se_now = 1, se_clock = \<lambda>_ _. 1,
                se_draws = \<lambda>_ _. 0,
                se_admission = \<lambda>_. \<lparr>ae_reply = NoReply, ae_between = id, ae_clock = \<lambda>_. 1,
                                     ae_cancel_ok = True\<rparr>\<rparr>"

lemma quiet_selection:
  "\<exists>ds'. select_deployment_matching router_config_default InProcessAdmission quiet_env example_snapshot
       ''gpt'' (\<lambda>_. True) None (\<lambda>_. 7) Map.empty
     = Some (Inr (new_lease ''d1'' None), [], ds', Map.empty)"
  by (simp add: select_deployment_matching_def example_snapshot_def example_resolves
      example_deployment_def new_with_provider_instance_def deployment_config_default_def
      routing_candidate_def deployment_is_selectable_with_observer_def selectable_round_def
      quiet_env_def quiet_round_def locally_selectable_def is_in_cooldown_def is_healthy_def
      health_status_of_def reached_def minute_counters_def roll_minute_window_def minute_gate_defs
      minute_window_needs_roll_def observed_minute_counters_def admission_tpm_def Let_def
      reserve_loop.simps select_from_routing_contexts_def weighted_random_from_context_def
      try_reserve_deployment_def reserve_async_def option_limit_def reserve_with_hold_def
      reserve_slot_def new_for_provider_instance_def)

theorem select_deployment_sound_witness:
  "\<exists>ds' d'. select_deployment_matching router_config_default InProcessAdmission quiet_env
       example_snapshot ''gpt'' (\<lambda>_. True) None (\<lambda>_. 7) Map.empty
     = Some (Inr (new_lease ''d1'' None), [], ds', Map.empty)
     \<and> ds' ''d1'' = Some d' \<and> within_parallel_limit d'"
proof -
  obtain ds' where sel: "select_deployment_matching router_config_default InProcessAdmission quiet_env
       example_snapshot ''gpt'' (\<lambda>_. True) None (\<lambda>_. 7) Map.empty
     = Some (Inr (new_lease ''d1'' None), [], ds', Map.empty)"
    using quiet_selection by blast
  from select_deployment_sound [OF example_ok this refl] sel show ?thesis
    by (auto simp: new_lease_def split: if_splits)
qed

end
