(* ===== verification/Execute.thy ===== *)
theory Execute
  imports Selection Fallback
begin

section \<open>Executing a request: retries and fallbacks\<close>

text \<open>
  Models \<^verbatim>\<open>src/core/router/execute_impl.rs\<close>: the retry loop over the deployments of one
  model, its streaming variant, the execution without retries and the loop over the fallback
  models.

  The operation is the caller's: its results are an argument, one per round, and the rounds'
  \<open>retry_env\<close> also holds the answers of the shared services, the clock readings, the jitter
  and what other requests do to the deployments' states while this one waits.  The loops are
  \<open>partial_function (option)\<close>, \<open>None\<close> meaning that they run forever; a panic is the value
  \<open>Panicked\<close>.
\<close>

subsection \<open>One round's environment\<close>

text \<open>
  The result of the operation: a value with the tokens it used, if known, or an error with
  the usage of a completed response (\<open>None\<close>: no complete response, \<open>Some None\<close>: complete with
  unknown usage).
\<close>

type_synonym 'r op_result = "(provider_error \<times> u64 option option) + ('r \<times> u64 option)"

record ('p, 'r, 'f) retry_env =
  re_first :: selection_env
  re_second :: selection_env
  re_op :: "'p deployment \<Rightarrow> 'r op_result"
  re_during :: "string \<Rightarrow> deployment_state \<Rightarrow> deployment_state"
  re_publishing :: "deployment_state \<Rightarrow> deployment_state"
  re_write :: circuit_write
  re_latency :: u64
  re_clock :: clock
  re_finish_ok :: bool
  re_draw :: 'f

text \<open>What the providers say about a capability: not code of the router.\<close>

record 'p capability_view =
  cv_supports :: "'p deployment \<Rightarrow> bool"
  cv_missing_mapping :: "'p deployment \<Rightarrow> bool"
  cv_name :: string

definition interfere ::
  "(string \<Rightarrow> deployment_state \<Rightarrow> deployment_state) \<Rightarrow> (string \<rightharpoonup> 'p deployment) \<Rightarrow> (string \<rightharpoonup> 'p deployment)"
  where
  "interfere f ds = (\<lambda>i. map_option (\<lambda>d. d\<lparr>state := f i (state d)\<rparr>) (ds i))"

subsection \<open>Recording the outcome\<close>

definition publish_success ::
  "router_config \<Rightarrow> ('p, 'r, 'f) retry_env \<Rightarrow> deployment_state \<Rightarrow> deployment_state" where
  "publish_success rc env s =
     (let gen = circuit_update_generation s
      in record_success_circuit rc (re_write env) gen (re_clock env 2) (re_clock env 3)
           (re_publishing env s))"

definition record_execution_failure ::
  "router_config \<Rightarrow> ('p, 'r, 'f) retry_env \<Rightarrow> cooldown_reason \<Rightarrow> deployment_state \<Rightarrow> deployment_state exec" where
  "record_execution_failure rc env why s =
     do {
       s \<leftarrow> record_local_failure rc why (re_clock env 4) (re_clock env 5) (re_clock env 6) s;
       record_failure_circuit rc (re_write env) (circuit_update_generation s) (later 7 (re_clock env))
         (re_publishing env s)
     }"

text \<open>Keeping known usage before the first await.\<close>

definition preserve_usage :: "u64 option \<Rightarrow> deployment_lease \<Rightarrow> deployment_lease" where
  "preserve_usage tokens l =
     (case tokens of
        Some t \<Rightarrow> preserve_admission_usage t l
      | None \<Rightarrow> preserve_admission_reservation 0 l)"

text \<open>The completion of the admission by what is known of the usage, and the drop of the lease.\<close>

definition finish_and_drop ::
  "admission_backend \<Rightarrow> ('p, 'r, 'f) retry_env \<Rightarrow> u64 option option \<Rightarrow> deployment_lease \<Rightarrow> deployment_state
     \<Rightarrow> admission_command list \<times> deployment_state" where
  "finish_and_drop backend env usage l s =
     (let ok = re_finish_ok env; clk = later 20 (re_clock env);
          (l, sent, s) =
            (case usage of
               Some (Some t) \<Rightarrow> commit_admission_async backend ok t clk l s
             | Some None \<Rightarrow> retain_admission_async backend ok 0 clk l s
             | None \<Rightarrow> cancel_admission_async backend ok clk l s);
          (queued, s) = drop_lease backend ok (later 30 (re_clock env)) l s
      in (sent @ queued, s))"

definition settle_success ::
  "router_config \<Rightarrow> admission_backend \<Rightarrow> ('p, 'r, 'f) retry_env \<Rightarrow> u64 option \<Rightarrow> deployment_lease
     \<Rightarrow> deployment_state \<Rightarrow> (admission_command list \<times> deployment_state) exec" where
  "settle_success rc backend env tokens l s =
     do {
       let l = preserve_usage tokens l;
       (l, s) \<leftarrow> lease_record_success (case tokens of Some t \<Rightarrow> t | None \<Rightarrow> 0) (re_latency env)
                  (re_clock env 0) (re_clock env 1) l s;
       Some (finish_and_drop backend env (Some tokens) l (publish_success rc env s))
     }"

text \<open>An error that came with a complete response still counts the response's usage.\<close>

definition note_completed_usage ::
  "('p, 'r, 'f) retry_env \<Rightarrow> u64 option option \<Rightarrow> deployment_lease \<Rightarrow> deployment_state
     \<Rightarrow> deployment_lease \<times> deployment_state" where
  "note_completed_usage env usage l s =
     (case usage of
        None \<Rightarrow> (l, s)
      | Some tokens \<Rightarrow>
          lease_record_interrupted_usage (case tokens of Some t \<Rightarrow> t | None \<Rightarrow> 0)
            (re_clock env 0) (re_clock env 1) (preserve_usage tokens l) s)"

subsection \<open>Selecting the next candidate\<close>

definition exhausted_error :: "router_error \<Rightarrow> bool" where
  "exhausted_error e =
     (case e of UnsupportedCapability _ _ \<Rightarrow> True | NoAvailableDeployment _ \<Rightarrow> True | _ \<Rightarrow> False)"

definition select_attempt ::
  "router_config \<Rightarrow> admission_backend \<Rightarrow> selection_env \<Rightarrow> ('p, 'c) routing_snapshot \<Rightarrow> string
     \<Rightarrow> 'p capability_view option \<Rightarrow> ('p deployment \<Rightarrow> bool) \<Rightarrow> u64 \<Rightarrow> rr_counters
     \<Rightarrow> 'p selection_result option" where
  "select_attempt rc backend env sn name cap is_candidate est counters =
     (case cap of
        Some c \<Rightarrow> select_for_capability (cv_supports c) (cv_missing_mapping c) (cv_name c) rc backend env sn
                    name is_candidate (\<lambda>_. est) counters
      | None \<Rightarrow> select_deployment_matching rc backend env sn name is_candidate None (\<lambda>_. 0) counters)"

definition select_retry_candidate ::
  "router_config \<Rightarrow> admission_backend \<Rightarrow> ('p, 'r, 'f) retry_env \<Rightarrow> ('p, 'c) routing_snapshot \<Rightarrow> string
     \<Rightarrow> 'p capability_view option \<Rightarrow> string set \<Rightarrow> string set \<Rightarrow> u64 \<Rightarrow> rr_counters
     \<Rightarrow> (string set \<times> 'p selection_result) option" where
  "select_retry_candidate rc backend env sn name cap excluded tried est counters =
     do {
       (r, sent, ds, counters) \<leftarrow>
         select_attempt rc backend (re_first env) sn name cap
           (\<lambda>d. dep_id d \<notin> excluded \<and> dep_id d \<notin> tried) est counters;
       case r of
         Inr lease \<Rightarrow> Some (tried, r, sent, ds, counters)
       | Inl e \<Rightarrow>
           if tried \<noteq> {} \<and> exhausted_error e
           then do {
             (r2, sent2, ds2, counters2) \<leftarrow>
               select_attempt rc backend (re_second env) (sn\<lparr>deployments := ds\<rparr>) name cap
                 (\<lambda>d. dep_id d \<notin> excluded) est counters;
             Some (case r2 of Inr _ \<Rightarrow> {} | Inl _ \<Rightarrow> tried, r2, sent @ sent2, ds2, counters2)
           }
           else Some (tried, r, sent, ds, counters)
     }"

subsection \<open>The retry loop\<close>

text \<open>
  The variables of the loop, with the snapshot (whose deployments carry the shared running
  states) and, as its visible effects, the commands sent and the deployments on which the
  operation was run.
\<close>

record ('p, 'c) retry_state =
  rs_round :: nat
  rs_attempt :: u32
  rs_last_error :: "provider_error option"
  rs_excluded :: "string set"
  rs_tried :: "string set"
  rs_snapshot :: "('p, 'c) routing_snapshot"
  rs_counters :: rr_counters
  rs_sent :: "admission_command list"
  rs_calls :: "string list"

datatype ('v, 's) round_result = Return 'v 's | Continue 's | Panic

datatype ('v, 's) run = Finished 'v 's | Panicked

type_synonym 'r retry_result = "(provider_error \<times> u32) + ('r \<times> string \<times> string \<times> u32 \<times> u64)"

definition put_deployment ::
  "string \<Rightarrow> 'p deployment \<Rightarrow> admission_command list \<Rightarrow> ('p, 'c) retry_state \<Rightarrow> ('p, 'c) retry_state" where
  "put_deployment i d cmds st =
     st\<lparr>rs_snapshot := (rs_snapshot st)\<lparr>deployments := (deployments (rs_snapshot st))(i \<mapsto> d)\<rparr>,
        rs_sent := rs_sent st @ cmds\<rparr>"

definition unary_selection_failed ::
  "router_config \<Rightarrow> u32 \<Rightarrow> router_error \<Rightarrow> ('p, 'c) retry_state
     \<Rightarrow> ('r retry_result, ('p, 'c) retry_state) round_result" where
  "unary_selection_failed rc max_att e st =
     (if exhausted_error e \<and> rs_last_error st \<noteq> None
      then Return (Inl (the (rs_last_error st), rs_attempt st)) st
      else if rs_excluded st \<noteq> {} \<and> rs_last_error st \<noteq> None
      then Return (Inl (the (rs_last_error st), rs_attempt st)) st
      else
        (let perr = router_error_to_provider_error e
         in if should_retry (decide rc perr (unary (rs_attempt st) max_att))
            then Continue (st\<lparr>rs_last_error := Some perr, rs_attempt := rs_attempt st + 1\<rparr>)
            else Return (Inl (perr, rs_attempt st)) st))"

definition unary_operation_failed ::
  "'f float_ops \<Rightarrow> router_config \<Rightarrow> admission_backend \<Rightarrow> ('p, 'r, 'f) retry_env \<Rightarrow> u32 \<Rightarrow> provider_error
     \<Rightarrow> u64 option option \<Rightarrow> deployment_lease \<Rightarrow> 'p deployment \<Rightarrow> ('p, 'c) retry_state
     \<Rightarrow> ('r retry_result, ('p, 'c) retry_state) round_result" where
  "unary_operation_failed F rc backend env max_att e usage lease d st =
     (let i = lease_deployment lease;
          (lease, s) = note_completed_usage env usage lease (state d)
      in if retryable_budget_scope e \<noteq> None
         then (let (cmds, s) = finish_and_drop backend env usage lease s
               in Continue ((put_deployment i (d\<lparr>state := s\<rparr>) cmds st)
                    \<lparr>rs_excluded := insert (dep_id d) (rs_excluded st), rs_last_error := Some e\<rparr>))
         else if should_retry (decide_for_deployment F (re_draw env) rc (config d) e
                   (unary (rs_attempt st) max_att))
         then (case record_execution_failure rc env ConsecutiveFailures s of
                 None \<Rightarrow> Panic
               | Some s \<Rightarrow>
                   (let (cmds, s) = finish_and_drop backend env usage lease s
                    in Continue ((put_deployment i (d\<lparr>state := s\<rparr>) cmds st)
                         \<lparr>rs_tried := insert (dep_id d) (rs_tried st), rs_last_error := Some e,
                          rs_attempt := rs_attempt st + 1\<rparr>)))
         else (case record_execution_failure rc env (infer_cooldown_reason e) s of
                 None \<Rightarrow> Panic
               | Some s \<Rightarrow>
                   (let (cmds, s) = finish_and_drop backend env usage lease s
                    in Return (Inl (e, rs_attempt st)) (put_deployment i (d\<lparr>state := s\<rparr>) cmds st))))"

definition unary_operation_succeeded ::
  "router_config \<Rightarrow> admission_backend \<Rightarrow> ('p, 'r, 'f) retry_env \<Rightarrow> 'r \<Rightarrow> u64 option \<Rightarrow> deployment_lease
     \<Rightarrow> 'p deployment \<Rightarrow> ('p, 'c) retry_state \<Rightarrow> ('r retry_result, ('p, 'c) retry_state) round_result" where
  "unary_operation_succeeded rc backend env v tokens lease d st =
     (case settle_success rc backend env tokens lease (state d) of
        None \<Rightarrow> Panic
      | Some (cmds, s) \<Rightarrow>
          Return (Inr (v, dep_id d, model d, rs_attempt st, re_latency env))
            (put_deployment (lease_deployment lease) (d\<lparr>state := s\<rparr>) cmds st))"

text \<open>The state after the selection of a candidate, and after the wait for the operation.\<close>

definition after_selection ::
  "string set \<Rightarrow> admission_command list \<Rightarrow> (string \<rightharpoonup> 'p deployment) \<Rightarrow> rr_counters
     \<Rightarrow> ('p, 'c) retry_state \<Rightarrow> ('p, 'c) retry_state" where
  "after_selection tried sent ds counters st =
     st\<lparr>rs_round := Suc (rs_round st), rs_tried := tried, rs_sent := rs_sent st @ sent,
        rs_snapshot := (rs_snapshot st)\<lparr>deployments := ds\<rparr>, rs_counters := counters\<rparr>"

definition after_operation ::
  "('p, 'r, 'f) retry_env \<Rightarrow> string \<Rightarrow> ('p, 'c) retry_state \<Rightarrow> ('p, 'c) retry_state" where
  "after_operation env i st =
     st\<lparr>rs_snapshot := (rs_snapshot st)\<lparr>deployments := interfere (re_during env) (deployments (rs_snapshot st))\<rparr>,
        rs_calls := rs_calls st @ [i]\<rparr>"

definition retry_round ::
  "'f float_ops \<Rightarrow> router_config \<Rightarrow> admission_backend \<Rightarrow> ('p, 'r, 'f) retry_env \<Rightarrow> string
     \<Rightarrow> 'p capability_view option \<Rightarrow> u64 \<Rightarrow> u32 \<Rightarrow> ('p, 'c) retry_state
     \<Rightarrow> ('r retry_result, ('p, 'c) retry_state) round_result option" where
  "retry_round F rc backend env name cap est max_att st =
     do {
       (tried, r, sent, ds, counters) \<leftarrow>
         select_retry_candidate rc backend env (rs_snapshot st) name cap (rs_excluded st) (rs_tried st)
           est (rs_counters st);
       let st = after_selection tried sent ds counters st;
       Some
         (case r of
            Inl e \<Rightarrow> unary_selection_failed rc max_att e st
          | Inr lease \<Rightarrow>
              (let st = after_operation env (lease_deployment lease) st
               in case deployments (rs_snapshot st) (lease_deployment lease) of
                    None \<Rightarrow> Panic
                  | Some d \<Rightarrow>
                      (case re_op env d of
                         Inr (v, tokens) \<Rightarrow> unary_operation_succeeded rc backend env v tokens lease d st
                       | Inl (e, usage) \<Rightarrow>
                           unary_operation_failed F rc backend env max_att e usage lease d st)))
     }"

partial_function (option) retry_loop ::
  "'f float_ops \<Rightarrow> router_config \<Rightarrow> admission_backend \<Rightarrow> (nat \<Rightarrow> ('p, 'r, 'f) retry_env) \<Rightarrow> string
     \<Rightarrow> 'p capability_view option \<Rightarrow> u64 \<Rightarrow> u32 \<Rightarrow> ('p, 'c) retry_state
     \<Rightarrow> ('r retry_result, ('p, 'c) retry_state) run option" where
  "retry_loop F rc backend envs name cap est max_att st =
     (if rs_attempt st > max_att
      then Some (Finished (Inl (case rs_last_error st of
                                  Some e \<Rightarrow> e
                                | None \<Rightarrow> Other router_provider
                                    (if cap \<noteq> None then ''Unknown error during capability retry''
                                     else ''Unknown error during retry''), max_att)) st)
      else do {
        res \<leftarrow> retry_round F rc backend (envs (rs_round st)) name cap est max_att st;
        case res of
          Continue st' \<Rightarrow> retry_loop F rc backend envs name cap est max_att st'
        | Return v st' \<Rightarrow> Some (Finished v st')
        | Panic \<Rightarrow> Some Panicked
      })"

text \<open>The variables at the start: round \<open>k\<close> of the environment and the effects so far.\<close>

definition initial_retry_state ::
  "('p, 'c) routing_snapshot \<Rightarrow> rr_counters \<Rightarrow> nat \<Rightarrow> admission_command list \<Rightarrow> string list \<Rightarrow> ('p, 'c) retry_state" where
  "initial_retry_state sn counters k sent calls =
     \<lparr>rs_round = k, rs_attempt = 1, rs_last_error = None, rs_excluded = {}, rs_tried = {},
      rs_snapshot = sn, rs_counters = counters, rs_sent = sent, rs_calls = calls\<rparr>"

definition execute_with_retry_inner ::
  "'f float_ops \<Rightarrow> router_config \<Rightarrow> admission_backend \<Rightarrow> (nat \<Rightarrow> ('p, 'r, 'f) retry_env)
     \<Rightarrow> string \<Rightarrow> 'p capability_view option \<Rightarrow> u64 \<Rightarrow> ('p, 'c) retry_state
     \<Rightarrow> ('r retry_result, ('p, 'c) retry_state) run option" where
  "execute_with_retry_inner F rc backend envs name cap est st =
     retry_loop F rc backend envs name cap est (num_retries rc + 1)
       (initial_retry_state (rs_snapshot st) (rs_counters st) (rs_round st) (rs_sent st) (rs_calls st))"

subsection \<open>The streaming variant\<close>

text \<open>
  The streaming loop hands the lease to the caller together with the stream.  Usage is only
  known once the stream ends, so an error carries none.
\<close>

type_synonym 'r stream_result = "provider_error + ('r \<times> deployment_lease)"

definition stream_selection_failed ::
  "router_config \<Rightarrow> u32 \<Rightarrow> router_error \<Rightarrow> ('p, 'c) retry_state
     \<Rightarrow> ('r stream_result, ('p, 'c) retry_state) round_result" where
  "stream_selection_failed rc max_att e st =
     (if exhausted_error e \<and> rs_last_error st \<noteq> None then Return (Inl (the (rs_last_error st))) st
      else
        (let perr = router_error_to_provider_error e
         in if should_retry (decide rc perr (stream_pre_output (rs_attempt st) max_att))
            then Continue (st\<lparr>rs_attempt := rs_attempt st + 1\<rparr>)
            else Return (Inl (case rs_last_error st of Some e \<Rightarrow> e | None \<Rightarrow> perr)) st))"

definition stream_operation_failed ::
  "'f float_ops \<Rightarrow> router_config \<Rightarrow> admission_backend \<Rightarrow> ('p, 'r, 'f) retry_env \<Rightarrow> u32 \<Rightarrow> provider_error
     \<Rightarrow> deployment_lease \<Rightarrow> 'p deployment \<Rightarrow> ('p, 'c) retry_state
     \<Rightarrow> ('r stream_result, ('p, 'c) retry_state) round_result" where
  "stream_operation_failed F rc backend env max_att e lease d st =
     (let i = lease_deployment lease
      in if retryable_budget_scope e \<noteq> None
         then (let (cmds, s) = finish_and_drop backend env None lease (state d)
               in Continue ((put_deployment i (d\<lparr>state := s\<rparr>) cmds st)
                    \<lparr>rs_excluded := insert (dep_id d) (rs_excluded st), rs_last_error := Some e\<rparr>))
         else if should_retry (decide_for_deployment F (re_draw env) rc (config d) e
                   (stream_pre_output (rs_attempt st) max_att))
         then (case record_execution_failure rc env ConsecutiveFailures (state d) of
                 None \<Rightarrow> Panic
               | Some s \<Rightarrow>
                   (let (cmds, s) = finish_and_drop backend env None lease s
                    in Continue ((put_deployment i (d\<lparr>state := s\<rparr>) cmds st)
                         \<lparr>rs_tried := insert (dep_id d) (rs_tried st), rs_last_error := Some e,
                          rs_attempt := rs_attempt st + 1\<rparr>)))
         else (case record_execution_failure rc env (infer_cooldown_reason e) (state d) of
                 None \<Rightarrow> Panic
               | Some s \<Rightarrow>
                   (let (cmds, s) = finish_and_drop backend env None lease s
                    in Return (Inl e) (put_deployment i (d\<lparr>state := s\<rparr>) cmds st))))"

definition stream_round ::
  "'f float_ops \<Rightarrow> router_config \<Rightarrow> admission_backend \<Rightarrow> ('p, 'r, 'f) retry_env \<Rightarrow> string
     \<Rightarrow> 'p capability_view \<Rightarrow> u64 \<Rightarrow> u32 \<Rightarrow> ('p, 'c) retry_state
     \<Rightarrow> ('r stream_result, ('p, 'c) retry_state) round_result option" where
  "stream_round F rc backend env name cap est max_att st =
     do {
       (tried, r, sent, ds, counters) \<leftarrow>
         select_retry_candidate rc backend env (rs_snapshot st) name (Some cap) (rs_excluded st)
           (rs_tried st) est (rs_counters st);
       let st = after_selection tried sent ds counters st;
       Some
         (case r of
            Inl e \<Rightarrow> stream_selection_failed rc max_att e st
          | Inr lease \<Rightarrow>
              (let st = after_operation env (lease_deployment lease) st
               in case deployments (rs_snapshot st) (lease_deployment lease) of
                    None \<Rightarrow> Panic
                  | Some d \<Rightarrow>
                      (case re_op env d of
                         Inr (v, _) \<Rightarrow> Return (Inr (v, lease)) st
                       | Inl (e, _) \<Rightarrow> stream_operation_failed F rc backend env max_att e lease d st)))
     }"

partial_function (option) stream_loop ::
  "'f float_ops \<Rightarrow> router_config \<Rightarrow> admission_backend \<Rightarrow> (nat \<Rightarrow> ('p, 'r, 'f) retry_env) \<Rightarrow> string
     \<Rightarrow> 'p capability_view \<Rightarrow> u64 \<Rightarrow> u32 \<Rightarrow> ('p, 'c) retry_state
     \<Rightarrow> ('r stream_result, ('p, 'c) retry_state) run option" where
  "stream_loop F rc backend envs name cap est max_att st =
     (if rs_attempt st > max_att
      then Some (Finished (Inl (case rs_last_error st of
                                  Some e \<Rightarrow> e
                                | None \<Rightarrow> Other router_provider ''Unknown error during streaming retry'')) st)
      else do {
        res \<leftarrow> stream_round F rc backend (envs (rs_round st)) name cap est max_att st;
        case res of
          Continue st' \<Rightarrow> stream_loop F rc backend envs name cap est max_att st'
        | Return v st' \<Rightarrow> Some (Finished v st')
        | Panic \<Rightarrow> Some Panicked
      })"

definition execute_stream_with_retry_inner ::
  "'f float_ops \<Rightarrow> router_config \<Rightarrow> admission_backend \<Rightarrow> (nat \<Rightarrow> ('p, 'r, 'f) retry_env)
     \<Rightarrow> string \<Rightarrow> 'p capability_view \<Rightarrow> u64 \<Rightarrow> ('p, 'c) retry_state
     \<Rightarrow> ('r stream_result, ('p, 'c) retry_state) run option" where
  "execute_stream_with_retry_inner F rc backend envs name cap est st =
     stream_loop F rc backend envs name cap est (num_retries rc + 1)
       (initial_retry_state (rs_snapshot st) (rs_counters st) (rs_round st) (rs_sent st) (rs_calls st))"

subsection \<open>Fallback models\<close>

definition models_to_try :: "router_config \<Rightarrow> string list \<Rightarrow> string list" where
  "models_to_try rc models = take (1 + unat (max_fallbacks rc)) (first_occurrences {} models)"

fun fallback_loop ::
  "'f float_ops \<Rightarrow> router_config \<Rightarrow> admission_backend \<Rightarrow> (nat \<Rightarrow> ('p, 'r, 'f) retry_env) \<Rightarrow> string
     \<Rightarrow> 'p capability_view option \<Rightarrow> u64 \<Rightarrow> u64 \<Rightarrow> bool \<Rightarrow> string list \<Rightarrow> provider_error option \<Rightarrow> u32
     \<Rightarrow> ('p, 'c) retry_state
     \<Rightarrow> (provider_error + 'r execution_result, ('p, 'c) retry_state) run option" where
  "fallback_loop F rc backend envs name cap est latency is_fallback [] last_error tot st =
     Some (Finished (Inl (case last_error of
                            Some e \<Rightarrow> e
                          | None \<Rightarrow> ModelNotFound router_provider name)) st)"
| "fallback_loop F rc backend envs name cap est latency is_fallback (m # ms) last_error tot st =
     do {
       res \<leftarrow> execute_with_retry_inner F rc backend envs m cap est st;
       case res of
         Panicked \<Rightarrow> Some Panicked
       | Finished (Inr (v, i, used, attempts, _)) st' \<Rightarrow>
           Some (Finished (Inr (build_execution_result v i (tot + attempts) used is_fallback latency)) st')
       | Finished (Inl (e, attempts)) st' \<Rightarrow>
           fallback_loop F rc backend envs name cap est latency True ms (Some e) (tot + attempts) st'
     }"

definition execute_in_snapshot_typed ::
  "'f float_ops \<Rightarrow> router_config \<Rightarrow> admission_backend \<Rightarrow> (nat \<Rightarrow> ('p, 'r, 'f) retry_env) \<Rightarrow> fallback_config
     \<Rightarrow> string \<Rightarrow> 'p capability_view option \<Rightarrow> u64 \<Rightarrow> u64 \<Rightarrow> ('p, 'c) retry_state
     \<Rightarrow> (provider_error + 'r execution_result, ('p, 'c) retry_state) run option" where
  "execute_in_snapshot_typed F rc backend envs fc name cap est latency st =
     fallback_loop F rc backend envs name cap est latency False
       (models_to_try rc (get_models_with_fallbacks_for_snapshot (model_aliases (rs_snapshot st)) fc name
          General)) None 0 st"

definition execute_with_selected_deployment ::
  "(provider_error \<Rightarrow> string) \<Rightarrow> 'f float_ops \<Rightarrow> router_config \<Rightarrow> admission_backend \<Rightarrow> (nat \<Rightarrow> ('p, 'r, 'f) retry_env) \<Rightarrow> fallback_config
     \<Rightarrow> string \<Rightarrow> u64 \<Rightarrow> ('p, 'c) retry_state
     \<Rightarrow> (router_error + 'r execution_result, ('p, 'c) retry_state) run option" where
  "execute_with_selected_deployment display F rc backend envs fc name latency st =
     map_option
       (\<lambda>res. case res of
          Finished (Inl e) st \<Rightarrow> Finished (Inl (provider_error_to_router_error display e name)) st
        | Finished (Inr r) st \<Rightarrow> Finished (Inr r) st
        | Panicked \<Rightarrow> Panicked)
       (execute_in_snapshot_typed F rc backend envs fc name None 0 latency st)"

text \<open>One attempt, without retry and fallback.\<close>

definition execute_once ::
  "(provider_error \<Rightarrow> string) \<Rightarrow> router_config \<Rightarrow> admission_backend \<Rightarrow> ('p, 'r, 'f) retry_env \<Rightarrow> string \<Rightarrow> ('p, 'c) retry_state
     \<Rightarrow> (router_error + 'r execution_result, ('p, 'c) retry_state) run option" where
  "execute_once display rc backend env name st =
     do {
       (r, sent, ds, counters) \<leftarrow>
         select_deployment_matching rc backend (re_first env) (rs_snapshot st) name (\<lambda>_. True) None (\<lambda>_. 0)
           (rs_counters st);
       let st = after_selection (rs_tried st) sent ds counters st;
       Some
         (case r of
            Inl e \<Rightarrow> Finished (Inl e) st
          | Inr lease \<Rightarrow>
              (let st = after_operation env (lease_deployment lease) st
               in case deployments (rs_snapshot st) (lease_deployment lease) of
                    None \<Rightarrow> Panicked
                  | Some d \<Rightarrow>
                      (case re_op env d of
                         Inr (v, tokens) \<Rightarrow>
                           (case settle_success rc backend env tokens lease (state d) of
                              None \<Rightarrow> Panicked
                            | Some (cmds, s) \<Rightarrow>
                                Finished (Inr (build_execution_result v (dep_id d) 1 (model d) False
                                                 (re_latency env)))
                                  (put_deployment (lease_deployment lease) (d\<lparr>state := s\<rparr>) cmds st))
                       | Inl (e, _) \<Rightarrow>
                           (case record_execution_failure rc env (infer_cooldown_reason e) (state d) of
                              None \<Rightarrow> Panicked
                            | Some s \<Rightarrow>
                                (let (cmds, s) = finish_and_drop backend env None lease s
                                 in Finished (Inl (provider_error_to_router_error display e name))
                                      (put_deployment (lease_deployment lease) (d\<lparr>state := s\<rparr>) cmds st))))))
     }"

subsection \<open>What a round changes\<close>

lemma snapshot_ok_states:
  assumes "snapshot_ok sn" and "only_states_change (deployments sn) ds"
  shows "snapshot_ok (sn\<lparr>deployments := ds\<rparr>)"
proof -
  note at = only_states_change_at [OF assms(2)]
  have "group_of (sn\<lparr>deployments := ds\<rparr>) i = group_of sn i" for i
    using at [of i] by (cases "ds i"; cases "deployments sn i") (auto simp: group_of_def identity_of_def)
  moreover have "dep_id d = i" if "ds i = Some d" for i d
    using at [of i] that assms(1)
    by (cases "deployments sn i") (auto simp: snapshot_ok_def identity_of_def)
  moreover have "group_of (sn\<lparr>deployments := ds\<rparr>) = group_of sn"
    using calculation(1) by (rule ext)
  ultimately show ?thesis
    using assms only_states_change_dom [OF assms(2)] by (simp add: snapshot_ok_def)
qed

lemma interfere_states: "only_states_change ds (interfere f ds)"
  by (simp add: only_states_change_def interfere_def fun_eq_iff option.map_comp comp_def)

text \<open>The snapshots along an execution: consistent, and the same up to the running states.\<close>

definition same_routes :: "('p, 'c) routing_snapshot \<Rightarrow> ('p, 'c) routing_snapshot \<Rightarrow> bool" where
  "same_routes sn sn' \<longleftrightarrow>
     snapshot_ok sn' \<and> only_states_change (deployments sn) (deployments sn')
     \<and> model_aliases sn' = model_aliases sn"

lemma same_routes_trans: "same_routes a b \<Longrightarrow> same_routes b c \<Longrightarrow> same_routes a c"
  by (auto simp: same_routes_def intro: only_states_change_trans)

lemma same_routes_upd:
  assumes "snapshot_ok sn" and "only_states_change (deployments sn) ds"
  shows "same_routes sn (sn\<lparr>deployments := ds\<rparr>)"
  using assms snapshot_ok_states by (simp add: same_routes_def)

text \<open>A selected deployment belongs to the model and passed the candidate test.\<close>

definition selected_from ::
  "('p, 'c) routing_snapshot \<Rightarrow> string \<Rightarrow> string set \<Rightarrow> string \<Rightarrow> bool" where
  "selected_from sn name excluded i \<longleftrightarrow>
     i \<notin> excluded \<and> (\<exists>d. deployments sn i = Some d \<and> dep_id d = i
        \<and> model_name d = resolve_model_name (model_aliases sn) name)"

lemma select_attempt_result:
  assumes "snapshot_ok sn" and "\<And>d. is_candidate d \<Longrightarrow> dep_id d \<notin> excluded"
  obtains r sent ds counters' where
    "select_attempt rc backend env sn name cap is_candidate est counters = Some (r, sent, ds, counters')"
    and "same_routes sn (sn\<lparr>deployments := ds\<rparr>)"
    and "\<And>lease. r = Inr lease \<Longrightarrow> selected_from sn name excluded (lease_deployment lease)"
proof -
  obtain P nm e where att: "select_attempt rc backend env sn name cap is_candidate est counters
      = select_deployment_matching rc backend env sn name P nm e counters"
    and P: "\<And>d. P d \<Longrightarrow> is_candidate d"
    by (cases cap) (auto simp: select_attempt_def select_for_capability_def)
  obtain r sent ds counters' where
    sel: "select_deployment_matching rc backend env sn name P nm e counters = Some (r, sent, ds, counters')"
    and ch: "only_states_change (deployments sn) ds"
    using select_returns [of rc backend env sn name P nm e counters] by blast
  have "selected_from sn name excluded (lease_deployment lease)" if "r = Inr lease" for lease
  proof -
    from select_outcome [OF assms(1) sel refl] that obtain i hold d where
      "lease = new_lease i hold" "deployments sn i = Some d" "P d"
      "model_name d = resolve_model_name (model_aliases sn) name"
      by (auto split: if_splits)
    moreover from this have "dep_id d = i" "dep_id d \<notin> excluded"
      using assms P by (auto simp: snapshot_ok_def)
    ultimately show ?thesis
      by (auto simp: new_lease_def selected_from_def)
  qed
  with att sel ch assms(1) show thesis
    by (intro that) (auto intro: same_routes_upd)
qed

lemma select_retry_candidate_result:
  assumes "snapshot_ok sn"
  obtains tried' r sent ds counters' where
    "select_retry_candidate rc backend env sn name cap excluded tried est counters
       = Some (tried', r, sent, ds, counters')"
    and "same_routes sn (sn\<lparr>deployments := ds\<rparr>)"
    and "\<And>lease. r = Inr lease \<Longrightarrow> selected_from sn name excluded (lease_deployment lease)"
proof -
  obtain r sent ds c1 where first: "select_attempt rc backend (re_first env) sn name cap
      (\<lambda>d. dep_id d \<notin> excluded \<and> dep_id d \<notin> tried) est counters = Some (r, sent, ds, c1)"
    "same_routes sn (sn\<lparr>deployments := ds\<rparr>)"
    "\<And>lease. r = Inr lease \<Longrightarrow> selected_from sn name excluded (lease_deployment lease)"
    by (rule select_attempt_result [OF assms, of "\<lambda>d. dep_id d \<notin> excluded \<and> dep_id d \<notin> tried" excluded
          rc backend "re_first env" name cap est counters]) auto
  obtain r2 sent2 ds2 c2 where second: "select_attempt rc backend (re_second env)
      (sn\<lparr>deployments := ds\<rparr>) name cap (\<lambda>d. dep_id d \<notin> excluded) est c1 = Some (r2, sent2, ds2, c2)"
    "same_routes (sn\<lparr>deployments := ds\<rparr>) (sn\<lparr>deployments := ds2\<rparr>)"
    "\<And>lease. r2 = Inr lease \<Longrightarrow>
       selected_from (sn\<lparr>deployments := ds\<rparr>) name excluded (lease_deployment lease)"
    using first(2)
    by (auto simp: same_routes_def intro: select_attempt_result [of "sn\<lparr>deployments := ds\<rparr>"
          "\<lambda>d. dep_id d \<notin> excluded" excluded rc backend "re_second env" name cap est c1])
  have orig: "selected_from sn name excluded i" if "selected_from (sn\<lparr>deployments := ds\<rparr>) name excluded i" for i
    using that first(2) only_states_change_at [of "deployments sn" ds i]
    by (cases "deployments sn i") (auto simp: selected_from_def same_routes_def identity_of_def)
  let ?again = "\<exists>e. r = Inl e \<and> tried \<noteq> {} \<and> exhausted_error e"
  show thesis
  proof (cases ?again)
    case True
    then obtain e where "r = Inl e" "tried \<noteq> {}" "exhausted_error e" by blast
    then have "select_retry_candidate rc backend env sn name cap excluded tried est counters
        = Some (case r2 of Inr _ \<Rightarrow> {} | Inl _ \<Rightarrow> tried, r2, sent @ sent2, ds2, c2)"
      using first(1) second(1) by (simp add: select_retry_candidate_def)
    from that [OF this same_routes_trans [OF first(2) second(2)]] second(3) orig show thesis
      by blast
  next
    case False
    then have "select_retry_candidate rc backend env sn name cap excluded tried est counters
        = Some (tried, r, sent, ds, c1)"
      using first(1) by (cases r) (auto simp: select_retry_candidate_def)
    from that [OF this first(2,3)] show thesis by blast
  qed
qed

text \<open>
  The progress of a round that continues: an attempt is used up, or a deployment of the model
  is excluded for its budget.
\<close>

definition progress ::
  "u32 \<Rightarrow> string \<Rightarrow> ('p, 'c) retry_state \<Rightarrow> ('p, 'c) retry_state \<Rightarrow> bool" where
  "progress max_att name st st' \<longleftrightarrow>
     (rs_attempt st < max_att \<and> rs_attempt st' = rs_attempt st + 1 \<and> rs_excluded st' = rs_excluded st
      \<and> (rs_calls st' = rs_calls st
         \<or> (\<exists>i. selected_from (rs_snapshot st) name {} i \<and> rs_calls st' = rs_calls st @ [i])))
     \<or> (rs_attempt st' = rs_attempt st
        \<and> (\<exists>i. selected_from (rs_snapshot st) name (rs_excluded st) i
             \<and> rs_excluded st' = insert i (rs_excluded st) \<and> rs_calls st' = rs_calls st @ [i]))"

definition returned ::
  "string \<Rightarrow> ('p, 'c) retry_state \<Rightarrow> ('p, 'c) retry_state \<Rightarrow> bool" where
  "returned name st st' \<longleftrightarrow>
     rs_attempt st' = rs_attempt st \<and> rs_excluded st' = rs_excluded st
     \<and> (rs_calls st' = rs_calls st
        \<or> (\<exists>i. selected_from (rs_snapshot st) name {} i \<and> rs_calls st' = rs_calls st @ [i]))"

text \<open>What every kind of round promises of its result.\<close>

definition round_ok ::
  "u32 \<Rightarrow> string \<Rightarrow> ('p, 'c) retry_state \<Rightarrow> ('v, ('p, 'c) retry_state) round_result \<Rightarrow> bool" where
  "round_ok max_att name st res \<longleftrightarrow>
     (case res of
        Continue st' \<Rightarrow> same_routes (rs_snapshot st) (rs_snapshot st') \<and> progress max_att name st st'
      | Return _ st' \<Rightarrow> same_routes (rs_snapshot st) (rs_snapshot st') \<and> returned name st st'
      | Panic \<Rightarrow> True)"

lemma decide_attempts: "should_retry (decide_with_fallback_delay e ctx dl) \<Longrightarrow> attempt ctx < max_attempts ctx"
  by (auto simp: decide_with_fallback_delay_def decision_stop_def Let_def not_le split: if_splits)

lemma decided_attempts:
  "should_retry (decide rc e (unary a m)) \<Longrightarrow> a < m"
  "should_retry (decide rc e (stream_pre_output a m)) \<Longrightarrow> a < m"
  "should_retry (decide_for_deployment F x rc cfg e (unary a m)) \<Longrightarrow> a < m"
  "should_retry (decide_for_deployment F x rc cfg e (stream_pre_output a m)) \<Longrightarrow> a < m"
  by (auto simp: decide_def decide_for_deployment_def unary_def stream_pre_output_def
      new_retry_context_def dest: decide_attempts)

lemma after_selection_simps [simp]:
  "rs_attempt (after_selection t q ds c st) = rs_attempt st"
  "rs_excluded (after_selection t q ds c st) = rs_excluded st"
  "rs_last_error (after_selection t q ds c st) = rs_last_error st"
  "rs_calls (after_selection t q ds c st) = rs_calls st"
  "rs_snapshot (after_selection t q ds c st) = (rs_snapshot st)\<lparr>deployments := ds\<rparr>"
  "rs_round (after_selection t q ds c st) = Suc (rs_round st)"
  by (simp_all add: after_selection_def)

lemma after_operation_simps [simp]:
  "rs_attempt (after_operation env i st) = rs_attempt st"
  "rs_excluded (after_operation env i st) = rs_excluded st"
  "rs_calls (after_operation env i st) = rs_calls st @ [i]"
  "rs_snapshot (after_operation env i st) =
     (rs_snapshot st)\<lparr>deployments := interfere (re_during env) (deployments (rs_snapshot st))\<rparr>"
  by (simp_all add: after_operation_def)

lemma put_deployment_simps [simp]:
  "rs_attempt (put_deployment i d q st) = rs_attempt st"
  "rs_excluded (put_deployment i d q st) = rs_excluded st"
  "rs_calls (put_deployment i d q st) = rs_calls st"
  "rs_snapshot (put_deployment i d q st) =
     (rs_snapshot st)\<lparr>deployments := (deployments (rs_snapshot st))(i \<mapsto> d)\<rparr>"
  by (simp_all add: put_deployment_def)

lemma selected_from_mono: "selected_from sn name E i \<Longrightarrow> selected_from sn name {} i"
  by (simp add: selected_from_def)

text \<open>The situation after the operation ran on the selected deployment \<open>i\<close>.\<close>

definition ran_on ::
  "string \<Rightarrow> ('p, 'c) retry_state \<Rightarrow> string \<Rightarrow> 'p deployment \<Rightarrow> ('p, 'c) retry_state \<Rightarrow> bool" where
  "ran_on name st0 i d st \<longleftrightarrow>
     same_routes (rs_snapshot st0) (rs_snapshot st) \<and> rs_attempt st = rs_attempt st0
     \<and> rs_excluded st = rs_excluded st0 \<and> rs_calls st = rs_calls st0 @ [i]
     \<and> deployments (rs_snapshot st) i = Some d \<and> dep_id d = i
     \<and> selected_from (rs_snapshot st0) name (rs_excluded st0) i"

lemma same_routes_put:
  assumes "same_routes sn0 sn" and "deployments sn i = Some d"
  shows "same_routes sn0 (sn\<lparr>deployments := (deployments sn)(i \<mapsto> d\<lparr>state := s\<rparr>)\<rparr>)"
proof -
  have "only_states_change (deployments sn) ((deployments sn)(i \<mapsto> d\<lparr>state := s\<rparr>))"
    by (rule only_states_change_upd [where ds = "deployments sn", OF assms(2)]) simp
  with assms(1) have "same_routes sn (sn\<lparr>deployments := (deployments sn)(i \<mapsto> d\<lparr>state := s\<rparr>)\<rparr>)"
    by (intro same_routes_upd) (simp_all add: same_routes_def)
  with assms(1) show ?thesis by (rule same_routes_trans)
qed

lemma ran_on_put:
  "ran_on name st0 i d st \<Longrightarrow>
   same_routes (rs_snapshot st0) (rs_snapshot (put_deployment i (d\<lparr>state := s\<rparr>) q st))"
  unfolding put_deployment_simps by (rule same_routes_put) (simp_all add: ran_on_def)

lemmas round_defs = round_ok_def progress_def returned_def

lemma ran_on_simps:
  assumes "ran_on name st0 i d st"
  shows "rs_attempt st = rs_attempt st0" "rs_excluded st = rs_excluded st0"
    "rs_calls st = rs_calls st0 @ [i]" "dep_id d = i"
    "selected_from (rs_snapshot st0) name (rs_excluded st0) i" "selected_from (rs_snapshot st0) name {} i"
    "same_routes (rs_snapshot st0) (rs_snapshot st)"
  using assms selected_from_mono by (auto simp: ran_on_def)

lemma continue_excluded:
  assumes "ran_on name st0 i d st"
  shows "round_ok max_att name st0 (Continue ((put_deployment i (d\<lparr>state := s\<rparr>) q st)
           \<lparr>rs_excluded := insert (dep_id d) (rs_excluded st), rs_last_error := e\<rparr>))"
  using ran_on_put [OF assms, of s q] ran_on_simps [OF assms] by (auto simp: round_defs)

lemma continue_tried:
  assumes "ran_on name st0 i d st" and "rs_attempt st < max_att"
  shows "round_ok max_att name st0 (Continue ((put_deployment i (d\<lparr>state := s\<rparr>) q st)
           \<lparr>rs_tried := t, rs_last_error := e, rs_attempt := rs_attempt st + 1\<rparr>))"
  using ran_on_put [OF assms(1), of s q] ran_on_simps [OF assms(1)] assms(2) by (auto simp: round_defs)

lemma return_put:
  assumes "ran_on name st0 i d st"
  shows "round_ok max_att name st0 (Return v (put_deployment i (d\<lparr>state := s\<rparr>) q st))"
  using ran_on_put [OF assms, of s q] ran_on_simps [OF assms] by (auto simp: round_defs)

lemma return_as_is: "ran_on name st0 i d st \<Longrightarrow> round_ok max_att name st0 (Return v st)"
  by (auto simp: round_defs dest: ran_on_simps)

lemma round_ok_panic [simp]: "round_ok max_att name st0 Panic"
  by (simp add: round_ok_def)

lemmas round_intros = continue_excluded continue_tried return_put

lemma unary_operation_failed_ok:
  assumes "ran_on name st0 (lease_deployment lease) d st"
  shows "round_ok max_att name st0 (unary_operation_failed F rc backend env max_att e usage lease d st)"
  using assms
  by (auto simp: unary_operation_failed_def Let_def split: prod.splits option.splits
      intro!: round_intros dest: decided_attempts)

lemma unary_operation_succeeded_ok:
  assumes "ran_on name st0 (lease_deployment lease) d st"
  shows "round_ok max_att name st0 (unary_operation_succeeded rc backend env v tokens lease d st)"
  using assms
  by (auto simp: unary_operation_succeeded_def split: prod.splits option.splits intro!: round_intros)

lemma stream_operation_failed_ok:
  assumes "ran_on name st0 (lease_deployment lease) d st"
  shows "round_ok max_att name st0 (stream_operation_failed F rc backend env max_att e lease d st)"
  using assms
  by (auto simp: stream_operation_failed_def Let_def split: prod.splits option.splits
      intro!: round_intros dest: decided_attempts)

lemma selection_failed_ok:
  assumes "same_routes (rs_snapshot st0) ((rs_snapshot st0)\<lparr>deployments := ds\<rparr>)"
  shows "round_ok max_att name st0 (unary_selection_failed rc max_att e (after_selection t q ds c st0))"
    and "round_ok max_att name st0 (stream_selection_failed rc max_att e (after_selection t q ds c st0))"
  using assms decided_attempts(1,2)
  by (auto simp: unary_selection_failed_def stream_selection_failed_def round_defs Let_def)

lemma ran_on_selected:
  assumes "same_routes (rs_snapshot st0) ((rs_snapshot st0)\<lparr>deployments := ds\<rparr>)"
    and "selected_from (rs_snapshot st0) name (rs_excluded st0) i"
  obtains d where
    "deployments (rs_snapshot (after_operation env i (after_selection t q ds c st0))) i = Some d"
    and "ran_on name st0 i d (after_operation env i (after_selection t q ds c st0))"
proof -
  let ?st = "after_operation env i (after_selection t q ds c st0)"
  have routes: "same_routes (rs_snapshot st0) (rs_snapshot ?st)"
    using same_routes_trans [OF assms(1) same_routes_upd [OF _ interfere_states]] assms(1)
    by (simp add: same_routes_def)
  then have at: "map_option identity_of (deployments (rs_snapshot ?st) i)
      = map_option identity_of (deployments (rs_snapshot st0) i)"
    by (intro only_states_change_at) (simp add: same_routes_def)
  from assms(2) obtain d0 where d0: "deployments (rs_snapshot st0) i = Some d0" "dep_id d0 = i"
    by (auto simp: selected_from_def)
  with at obtain d where d: "deployments (rs_snapshot ?st) i = Some d" "dep_id d = i"
    by (cases "deployments (rs_snapshot ?st) i") (auto simp: identity_of_def)
  with routes assms(2) have "ran_on name st0 i d ?st"
    unfolding ran_on_def by simp
  with d(1) show thesis by (rule that)
qed

lemma retry_round_ok:
  assumes "snapshot_ok (rs_snapshot st)"
  shows "\<exists>res. retry_round F rc backend env name cap est max_att st = Some res \<and> round_ok max_att name st res"
proof -
  obtain t r q ds c where sel: "select_retry_candidate rc backend env (rs_snapshot st) name cap
      (rs_excluded st) (rs_tried st) est (rs_counters st) = Some (t, r, q, ds, c)"
    and routes: "same_routes (rs_snapshot st) ((rs_snapshot st)\<lparr>deployments := ds\<rparr>)"
    and chosen: "\<And>lease. r = Inr lease \<Longrightarrow>
      selected_from (rs_snapshot st) name (rs_excluded st) (lease_deployment lease)"
    using select_retry_candidate_result [OF assms] by metis
  show ?thesis
  proof (cases r)
    case (Inl e)
    with sel selection_failed_ok(1) [OF routes] show ?thesis by (simp add: retry_round_def)
  next
    case (Inr lease)
    obtain d where d: "deployments (rs_snapshot (after_operation env (lease_deployment lease)
        (after_selection t q ds c st))) (lease_deployment lease) = Some d"
      and ran: "ran_on name st (lease_deployment lease) d
        (after_operation env (lease_deployment lease) (after_selection t q ds c st))"
      by (rule ran_on_selected [OF routes chosen [OF Inr]])
    with sel Inr show ?thesis
      by (cases "re_op env d")
        (auto simp: retry_round_def Let_def simp del: after_operation_simps
          intro: unary_operation_failed_ok unary_operation_succeeded_ok)
  qed
qed

lemma stream_round_ok:
  assumes "snapshot_ok (rs_snapshot st)"
  shows "\<exists>res. stream_round F rc backend env name cap est max_att st = Some res \<and> round_ok max_att name st res"
proof -
  obtain t r q ds c where sel: "select_retry_candidate rc backend env (rs_snapshot st) name (Some cap)
      (rs_excluded st) (rs_tried st) est (rs_counters st) = Some (t, r, q, ds, c)"
    and routes: "same_routes (rs_snapshot st) ((rs_snapshot st)\<lparr>deployments := ds\<rparr>)"
    and chosen: "\<And>lease. r = Inr lease \<Longrightarrow>
      selected_from (rs_snapshot st) name (rs_excluded st) (lease_deployment lease)"
    using select_retry_candidate_result [OF assms] by metis
  show ?thesis
  proof (cases r)
    case (Inl e)
    with sel selection_failed_ok(2) [OF routes] show ?thesis by (simp add: stream_round_def)
  next
    case (Inr lease)
    obtain d where d: "deployments (rs_snapshot (after_operation env (lease_deployment lease)
        (after_selection t q ds c st))) (lease_deployment lease) = Some d"
      and ran: "ran_on name st (lease_deployment lease) d
        (after_operation env (lease_deployment lease) (after_selection t q ds c st))"
      by (rule ran_on_selected [OF routes chosen [OF Inr]])
    with sel Inr show ?thesis
      by (cases "re_op env d")
        (auto simp: stream_round_def Let_def simp del: after_operation_simps
          intro: stream_operation_failed_ok return_as_is)
  qed
qed

subsection \<open>Retry loops end\<close>

text \<open>What the calls made between two states say.\<close>

definition calls_between ::
  "nat \<Rightarrow> string \<Rightarrow> ('p, 'c) retry_state \<Rightarrow> ('p, 'c) retry_state \<Rightarrow> bool" where
  "calls_between extra name st st' \<longleftrightarrow>
     same_routes (rs_snapshot st) (rs_snapshot st')
     \<and> rs_excluded st \<subseteq> rs_excluded st' \<and> rs_excluded st' \<subseteq> dom (deployments (rs_snapshot st))
     \<and> (\<exists>made. rs_calls st' = rs_calls st @ made
          \<and> (\<forall>i \<in> set made. selected_from (rs_snapshot st) name {} i)
          \<and> length made + unat (rs_attempt st) + card (rs_excluded st)
            \<le> unat (rs_attempt st') + card (rs_excluded st') + extra)"

lemma selected_from_routes:
  assumes "same_routes sn sn'" and "selected_from sn' name E i"
  shows "selected_from sn name E i"
  using assms only_states_change_at [of "deployments sn" "deployments sn'" i]
  by (cases "deployments sn i") (auto simp: selected_from_def same_routes_def identity_of_def)

lemma same_routes_dom: "same_routes sn sn' \<Longrightarrow> dom (deployments sn') = dom (deployments sn)"
  unfolding same_routes_def by (elim conjE) (rule only_states_change_dom)

lemma progress_calls:
  assumes "progress max_att name st st'" and "same_routes (rs_snapshot st) (rs_snapshot st')"
    and "finite (dom (deployments (rs_snapshot st)))"
    and "rs_excluded st \<subseteq> dom (deployments (rs_snapshot st))"
  shows "calls_between 0 name st st'"
    and "(unat max_att - unat (rs_attempt st')) + card (dom (deployments (rs_snapshot st')) - rs_excluded st')
          < (unat max_att - unat (rs_attempt st)) + card (dom (deployments (rs_snapshot st)) - rs_excluded st)"
    and "rs_attempt st \<le> max_att \<Longrightarrow> rs_attempt st' \<le> max_att"
proof -
  let ?D = "dom (deployments (rs_snapshot st))"
  have D: "dom (deployments (rs_snapshot st')) = ?D"
    using assms(2) by (rule same_routes_dom)
  have fin: "finite (rs_excluded st)" using assms(3,4) by (rule rev_finite_subset)
  consider (attempt) "rs_attempt st < max_att" "rs_attempt st' = rs_attempt st + 1"
      "rs_excluded st' = rs_excluded st"
      "\<exists>made. rs_calls st' = rs_calls st @ made \<and> length made \<le> 1
         \<and> (\<forall>i \<in> set made. selected_from (rs_snapshot st) name {} i)"
    | (exclude) i where "rs_attempt st' = rs_attempt st" "rs_excluded st' = insert i (rs_excluded st)"
      "rs_calls st' = rs_calls st @ [i]" "i \<in> ?D" "i \<notin> rs_excluded st"
      "selected_from (rs_snapshot st) name {} i"
    using assms(1) by (auto simp: progress_def selected_from_def)
  then have "calls_between 0 name st st'
    \<and> (unat max_att - unat (rs_attempt st')) + card (?D - rs_excluded st')
        < (unat max_att - unat (rs_attempt st)) + card (?D - rs_excluded st)
    \<and> (rs_attempt st \<le> max_att \<longrightarrow> rs_attempt st' \<le> max_att)"
  proof cases
    case attempt
    have "unat (rs_attempt st') = Suc (unat (rs_attempt st))"
      using attempt(1,2) by (simp add: unat_Suc_less)
    with attempt assms(2,4) show ?thesis
      by (auto simp: calls_between_def word_less_nat_alt word_le_nat_alt)
  next
    case exclude
    have "card (?D - rs_excluded st') < card (?D - rs_excluded st)"
      using exclude assms(3) by (intro psubset_card_mono) auto
    moreover have "card (rs_excluded st') = Suc (card (rs_excluded st))"
      using exclude fin by simp
    ultimately show ?thesis
      using exclude assms(2,4) by (auto simp: calls_between_def)
  qed
  then show "calls_between 0 name st st'"
    "(unat max_att - unat (rs_attempt st')) + card (dom (deployments (rs_snapshot st')) - rs_excluded st')
      < (unat max_att - unat (rs_attempt st)) + card (?D - rs_excluded st)"
    "rs_attempt st \<le> max_att \<Longrightarrow> rs_attempt st' \<le> max_att"
    unfolding D by blast+
qed

lemma calls_between_trans:
  assumes "calls_between 0 name st st1" and "calls_between n name st1 st'"
  shows "calls_between n name st st'"
proof -
  from assms obtain m1 m2 where
    made: "rs_calls st1 = rs_calls st @ m1" "rs_calls st' = rs_calls st1 @ m2"
    "\<forall>i \<in> set m1. selected_from (rs_snapshot st) name {} i"
    "\<forall>i \<in> set m2. selected_from (rs_snapshot st1) name {} i"
    "length m1 + unat (rs_attempt st) + card (rs_excluded st)
       \<le> unat (rs_attempt st1) + card (rs_excluded st1)"
    "length m2 + unat (rs_attempt st1) + card (rs_excluded st1)
       \<le> unat (rs_attempt st') + card (rs_excluded st') + n"
    and routes: "same_routes (rs_snapshot st) (rs_snapshot st1)"
      "same_routes (rs_snapshot st1) (rs_snapshot st')"
    and excl: "rs_excluded st \<subseteq> rs_excluded st1" "rs_excluded st1 \<subseteq> rs_excluded st'"
      "rs_excluded st' \<subseteq> dom (deployments (rs_snapshot st1))"
    by (auto simp: calls_between_def)
  have "\<forall>i \<in> set (m1 @ m2). selected_from (rs_snapshot st) name {} i"
    using made(3,4) selected_from_routes [OF routes(1)] by auto
  moreover have "rs_excluded st' \<subseteq> dom (deployments (rs_snapshot st))"
    using excl(3) same_routes_dom [OF routes(1)] by simp
  ultimately show ?thesis
    unfolding calls_between_def
    using made routes excl same_routes_trans by (intro conjI exI [of _ "m1 @ m2"]) auto
qed

lemma calls_between_refl:
  assumes "snapshot_ok (rs_snapshot st)" and "rs_excluded st \<subseteq> dom (deployments (rs_snapshot st))"
  shows "calls_between n name st st"
  using assms by (simp add: calls_between_def same_routes_def)

lemma returned_calls:
  assumes "returned name st st'" and "same_routes (rs_snapshot st) (rs_snapshot st')"
    and "rs_excluded st \<subseteq> dom (deployments (rs_snapshot st))"
  shows "calls_between 1 name st st'"
  using assms by (auto simp: returned_def calls_between_def)

text \<open>
  The contract the two loops share: what one round promises.  The client's lemma, that the
  loop ends and how many calls it made, is proved once.
\<close>

locale retrying =
  fixes max_att :: u32 and name :: string
    and one_round :: "('p, 'c) retry_state \<Rightarrow> ('v, ('p, 'c) retry_state) round_result option"
    and give_up :: "('p, 'c) retry_state \<Rightarrow> 'v"
    and loop :: "('p, 'c) retry_state \<Rightarrow> ('v, ('p, 'c) retry_state) run option"
  assumes loop_unfold: "loop st =
      (if rs_attempt st > max_att then Some (Finished (give_up st) st)
       else do {
         res \<leftarrow> one_round st;
         case res of
           Continue st' \<Rightarrow> loop st'
         | Return v st' \<Rightarrow> Some (Finished v st')
         | Panic \<Rightarrow> Some Panicked
       })"
    and round_total: "snapshot_ok (rs_snapshot st) \<Longrightarrow>
      \<exists>res. one_round st = Some res \<and> round_ok max_att name st res"
begin

lemma loop_ends:
  assumes "snapshot_ok (rs_snapshot st)" and "finite (dom (deployments (rs_snapshot st)))"
    and "rs_excluded st \<subseteq> dom (deployments (rs_snapshot st))"
  shows "\<exists>res. loop st = Some res \<and>
           (\<forall>v st'. res = Finished v st' \<longrightarrow>
              calls_between 1 name st st' \<and> (rs_attempt st \<le> max_att \<longrightarrow> rs_attempt st' \<le> max_att))"
  using assms
proof (induction "(unat max_att - unat (rs_attempt st))
      + card (dom (deployments (rs_snapshot st)) - rs_excluded st)" arbitrary: st rule: less_induct)
  case less
  show ?case
  proof (cases "rs_attempt st > max_att")
    case True
    with less.prems show ?thesis by (subst loop_unfold) (simp add: calls_between_refl)
  next
    case False
    obtain res where res: "one_round st = Some res" "round_ok max_att name st res"
      using round_total [OF less.prems(1)] by blast
    show ?thesis
    proof (cases res)
      case (Return v st')
      with res less.prems False show ?thesis
        by (subst loop_unfold) (auto simp: round_ok_def dest: returned_calls returned_def [THEN iffD1])
    next
      case Panic
      with res False show ?thesis by (subst loop_unfold) simp
    next
      case (Continue st')
      with res(2) have routes: "same_routes (rs_snapshot st) (rs_snapshot st')"
        and prog: "progress max_att name st st'"
        by (simp_all add: round_ok_def)
      note step = progress_calls [OF prog routes less.prems(2,3)]
      have "snapshot_ok (rs_snapshot st')" "finite (dom (deployments (rs_snapshot st')))"
        "rs_excluded st' \<subseteq> dom (deployments (rs_snapshot st'))"
        using routes less.prems(2) same_routes_dom [OF routes] step(1)
        by (simp_all add: same_routes_def calls_between_def)
      from less.hyps [OF step(2) this] obtain r where "loop st' = Some r"
        "\<forall>v st''. r = Finished v st'' \<longrightarrow>
           calls_between 1 name st' st'' \<and> (rs_attempt st' \<le> max_att \<longrightarrow> rs_attempt st'' \<le> max_att)"
        by blast
      with res(1) Continue False calls_between_trans [OF step(1)] step(3) show ?thesis
        by (subst loop_unfold) auto
    qed
  qed
qed

end

interpretation unary_loop: retrying max_att name
  "\<lambda>st. retry_round F rc backend (envs (rs_round st)) name cap est max_att st"
  "\<lambda>st. Inl (case rs_last_error st of
                Some e \<Rightarrow> e
              | None \<Rightarrow> Other router_provider
                  (if cap \<noteq> None then ''Unknown error during capability retry''
                   else ''Unknown error during retry''), max_att)"
  "retry_loop F rc backend envs name cap est max_att"
  for F :: "'f float_ops" and rc backend envs name cap est max_att
  by unfold_locales (rule retry_loop.simps, rule retry_round_ok)

interpretation streaming_loop: retrying max_att name
  "\<lambda>st. stream_round F rc backend (envs (rs_round st)) name cap est max_att st"
  "\<lambda>st. Inl (case rs_last_error st of
                Some e \<Rightarrow> e
              | None \<Rightarrow> Other router_provider ''Unknown error during streaming retry'')"
  "stream_loop F rc backend envs name cap est max_att"
  for F :: "'f float_ops" and rc backend envs name cap est max_att
  by unfold_locales (rule stream_loop.simps, rule stream_round_ok)

subsection \<open>Properties of execution\<close>

lemma initial_retry_state_simps [simp]:
  "rs_attempt (initial_retry_state sn c k q l) = 1" "rs_excluded (initial_retry_state sn c k q l) = {}"
  "rs_snapshot (initial_retry_state sn c k q l) = sn" "rs_calls (initial_retry_state sn c k q l) = l"
  by (simp_all add: initial_retry_state_def)

text \<open>
  What one model's retry loop has done when it ends: every call went to a deployment of the
  model, and there is at most one per allowed attempt and one per deployment excluded for its
  exhausted budget.
\<close>

definition model_calls :: "router_config \<Rightarrow> string \<Rightarrow> ('p, 'c) routing_snapshot \<Rightarrow> nat \<Rightarrow> string list \<Rightarrow> bool" where
  "model_calls rc name sn excluded made \<longleftrightarrow>
     (\<forall>i \<in> set made. \<exists>d. deployments sn i = Some d \<and> model_name d = resolve_model_name (model_aliases sn) name)
     \<and> excluded \<le> card (dom (deployments sn))
     \<and> length made \<le> Suc (unat (num_retries rc)) + excluded"

definition ended ::
  "router_config \<Rightarrow> string \<Rightarrow> ('p, 'c) retry_state \<Rightarrow> ('v, ('p, 'c) retry_state) run \<Rightarrow> bool" where
  "ended rc name st res \<longleftrightarrow>
     (case res of
        Panicked \<Rightarrow> True
      | Finished v st' \<Rightarrow>
          same_routes (rs_snapshot st) (rs_snapshot st')
          \<and> (\<exists>made. rs_calls st' = rs_calls st @ made
               \<and> model_calls rc name (rs_snapshot st) (card (rs_excluded st')) made))"

lemma calls_between_ended:
  assumes "calls_between 1 name (initial_retry_state sn c k q l) st'"
    and "rs_attempt st' \<le> num_retries rc + 1 \<or> rs_attempt st' = 1"
    and "finite (dom (deployments sn))" and "rs_snapshot st = sn" and "rs_calls st = l"
  shows "ended rc name st (Finished v st')"
proof -
  have "unat (num_retries rc + 1) \<le> Suc (unat (num_retries rc))"
    by (simp add: unat_word_ariths)
  with assms(2) have att: "unat (rs_attempt st') \<le> Suc (unat (num_retries rc))"
    by (auto simp: word_le_nat_alt)
  from assms(1) obtain made where "rs_calls st' = l @ made" "length made \<le> unat (rs_attempt st') + card (rs_excluded st')"
    "\<forall>i \<in> set made. selected_from sn name {} i" "rs_excluded st' \<subseteq> dom (deployments sn)"
    "same_routes sn (rs_snapshot st')"
    by (auto simp: calls_between_def)
  with att assms(3-5) show ?thesis
    unfolding ended_def model_calls_def run.case
    by (intro conjI exI [of _ made]) (auto simp: selected_from_def intro: card_mono)
qed

abbreviation started :: "('p, 'c) retry_state \<Rightarrow> ('p, 'c) retry_state" where
  "started st \<equiv>
     initial_retry_state (rs_snapshot st) (rs_counters st) (rs_round st) (rs_sent st) (rs_calls st)"

lemma ended_at_once:
  assumes "snapshot_ok (rs_snapshot st)" and "finite (dom (deployments (rs_snapshot st)))"
  shows "ended rc name st (Finished v (started st))"
  using assms calls_between_refl [of "started st" 1 name] by (intro calls_between_ended) auto

lemma ended_later:
  assumes "finite (dom (deployments (rs_snapshot st)))" and "\<not> num_retries rc + 1 < 1"
    and "\<forall>v st'. res = Finished v st' \<longrightarrow> calls_between 1 name (started st) st'
           \<and> (1 \<le> num_retries rc + 1 \<longrightarrow> rs_attempt st' \<le> num_retries rc + 1)"
  shows "ended rc name st res"
proof (cases res)
  case (Finished v st')
  with assms(3) leI [OF assms(2)] have "calls_between 1 name (started st) st'"
    and "rs_attempt st' \<le> num_retries rc + 1"
    by blast+
  with assms(1) show ?thesis
    unfolding Finished by (intro calls_between_ended) simp_all
qed (simp add: ended_def)

lemma execute_inner_ends:
  assumes "snapshot_ok (rs_snapshot st)" and "finite (dom (deployments (rs_snapshot st)))"
  shows "\<exists>res. execute_with_retry_inner F rc backend envs name cap est st = Some res \<and> ended rc name st res"
proof (cases "num_retries rc + 1 < 1")
  case True
  then show ?thesis
    unfolding execute_with_retry_inner_def
    by (subst retry_loop.simps) (simp del: word_less_1 add: ended_at_once [OF assms])
next
  case False
  then show ?thesis
    using unary_loop.loop_ends [of "started st" F rc backend envs name cap est "num_retries rc + 1"] assms
      ended_later [OF assms(2) False]
    unfolding execute_with_retry_inner_def initial_retry_state_simps by blast
qed

lemma execute_stream_ends:
  assumes "snapshot_ok (rs_snapshot st)" and "finite (dom (deployments (rs_snapshot st)))"
  shows "\<exists>res. execute_stream_with_retry_inner F rc backend envs name cap est st = Some res
           \<and> ended rc name st res"
proof (cases "num_retries rc + 1 < 1")
  case True
  then show ?thesis
    unfolding execute_stream_with_retry_inner_def
    by (subst stream_loop.simps) (simp del: word_less_1 add: ended_at_once [OF assms])
next
  case False
  then show ?thesis
    using streaming_loop.loop_ends [of "started st" F rc backend envs name cap est "num_retries rc + 1"] assms
      ended_later [OF assms(2) False]
    unfolding execute_stream_with_retry_inner_def initial_retry_state_simps by blast
qed

text \<open>The calls of the models tried, in order; one part per model, the last one decides.\<close>

definition fallback_calls ::
  "router_config \<Rightarrow> string list \<Rightarrow> bool \<Rightarrow> ('p, 'c) retry_state
     \<Rightarrow> (provider_error + 'r execution_result, ('p, 'c) retry_state) run \<Rightarrow> bool" where
  "fallback_calls rc models is_fallback st res \<longleftrightarrow>
     (case res of
        Panicked \<Rightarrow> True
      | Finished v st' \<Rightarrow>
          (\<exists>parts. rs_calls st' = rs_calls st @ concat parts \<and> length parts \<le> length models
             \<and> (\<forall>k < length parts. \<exists>x. model_calls rc (models ! k) (rs_snapshot st) x (parts ! k))
             \<and> (case v of
                  Inl _ \<Rightarrow> length parts = length models
                | Inr r \<Rightarrow> parts \<noteq> [] \<and> er_used_fallback r = (is_fallback \<or> 1 < length parts))))"

lemma model_calls_routes:
  assumes "same_routes sn sn'" and "model_calls rc m sn' x made"
  shows "model_calls rc m sn x made"
proof -
  have "\<exists>d. deployments sn i = Some d \<and> model_name d = resolve_model_name (model_aliases sn) m"
    if "deployments sn' i = Some d" "model_name d = resolve_model_name (model_aliases sn') m" for i d
    using that assms(1) only_states_change_at [of "deployments sn" "deployments sn'" i]
    by (cases "deployments sn i") (auto simp: same_routes_def identity_of_def)
  with assms(2) same_routes_dom [OF assms(1)] show ?thesis
    unfolding model_calls_def by metis
qed

lemma fallback_calls_Cons:
  assumes "same_routes (rs_snapshot st) (rs_snapshot st1)" and "rs_calls st1 = rs_calls st @ made"
    and "model_calls rc m (rs_snapshot st) x made" and "fallback_calls rc ms True st1 res"
  shows "fallback_calls rc (m # ms) is_fallback st res"
proof (cases res)
  case (Finished v st')
  from assms(4) obtain parts where parts: "rs_calls st' = rs_calls st1 @ concat parts"
    "length parts \<le> length ms" "\<forall>k < length parts. \<exists>x. model_calls rc (ms ! k) (rs_snapshot st1) x (parts ! k)"
    "case v of Inl _ \<Rightarrow> length parts = length ms
       | Inr r \<Rightarrow> parts \<noteq> [] \<and> er_used_fallback r = (True \<or> 1 < length parts)"
    unfolding fallback_calls_def Finished run.case by blast
  have "\<exists>x. model_calls rc ((m # ms) ! k) (rs_snapshot st) x ((made # parts) ! k)"
    if "k < length (made # parts)" for k
    using that parts(3) assms(3) model_calls_routes [OF assms(1)] by (cases k) (simp_all, blast+)
  with parts assms(2) show ?thesis
    unfolding fallback_calls_def Finished run.case
    by (intro exI [of _ "made # parts"]) (auto split: sum.splits)
qed (simp add: fallback_calls_def)

lemma fallback_loop_ends:
  assumes "snapshot_ok (rs_snapshot st)" and "finite (dom (deployments (rs_snapshot st)))"
  shows "\<exists>res. fallback_loop F rc backend envs name cap est latency is_fallback models last_error tot st
           = Some res \<and> fallback_calls rc models is_fallback st res"
  using assms
proof (induction models arbitrary: is_fallback last_error tot st)
  case Nil
  then show ?case by (simp add: fallback_calls_def)
next
  case (Cons m ms)
  obtain res where res: "execute_with_retry_inner F rc backend envs m cap est st = Some res"
    "ended rc m st res"
    using execute_inner_ends [OF Cons.prems] by blast
  show ?case
  proof (cases res)
    case (Finished v st')
    from res(2) obtain made where made: "rs_calls st' = rs_calls st @ made"
      "model_calls rc m (rs_snapshot st) (card (rs_excluded st')) made"
      and routes: "same_routes (rs_snapshot st) (rs_snapshot st')"
      by (auto simp: ended_def Finished)
    show ?thesis
    proof (cases v)
      case (Inl e)
      have "snapshot_ok (rs_snapshot st')" "finite (dom (deployments (rs_snapshot st')))"
        using routes Cons.prems(2) same_routes_dom [OF routes] by (simp_all add: same_routes_def)
      moreover obtain a n where e: "e = (a, n)" by (cases e)
      ultimately obtain res' where "fallback_loop F rc backend envs name cap est latency True ms (Some a)
          (tot + n) st' = Some res'" "fallback_calls rc ms True st' res'"
        using Cons.IH by blast
      with fallback_calls_Cons [OF routes made] res(1) Finished Inl e show ?thesis
        by simp
    next
      case (Inr r)
      with res(1) Finished made show ?thesis
        by (cases r) (auto simp: fallback_calls_def build_execution_result_def intro!: exI [of _ "[made]"])
    qed
  qed (use res in \<open>simp add: fallback_calls_def\<close>)
qed

lemma models_to_try_props:
  "distinct (models_to_try rc models)" "length (models_to_try rc models) \<le> Suc (unat (max_fallbacks rc))"
  "models_to_try rc (m # ms) \<noteq> [] \<and> hd (models_to_try rc (m # ms)) = m"
  by (simp_all add: models_to_try_def first_occurrences_distinct)

text \<open>
  C4.  Executing a request on one model always ends, with and without streaming: whatever the
  operation returns, the shared services answer and other requests do meanwhile, the loop
  returns after running the operation at most \<open>num_retries + 1\<close> times plus once for every
  deployment whose budget was exhausted, each time on a deployment of the resolved model; the
  routing table is left as it was.
\<close>

theorem execute_with_retry_ends:
  assumes "snapshot_ok (rs_snapshot st)" and "finite (dom (deployments (rs_snapshot st)))"
  shows "(\<exists>res. execute_with_retry_inner F rc backend envs name cap est st = Some res
                \<and> ended rc name st res)
         \<and> (\<exists>res. execute_stream_with_retry_inner F rc backend envs' name cap' est st = Some res
                  \<and> ended rc name st res)"
  using execute_inner_ends [OF assms] execute_stream_ends [OF assms] by blast

theorem execute_with_retry_ends_witness:
  "snapshot_ok example_snapshot
   \<and> (\<forall>(F :: unit float_ops) (envs :: nat \<Rightarrow> (unit, unit, unit) retry_env).
        \<exists>res. execute_with_retry_inner F router_config_default InProcessAdmission envs ''gpt'' None 7
               (initial_retry_state example_snapshot Map.empty 0 [] []) = Some res
             \<and> ended router_config_default ''gpt'' (initial_retry_state example_snapshot Map.empty 0 [] []) res)"
proof (intro conjI allI)
  show "snapshot_ok example_snapshot" by (rule example_ok)
  fix F :: "unit float_ops" and envs :: "nat \<Rightarrow> (unit, unit, unit) retry_env"
  have "finite (dom (deployments example_snapshot))" by (simp add: example_snapshot_def)
  with example_ok show "\<exists>res. execute_with_retry_inner F router_config_default InProcessAdmission envs
      ''gpt'' None 7 (initial_retry_state example_snapshot Map.empty 0 [] []) = Some res
    \<and> ended router_config_default ''gpt'' (initial_retry_state example_snapshot Map.empty 0 [] []) res"
    by (intro execute_with_retry_ends [THEN conjunct1]) simp_all
qed



text \<open>
  C38.  Execution never consults the fallbacks configured for a particular kind of error: its
  result does not depend on the context-window, content-policy and rate-limit tables, whatever
  error the models return.
\<close>

theorem execute_ignores_specific_fallbacks:
  "execute_in_snapshot_typed F rc backend envs
     (fc\<lparr>context_window := cw, content_policy := cp, rate_limit := rl\<rparr>) name cap est latency st
   = execute_in_snapshot_typed F rc backend envs fc name cap est latency st"
  by (simp add: execute_in_snapshot_typed_def get_models_with_fallbacks_for_snapshot_def
      get_fallbacks_for_type_def fallback_map_of_def)

end
