(* ===== verification/Rate_Limiter.thy ===== *)
theory Rate_Limiter
  imports Prelude Float64
begin

section \<open>The rate limiter\<close>

text \<open>
  Models \<^verbatim>\<open>src/core/rate_limiter\<close>: the sliding window, the fixed window and the token
  bucket with their per-key entries, the dispatch between the process-local limiter and the one
  shared through Redis, reservations and their release, and the clean-up task.

  An \<open>Instant\<close> is its number of nanoseconds.  A map entry is locked while an operation works on
  it, so an operation is one transition; the clock readings it takes are arguments, and so is the
  answer of the shared limiter, which the theory of the shared limiter produces.  Doubles are
  rounded reals.
\<close>

subsection \<open>Configuration\<close>

type_synonym instant = int

datatype rate_limit_strategy = TokenBucket | FixedWindow | SlidingWindow

datatype redis_failure_mode = FailClosed | FailOpenLocal

record rate_limit_config =
  rl_enabled :: bool
  rl_strategy :: rate_limit_strategy
  default_rpm :: u32
  default_tpm :: u32
  requests_per_second :: "u32 option"
  requests_per_minute :: "u32 option"
  tokens_per_minute :: "u32 option"
  burst_size :: "u32 option"
  redis_failure_mode :: redis_failure_mode

definition rate_limit_config_default :: rate_limit_config where
  "rate_limit_config_default =
     \<lparr>rl_enabled = False, rl_strategy = TokenBucket, default_rpm = 1000, default_tpm = 100000,
      requests_per_second = None, requests_per_minute = None, tokens_per_minute = None,
      burst_size = None, redis_failure_mode = FailClosed\<rparr>"

definition effective_rpm :: "rate_limit_config \<Rightarrow> u32" where
  "effective_rpm cfg =
     (case requests_per_minute cfg of Some rpm \<Rightarrow> rpm | None \<Rightarrow> default_rpm cfg)"

definition unimplemented_runtime_field_names :: "rate_limit_config \<Rightarrow> string list" where
  "unimplemented_runtime_field_names cfg =
     (if default_tpm cfg \<noteq> default_tpm rate_limit_config_default then [''default_tpm''] else [])
     @ (if requests_per_second cfg \<noteq> None then [''requests_per_second''] else [])
     @ (if tokens_per_minute cfg \<noteq> None then [''tokens_per_minute''] else [])
     @ (if burst_size cfg \<noteq> None then [''burst_size''] else [])"

definition or_override :: "'a option \<Rightarrow> 'a option \<Rightarrow> 'a option" where
  "or_override new old = (if new \<noteq> None then new else old)"

definition rate_limit_config_merge ::
  "rate_limit_config \<Rightarrow> rate_limit_config \<Rightarrow> rate_limit_config" where
  "rate_limit_config_merge c d =
     \<lparr>rl_enabled = (if rl_enabled d then rl_enabled d else rl_enabled c),
      rl_strategy = rl_strategy d,
      default_rpm = (if default_rpm d \<noteq> 1000 then default_rpm d else default_rpm c),
      default_tpm = (if default_tpm d \<noteq> 100000 then default_tpm d else default_tpm c),
      requests_per_second = or_override (requests_per_second d) (requests_per_second c),
      requests_per_minute =
        or_override (requests_per_minute d)
          (if default_rpm d \<noteq> 1000 \<and> requests_per_minute d = None then None
           else requests_per_minute c),
      tokens_per_minute = or_override (tokens_per_minute d) (tokens_per_minute c),
      burst_size = or_override (burst_size d) (burst_size c),
      redis_failure_mode =
        (if redis_failure_mode d \<noteq> FailClosed then redis_failure_mode d
         else redis_failure_mode c)\<rparr>"

subsection \<open>Results and entries\<close>

record rate_limit_result =
  allowed :: bool
  current_count :: u32
  rl_limit :: u32
  remaining :: u32
  reset_after_secs :: u64
  retry_after_secs :: "u64 option"

record rate_limit_entry =
  timestamps :: "instant list"
  tokens :: real
  last_refill :: instant

definition entry_default :: "instant \<Rightarrow> rate_limit_entry" where
  "entry_default made = \<lparr>timestamps = [], tokens = 0, last_refill = made\<rparr>"

definition elapsed :: "instant \<Rightarrow> instant \<Rightarrow> duration" where
  "elapsed now earlier = nat (now - earlier)"

definition as_secs :: "duration \<Rightarrow> u64" where
  "as_secs d = word_of_nat (d div 1000000000)"

definition as_secs_f64 :: "duration \<Rightarrow> real" where
  "as_secs_f64 d =
     round_f64 (round_f64 (real (d div 1000000000)) + round_f64 (real (d mod 1000000000) / 1000000000))"

definition f64_as_u32 :: "real \<Rightarrow> u32" where
  "f64_as_u32 x = (if x \<ge> 2 ^ 32 then max_value else word_of_nat (nat \<lfloor>x\<rfloor>))"

definition f64_ceil_as_u64 :: "real \<Rightarrow> u64" where
  "f64_ceil_as_u64 x = (if x \<ge> 2 ^ 64 then max_value else word_of_nat (nat \<lceil>x\<rceil>))"

text \<open>The result of a check: the remaining count is lowered when the request was recorded.\<close>

definition limit_result ::
  "u32 \<Rightarrow> bool \<Rightarrow> bool \<Rightarrow> u32 \<Rightarrow> u32 \<Rightarrow> u64 \<Rightarrow> rate_limit_result" where
  "limit_result cap rec ok count left reset =
     \<lparr>allowed = ok, current_count = count, rl_limit = cap,
      remaining = (if rec \<and> ok then saturating_sub left 1 else left),
      reset_after_secs = reset,
      retry_after_secs = (if ok then None else Some (max reset 1))\<rparr>"

subsection \<open>The three strategies on one entry\<close>

definition sliding_window_check ::
  "duration \<Rightarrow> u32 \<Rightarrow> bool \<Rightarrow> instant \<Rightarrow> rate_limit_entry
    \<Rightarrow> rate_limit_result \<times> rate_limit_entry" where
  "sliding_window_check w cap rec now e =
     (let ts = filter (\<lambda>t. t > now - int w) (timestamps e);
          count = (word_of_nat (length ts) :: u32);
          ok = (count < cap);
          reset = (case ts of oldest # _ \<Rightarrow> as_secs (w - elapsed now oldest) | [] \<Rightarrow> as_secs w)
      in (limit_result cap rec ok count (saturating_sub cap count) reset,
          e\<lparr>timestamps := if ok \<and> rec then ts @ [now] else ts\<rparr>))"

definition fixed_window_roll :: "duration \<Rightarrow> instant \<Rightarrow> rate_limit_entry \<Rightarrow> rate_limit_entry" where
  "fixed_window_roll w now e =
     (if timestamps e = [] then e\<lparr>last_refill := now\<rparr>
      else if elapsed now (last_refill e) \<ge> w then e\<lparr>timestamps := [], last_refill := now\<rparr>
      else e)"

definition fixed_window_check ::
  "duration \<Rightarrow> u32 \<Rightarrow> bool \<Rightarrow> instant \<Rightarrow> rate_limit_entry
    \<Rightarrow> rate_limit_result \<times> rate_limit_entry" where
  "fixed_window_check w cap rec now e0 =
     (let e = fixed_window_roll w now e0;
          count = (word_of_nat (length (timestamps e)) :: u32);
          ok = (count < cap);
          reset = as_secs (w - elapsed now (last_refill e))
      in (limit_result cap rec ok count (saturating_sub cap count) reset,
          e\<lparr>timestamps := if ok \<and> rec then timestamps e @ [now] else timestamps e\<rparr>))"

definition refilled :: "u32 \<Rightarrow> instant \<Rightarrow> rate_limit_entry \<Rightarrow> real" where
  "refilled cap now e =
     (let per_second = round_f64 (real (unat cap) / 60);
          new_tokens = round_f64 (as_secs_f64 (elapsed now (last_refill e)) * per_second)
      in min (round_f64 (tokens e + new_tokens)) (real (unat cap)))"

definition token_bucket_check ::
  "duration \<Rightarrow> u32 \<Rightarrow> bool \<Rightarrow> instant \<Rightarrow> rate_limit_entry
    \<Rightarrow> rate_limit_result \<times> rate_limit_entry" where
  "token_bucket_check w cap rec now e =
     (let per_second = round_f64 (real (unat cap) / 60);
          ts = filter (\<lambda>t. elapsed now t < w) (timestamps e);
          tok = refilled cap now e;
          ok = (tok \<ge> 1);
          count = f64_as_u32 (round_f64 (real (unat cap) - tok));
          reset = (if tok < 1
                   then (if per_second = 0 then max_value
                         else f64_ceil_as_u64 (round_f64 (round_f64 (1 - tok) / per_second)))
                   else 0)
      in (limit_result cap rec ok count (f64_as_u32 tok) reset,
          e\<lparr>timestamps := if ok \<and> rec then ts @ [now] else ts,
            tokens := if ok \<and> rec then round_f64 (tok - 1) else tok,
            last_refill := now\<rparr>))"

subsection \<open>The limiter\<close>

datatype redis_rate_limit_operation = OpCheck | OpCheckAndRecord | OpRelease

record rate_limiter =
  rl_config :: rate_limit_config
  rl_entries :: "string \<rightharpoonup> rate_limit_entry"
  rl_window :: duration
  rl_redis :: bool \<comment> \<open>a shared limiter is attached\<close>
  degraded :: "redis_rate_limit_operation \<times> redis_failure_mode \<rightharpoonup> u64"

definition with_window :: "rate_limit_config \<Rightarrow> duration \<Rightarrow> rate_limiter" where
  "with_window cfg w =
     \<lparr>rl_config = cfg, rl_entries = Map.empty, rl_window = w, rl_redis = False, degraded = Map.empty\<rparr>"

definition rate_limiter_new :: "rate_limit_config \<Rightarrow> rate_limiter" where
  "rate_limiter_new cfg = with_window cfg (from_secs 60)"

definition with_redis_backend :: "rate_limit_config \<Rightarrow> bool \<Rightarrow> rate_limiter" where
  "with_redis_backend cfg is_noop =
     \<lparr>rl_config = cfg, rl_entries = Map.empty, rl_window = from_secs 60, rl_redis = (\<not> is_noop),
      degraded = Map.empty\<rparr>"

definition token_bucket_reservation_window :: "rate_limiter \<Rightarrow> duration" where
  "token_bucket_reservation_window l = rl_window l"

definition check_sliding_window_impl ::
  "rate_limiter \<Rightarrow> string \<Rightarrow> u32 \<Rightarrow> bool \<Rightarrow> instant \<Rightarrow> instant \<Rightarrow> rate_limit_result \<times> rate_limiter" where
  "check_sliding_window_impl l key cap rec now made =
     (let e = (case rl_entries l key of Some e \<Rightarrow> e | None \<Rightarrow> entry_default made);
          (r, e') = sliding_window_check (rl_window l) cap rec now e
      in (r, l\<lparr>rl_entries := (rl_entries l)(key \<mapsto> e')\<rparr>))"

definition check_fixed_window_impl ::
  "rate_limiter \<Rightarrow> string \<Rightarrow> u32 \<Rightarrow> bool \<Rightarrow> instant \<Rightarrow> instant \<Rightarrow> rate_limit_result \<times> rate_limiter" where
  "check_fixed_window_impl l key cap rec now made =
     (let e = (case rl_entries l key of Some e \<Rightarrow> e | None \<Rightarrow> entry_default made);
          (r, e') = fixed_window_check (rl_window l) cap rec now e
      in (r, l\<lparr>rl_entries := (rl_entries l)(key \<mapsto> e')\<rparr>))"

definition check_token_bucket_impl ::
  "rate_limiter \<Rightarrow> string \<Rightarrow> u32 \<Rightarrow> bool \<Rightarrow> instant \<Rightarrow> rate_limit_result \<times> rate_limiter" where
  "check_token_bucket_impl l key cap rec now =
     (let e = (case rl_entries l key of
                 Some e \<Rightarrow> e
               | None \<Rightarrow> \<lparr>timestamps = [], tokens = real (unat cap), last_refill = now\<rparr>);
          (r, e') = token_bucket_check (token_bucket_reservation_window l) cap rec now e
      in (r, l\<lparr>rl_entries := (rl_entries l)(key \<mapsto> e')\<rparr>))"

definition check_local ::
  "rate_limiter \<Rightarrow> string \<Rightarrow> u32 \<Rightarrow> bool \<Rightarrow> instant \<Rightarrow> instant \<Rightarrow> rate_limit_result \<times> rate_limiter" where
  "check_local l key cap rec now made =
     (case rl_strategy (rl_config l) of
        SlidingWindow \<Rightarrow> check_sliding_window_impl l key cap rec now made
      | TokenBucket \<Rightarrow> check_token_bucket_impl l key cap rec now
      | FixedWindow \<Rightarrow> check_fixed_window_impl l key cap rec now made)"

definition disabled_result :: "rate_limiter \<Rightarrow> rate_limit_result" where
  "disabled_result l =
     (let cap = effective_rpm (rl_config l)
      in \<lparr>allowed = True, current_count = 0, rl_limit = cap, remaining = cap,
          reset_after_secs = 0, retry_after_secs = None\<rparr>)"

definition redis_fail_closed_result :: "rate_limiter \<Rightarrow> u32 \<Rightarrow> rate_limit_result" where
  "redis_fail_closed_result l cap =
     (let reset = max (as_secs (rl_window l)) 1
      in \<lparr>allowed = False, current_count = cap, rl_limit = cap, remaining = 0,
          reset_after_secs = reset, retry_after_secs = Some reset\<rparr>)"

definition record_redis_degraded :: "redis_rate_limit_operation \<Rightarrow> rate_limiter \<Rightarrow> rate_limiter" where
  "record_redis_degraded op l =
     (let k = (op, redis_failure_mode (rl_config l))
      in l\<lparr>degraded := (degraded l)(k \<mapsto> (case degraded l k of Some n \<Rightarrow> n | None \<Rightarrow> 0) + 1)\<rparr>)"

text \<open>The shared limiter answers with a result or fails, \<open>None\<close>.\<close>

definition check ::
  "rate_limiter \<Rightarrow> string \<Rightarrow> rate_limit_result option \<Rightarrow> instant \<Rightarrow> instant
    \<Rightarrow> rate_limit_result \<times> rate_limiter" where
  "check l key reply now made =
     (let cap = effective_rpm (rl_config l); locally = (\<lambda>l. check_local l key cap False now made)
      in if \<not> rl_enabled (rl_config l) then (disabled_result l, l)
         else if rl_redis l then
           (case reply of
              Some r \<Rightarrow> (r, l)
            | None \<Rightarrow>
                (let l' = record_redis_degraded OpCheck l
                 in if redis_failure_mode (rl_config l) = FailClosed
                    then (redis_fail_closed_result l cap, l')
                    else locally l'))
         else locally l)"

definition limiter_status ::
  "rate_limiter \<Rightarrow> string \<Rightarrow> rate_limit_result option \<Rightarrow> instant \<Rightarrow> instant
    \<Rightarrow> rate_limit_result option \<times> rate_limiter" where
  "limiter_status l key reply now made =
     (if \<not> rl_enabled (rl_config l) then (None, l)
      else (let (r, l') = check l key reply now made in (Some r, l')))"

subsection \<open>Reservations\<close>

datatype rate_limit_record_source = SourceDisabled | SourceLocal | SourceDistributed

record rate_limit_reservation =
  rsv_source :: rate_limit_record_source
  recorded_at :: instant
  expires_at :: "instant option"

definition reservation_new ::
  "rate_limit_record_source \<Rightarrow> instant \<Rightarrow> u64 \<Rightarrow> rate_limit_reservation" where
  "reservation_new src taken reset =
     \<lparr>rsv_source = src, recorded_at = taken,
      expires_at =
        (case src of
           SourceDisabled \<Rightarrow> None
         | _ \<Rightarrow> Some (taken + int (from_secs (max reset 1))))\<rparr>"

definition remaining_window_secs :: "rate_limit_reservation \<Rightarrow> instant \<Rightarrow> u64" where
  "remaining_window_secs rsv now =
     (case expires_at rsv of
        None \<Rightarrow> 0
      | Some until \<Rightarrow>
          (let left = elapsed until now in if left = 0 then 0 else max (as_secs left) 1))"

definition local_reservation_reset_after_secs :: "rate_limiter \<Rightarrow> rate_limit_result \<Rightarrow> u64" where
  "local_reservation_reset_after_secs l r =
     (case rl_strategy (rl_config l) of
        TokenBucket \<Rightarrow> as_secs (token_bucket_reservation_window l)
      | SlidingWindow \<Rightarrow> as_secs (rl_window l)
      | FixedWindow \<Rightarrow> reset_after_secs r)"

definition check_and_record_with_source_and_limit ::
  "rate_limiter \<Rightarrow> string \<Rightarrow> u32 \<Rightarrow> rate_limit_result option \<Rightarrow> instant \<Rightarrow> instant
    \<Rightarrow> (rate_limit_result \<times> rate_limit_reservation) \<times> rate_limiter" where
  "check_and_record_with_source_and_limit l key rpm reply now made =
     (let none = reservation_new SourceDisabled now 0;
          locally = (\<lambda>l. let (r, l') = check_local l key rpm True now made
                        in ((r, if allowed r
                                then reservation_new SourceLocal now (local_reservation_reset_after_secs l r)
                                else none), l'))
      in if \<not> rl_enabled (rl_config l) then ((disabled_result l, none), l)
         else if rl_redis l then
           (case reply of
              Some r \<Rightarrow>
                ((r, if allowed r then reservation_new SourceDistributed now (reset_after_secs r)
                     else none), l)
            | None \<Rightarrow>
                (let l' = record_redis_degraded OpCheckAndRecord l
                 in if redis_failure_mode (rl_config l) = FailClosed
                    then ((redis_fail_closed_result l rpm, none), l')
                    else locally l'))
         else locally l)"

definition check_and_record ::
  "rate_limiter \<Rightarrow> string \<Rightarrow> rate_limit_result option \<Rightarrow> instant \<Rightarrow> instant
    \<Rightarrow> rate_limit_result \<times> rate_limiter" where
  "check_and_record l key reply now made =
     (let ((r, _), l') =
            check_and_record_with_source_and_limit l key (effective_rpm (rl_config l)) reply now made
      in (r, l'))"

text \<open>Releasing an entry: the entry after it, and whether the map drops it.\<close>

definition release_entry ::
  "rate_limit_strategy \<Rightarrow> u32 \<Rightarrow> duration \<Rightarrow> instant option \<Rightarrow> instant \<Rightarrow> rate_limit_entry
    \<Rightarrow> rate_limit_entry \<times> bool" where
  "release_entry strat cap w taken now e =
     (case strat of
        TokenBucket \<Rightarrow>
          (let kept = filter (\<lambda>t. elapsed now t < w) (timestamps e);
               (ts, refund) =
                 (case taken of
                    Some a \<Rightarrow> (if a \<in> set kept then (remove1 a kept, True) else (kept, False))
                  | None \<Rightarrow> (timestamps e, True));
               tok = (if refund then min (round_f64 (tokens e + 1)) (real (unat cap)) else tokens e)
           in (e\<lparr>timestamps := ts, tokens := tok\<rparr>, ts = [] \<and> tok \<ge> real (unat cap)))
      | _ \<Rightarrow>
          (let ts = (case taken of Some a \<Rightarrow> remove1 a (timestamps e) | None \<Rightarrow> butlast (timestamps e))
           in (e\<lparr>timestamps := ts\<rparr>, ts = [])))"

definition release_local :: "rate_limiter \<Rightarrow> string \<Rightarrow> instant option \<Rightarrow> instant \<Rightarrow> rate_limiter" where
  "release_local l key taken now =
     (case rl_entries l key of
        None \<Rightarrow> l
      | Some e \<Rightarrow>
          (let (e', gone) = release_entry (rl_strategy (rl_config l)) (effective_rpm (rl_config l))
                              (token_bucket_reservation_window l) taken now e
           in l\<lparr>rl_entries := (rl_entries l)(key := if gone then None else Some e')\<rparr>))"

text \<open>
  \<open>released\<close> is the shared limiter's answer to the release; the second component is the
  command sent to it, the key and the seconds left.
\<close>

definition release_recorded ::
  "rate_limiter \<Rightarrow> string \<Rightarrow> rate_limit_reservation \<Rightarrow> bool \<Rightarrow> instant \<Rightarrow> instant
    \<Rightarrow> rate_limiter \<times> (string \<times> u64) option" where
  "release_recorded l key rsv released now now' =
     (if \<not> rl_enabled (rl_config l) then (l, None)
      else case rsv_source rsv of
        SourceDisabled \<Rightarrow> (l, None)
      | SourceLocal \<Rightarrow>
          (if remaining_window_secs rsv now = 0 then (l, None)
           else (release_local l key (Some (recorded_at rsv)) now', None))
      | SourceDistributed \<Rightarrow>
          (let left = remaining_window_secs rsv now
           in if left = 0 \<or> \<not> rl_redis l then (l, None)
              else (if released then l else record_redis_degraded OpRelease l, Some (key, left))))"

definition record_request :: "rate_limiter \<Rightarrow> string \<Rightarrow> instant \<Rightarrow> instant \<Rightarrow> rate_limiter" where
  "record_request l key made now =
     (if \<not> rl_enabled (rl_config l) then l
      else let e = (case rl_entries l key of Some e \<Rightarrow> e | None \<Rightarrow> entry_default made);
               e' = (case rl_strategy (rl_config l) of
                       TokenBucket \<Rightarrow> e
                     | _ \<Rightarrow> e\<lparr>timestamps := timestamps e @ [now]\<rparr>)
           in l\<lparr>rl_entries := (rl_entries l)(key \<mapsto> e')\<rparr>)"

subsection \<open>Clean-up\<close>

definition cleanup_entry ::
  "rate_limit_strategy \<Rightarrow> u32 \<Rightarrow> duration \<Rightarrow> instant \<Rightarrow> rate_limit_entry \<Rightarrow> rate_limit_entry option" where
  "cleanup_entry strat cap w now e =
     (case strat of
        SlidingWindow \<Rightarrow>
          (let ts = filter (\<lambda>t. t > now - int w) (timestamps e)
           in if ts = [] then None else Some (e\<lparr>timestamps := ts\<rparr>))
      | FixedWindow \<Rightarrow>
          (let ts = (if elapsed now (last_refill e) \<ge> w then [] else timestamps e)
           in if ts = [] then None else Some (e\<lparr>timestamps := ts\<rparr>))
      | TokenBucket \<Rightarrow>
          (let ts = filter (\<lambda>t. elapsed now t < w) (timestamps e)
           in if ts \<noteq> [] \<or> tokens e < real (unat cap) then Some (e\<lparr>timestamps := ts\<rparr>) else None))"

definition cleanup :: "rate_limiter \<Rightarrow> instant \<Rightarrow> rate_limiter" where
  "cleanup l now =
     l\<lparr>rl_entries := (\<lambda>key. Option.bind (rl_entries l key)
         (cleanup_entry (rl_strategy (rl_config l)) (effective_rpm (rl_config l)) (rl_window l) now))\<rparr>"

subsection \<open>Outages of the shared limiter\<close>

lemma disabled_reservation [simp]: "remaining_window_secs (reservation_new SourceDisabled t n) now = 0"
  by (simp add: reservation_new_def remaining_window_secs_def)

lemma release_disabled: "rsv_source rsv = SourceDisabled \<Longrightarrow> release_recorded l key rsv ok n n' = (l, None)"
  by (simp add: release_recorded_def)

lemma check_local_frame:
  "check_local l key cap rec now made = (r, l') \<Longrightarrow> degraded l' = degraded l \<and> rl_config l' = rl_config l"
  by (auto simp: check_local_def check_sliding_window_impl_def check_fixed_window_impl_def
      check_token_bucket_impl_def Let_def split: rate_limit_strategy.splits prod.splits)

lemma check_local_cong:
  assumes "rl_config l = rl_config l'" "rl_entries l = rl_entries l'" "rl_window l = rl_window l'"
  shows "fst (check_local l key cap rec now made) = fst (check_local l' key cap rec now made)"
    and "rl_entries (snd (check_local l key cap rec now made)) = rl_entries (snd (check_local l' key cap rec now made))"
  using assms
  by (auto simp: check_local_def check_sliding_window_impl_def check_fixed_window_impl_def
      check_token_bucket_impl_def token_bucket_reservation_window_def Let_def
      split: rate_limit_strategy.splits prod.splits option.splits)

lemma record_redis_degraded_simps [simp]:
  "rl_config (record_redis_degraded op l) = rl_config l"
  "rl_entries (record_redis_degraded op l) = rl_entries l"
  "rl_window (record_redis_degraded op l) = rl_window l"
  by (simp_all add: record_redis_degraded_def Let_def)

text \<open>
  C23.  What an outage of the shared limiter does.  When it answers, its answer is the result and
  nothing local changes.  When it fails, the failure is counted under the operation and the mode;
  a limiter that fails closed refuses the request and touches no local entry, one that fails
  open gives exactly the answer, and leaves exactly the entries, of a process-local limiter.  And
  a refused request holds nothing: releasing its reservation does nothing and sends nothing.
\<close>

theorem rate_limit_outage:
  assumes "check_and_record_with_source_and_limit l key rpm reply now made = ((r, rsv), l')"
    and "rl_enabled (rl_config l)"
  shows "(\<not> allowed r \<longrightarrow> release_recorded l' key rsv ok n n' = (l', None))
     \<and> (rl_redis l \<longrightarrow> (case reply of
          Some q \<Rightarrow> r = q \<and> l' = l
        | None \<Rightarrow>
            degraded l' (OpCheckAndRecord, redis_failure_mode (rl_config l))
              = Some ((case degraded l (OpCheckAndRecord, redis_failure_mode (rl_config l)) of
                         Some c \<Rightarrow> c | None \<Rightarrow> 0) + 1)
            \<and> (case redis_failure_mode (rl_config l) of
                 FailClosed \<Rightarrow> \<not> allowed r \<and> rl_entries l' = rl_entries l
               | FailOpenLocal \<Rightarrow>
                   (let ((r0, _), l0) = check_and_record_with_source_and_limit (l\<lparr>rl_redis := False\<rparr>)
                                          key rpm None now made
                    in r = r0 \<and> rl_entries l' = rl_entries l0))))"
proof -
  have "\<not> allowed r \<longrightarrow> rsv_source rsv = SourceDisabled"
    using assms
    by (auto simp: check_and_record_with_source_and_limit_def Let_def reservation_new_def
        disabled_result_def split: if_split_asm option.splits prod.splits)
  then have 1: "\<not> allowed r \<longrightarrow> release_recorded l' key rsv ok n n' = (l', None)"
    by (simp add: release_disabled)
  have 2: "r = q \<and> l' = l" if "rl_redis l" "reply = Some q" for q
    using assms that by (simp add: check_and_record_with_source_and_limit_def Let_def)
  have 3: "degraded l' (OpCheckAndRecord, redis_failure_mode (rl_config l))
      = Some ((case degraded l (OpCheckAndRecord, redis_failure_mode (rl_config l)) of
                 Some c \<Rightarrow> c | None \<Rightarrow> 0) + 1)" if "rl_redis l" "reply = None"
    using assms that check_local_frame
    by (fastforce simp: check_and_record_with_source_and_limit_def Let_def record_redis_degraded_def
        split: if_split_asm prod.splits)
  have 4: "\<not> allowed r \<and> rl_entries l' = rl_entries l"
    if "rl_redis l" "reply = None" "redis_failure_mode (rl_config l) = FailClosed"
    using assms that
    by (auto simp: check_and_record_with_source_and_limit_def Let_def redis_fail_closed_result_def)
  have 5: "let ((r0, _), l0) = check_and_record_with_source_and_limit (l\<lparr>rl_redis := False\<rparr>)
                                 key rpm None now made
           in r = r0 \<and> rl_entries l' = rl_entries l0"
    if "rl_redis l" "reply = None" "redis_failure_mode (rl_config l) = FailOpenLocal"
    using assms that
      check_local_cong [of "record_redis_degraded OpCheckAndRecord l" "l\<lparr>rl_redis := False\<rparr>" key rpm True now made]
    by (auto simp: check_and_record_with_source_and_limit_def Let_def split: prod.splits)
  show ?thesis
    using 1 2 3 4 5 by (simp split: option.split redis_failure_mode.split)
qed

theorem rate_limit_outage_witness:
  "let l = with_redis_backend (rate_limit_config_default\<lparr>rl_enabled := True\<rparr>) False;
       ((r, rsv), l') = check_and_record_with_source_and_limit l ''k'' 5 None 0 0
   in \<not> allowed r \<and> release_recorded l' ''k'' rsv True 0 0 = (l', None)
      \<and> degraded l' (OpCheckAndRecord, FailClosed) = Some 1"
proof -
  let ?l = "with_redis_backend (rate_limit_config_default\<lparr>rl_enabled := True\<rparr>) False"
  obtain r rsv l' where c: "check_and_record_with_source_and_limit ?l ''k'' 5 None 0 0 = ((r, rsv), l')"
    by (metis prod.exhaust)
  show ?thesis
    using rate_limit_outage [OF c, of True 0 0] c
    by (simp add: with_redis_backend_def rate_limit_config_default_def)
qed

end
