(* ===== verification/Rate_Bounds.thy ===== *)
theory Rate_Bounds
  imports Rate_Limiter "HOL-Library.Multiset"
begin

section \<open>What the rate limiter lets through\<close>

text \<open>
  A process-local limiter is driven by checks, recorded requests, releases and clean-ups in any
  order, for any keys, with clock readings that do not run backwards.  \<open>served\<close> keeps, for each
  key, the instants of the requests that were let through and not given back; the limiter itself
  keeps much less.  An invariant of one key's entry is lifted to all reachable limiters once, by
  the locale \<open>key_invariant\<close>, and used for each of the three strategies.
\<close>

subsection \<open>Runs of the limiter\<close>

record limiter_world =
  world_limiter :: rate_limiter
  served :: "string \<Rightarrow> instant list"
  world_now :: instant
  world_calls :: nat

definition world_init :: "rate_limit_config \<Rightarrow> duration \<Rightarrow> instant \<Rightarrow> limiter_world" where
  "world_init cfg w t0 =
     \<lparr>world_limiter = with_window cfg w, served = (\<lambda>_. []), world_now = t0, world_calls = 0\<rparr>"

text \<open>The timestamps from which a release takes its own.\<close>

definition releasable ::
  "rate_limit_strategy \<Rightarrow> duration \<Rightarrow> instant \<Rightarrow> rate_limit_entry \<Rightarrow> instant list" where
  "releasable strat w now e =
     (if strat = TokenBucket then filter (\<lambda>t. elapsed now t < w) (timestamps e) else timestamps e)"

definition gives_back ::
  "rate_limiter \<Rightarrow> string \<Rightarrow> rate_limit_reservation \<Rightarrow> instant \<Rightarrow> instant \<Rightarrow> bool" where
  "gives_back l key rsv now now' \<longleftrightarrow>
     rsv_source rsv = SourceLocal \<and> remaining_window_secs rsv now \<noteq> 0
     \<and> (case rl_entries l key of
          None \<Rightarrow> False
        | Some e \<Rightarrow> recorded_at rsv \<in> set (releasable (rl_strategy (rl_config l)) (rl_window l) now' e))"

inductive limiter_step :: "u32 set \<Rightarrow> limiter_world \<Rightarrow> limiter_world \<Rightarrow> bool" for lims where
  checked: "world_now s \<le> now \<Longrightarrow> check (world_limiter s) key reply now made = (r, l)
    \<Longrightarrow> limiter_step lims s
          (s\<lparr>world_limiter := l, world_now := now, world_calls := Suc (world_calls s)\<rparr>)"
| recorded: "world_now s \<le> now \<Longrightarrow> rpm \<in> lims
    \<Longrightarrow> check_and_record_with_source_and_limit (world_limiter s) key rpm reply now made = ((r, rsv), l)
    \<Longrightarrow> limiter_step lims s
          (s\<lparr>world_limiter := l, world_now := now, world_calls := Suc (world_calls s),
             served := if allowed r then (served s)(key := served s key @ [now]) else served s\<rparr>)"
| released: "world_now s \<le> now \<Longrightarrow> now \<le> now'
    \<Longrightarrow> release_recorded (world_limiter s) key rsv ok now now' = (l, cmd)
    \<Longrightarrow> limiter_step lims s
          (s\<lparr>world_limiter := l, world_now := now', world_calls := Suc (world_calls s),
             served := if gives_back (world_limiter s) key rsv now now'
                       then (served s)(key := remove1 (recorded_at rsv) (served s key))
                       else served s\<rparr>)"
| cleaned: "world_now s \<le> now
    \<Longrightarrow> limiter_step lims s
          (s\<lparr>world_limiter := cleanup (world_limiter s) now, world_now := now,
             world_calls := Suc (world_calls s)\<rparr>)"

subsection \<open>Operations as changes of one entry\<close>

definition check_entry ::
  "rate_limit_strategy \<Rightarrow> duration \<Rightarrow> u32 \<Rightarrow> bool \<Rightarrow> instant \<Rightarrow> instant \<Rightarrow> rate_limit_entry option
    \<Rightarrow> rate_limit_result \<times> rate_limit_entry" where
  "check_entry strat w cap rec now made eo =
     (case strat of
        SlidingWindow \<Rightarrow> sliding_window_check w cap rec now
          (case eo of Some e \<Rightarrow> e | None \<Rightarrow> entry_default made)
      | FixedWindow \<Rightarrow> fixed_window_check w cap rec now
          (case eo of Some e \<Rightarrow> e | None \<Rightarrow> entry_default made)
      | TokenBucket \<Rightarrow> token_bucket_check w cap rec now
          (case eo of Some e \<Rightarrow> e
           | None \<Rightarrow> \<lparr>timestamps = [], tokens = real (unat cap), last_refill = now\<rparr>))"

lemma check_local_entry:
  "check_local l key cap rec now made =
     (let (r, e) = check_entry (rl_strategy (rl_config l)) (rl_window l) cap rec now made (rl_entries l key)
      in (r, l\<lparr>rl_entries := (rl_entries l)(key \<mapsto> e)\<rparr>))"
  by (simp add: check_local_def check_entry_def check_sliding_window_impl_def check_fixed_window_impl_def
      check_token_bucket_impl_def token_bucket_reservation_window_def split: rate_limit_strategy.split)

definition local_limiter :: "rate_limit_strategy \<Rightarrow> u32 \<Rightarrow> duration \<Rightarrow> rate_limiter \<Rightarrow> bool" where
  "local_limiter strat eff w l \<longleftrightarrow>
     rl_enabled (rl_config l) \<and> \<not> rl_redis l \<and> rl_strategy (rl_config l) = strat
     \<and> effective_rpm (rl_config l) = eff \<and> rl_window l = w"

lemma local_limiter_entries [simp]:
  "local_limiter strat eff w (l\<lparr>rl_entries := m\<rparr>) = local_limiter strat eff w l"
  by (simp add: local_limiter_def)

lemma local_check:
  assumes "local_limiter strat eff w l"
  shows "check l key reply now made =
     (let (r, e) = check_entry strat w eff False now made (rl_entries l key)
      in (r, l\<lparr>rl_entries := (rl_entries l)(key \<mapsto> e)\<rparr>))"
  using assms by (simp add: check_def local_limiter_def check_local_entry Let_def)

lemma local_check_and_record:
  assumes "local_limiter strat eff w l"
    and "check_entry strat w rpm True now made (rl_entries l key) = (r, e)"
  shows "\<exists>rsv. check_and_record_with_source_and_limit l key rpm reply now made =
     ((r, rsv), l\<lparr>rl_entries := (rl_entries l)(key \<mapsto> e)\<rparr>)"
  using assms
  by (simp add: check_and_record_with_source_and_limit_def local_limiter_def check_local_entry Let_def)

lemma local_release:
  assumes "local_limiter strat eff w l"
  shows "release_recorded l key rsv ok now now' =
     (if rsv_source rsv = SourceLocal \<and> remaining_window_secs rsv now \<noteq> 0
      then (case rl_entries l key of
              None \<Rightarrow> l
            | Some e \<Rightarrow> (let (e', gone) = release_entry strat eff w (Some (recorded_at rsv)) now' e
                       in l\<lparr>rl_entries := (rl_entries l)(key := if gone then None else Some e')\<rparr>))
      else l, None)"
  using assms
  by (simp add: release_recorded_def local_limiter_def release_local_def
      token_bucket_reservation_window_def split: rate_limit_record_source.split option.split)

subsection \<open>Invariants of one key\<close>

locale key_invariant =
  fixes strat :: rate_limit_strategy
    and eff :: u32
    and w :: duration
    and lims :: "u32 set"
    and t0 :: instant
    and I :: "rate_limit_entry option \<Rightarrow> instant list \<Rightarrow> instant \<Rightarrow> nat \<Rightarrow> bool"
  assumes fresh_I: "I None [] t0 0"
    and later_I: "I eo h t n \<Longrightarrow> t \<le> t' \<Longrightarrow> n \<le> n' \<Longrightarrow> I eo h t' n'"
    and checked_I: "I eo h now n \<Longrightarrow> check_entry strat w eff False now made eo = (r, e)
      \<Longrightarrow> I (Some e) h now (Suc n)"
    and recorded_I: "I eo h now n \<Longrightarrow> rpm \<in> lims \<Longrightarrow> check_entry strat w rpm True now made eo = (r, e)
      \<Longrightarrow> I (Some e) (if allowed r then h @ [now] else h) now (Suc n)"
    and released_I: "I (Some e) h now n \<Longrightarrow> release_entry strat eff w (Some a) now e = (e', gone)
      \<Longrightarrow> I (if gone then None else Some e')
            (if a \<in> set (releasable strat w now e) then remove1 a h else h) now (Suc n)"
    and cleaned_I: "I (Some e) h now n \<Longrightarrow> I (cleanup_entry strat eff w now e) h now n"
begin

definition world_inv :: "limiter_world \<Rightarrow> bool" where
  "world_inv s \<longleftrightarrow> local_limiter strat eff w (world_limiter s)
     \<and> (\<forall>key. I (rl_entries (world_limiter s) key) (served s key) (world_now s) (world_calls s))"

definition world_start :: "limiter_world \<Rightarrow> bool" where
  "world_start s \<longleftrightarrow> (\<exists>cfg. rl_enabled cfg \<and> rl_strategy cfg = strat \<and> effective_rpm cfg = eff
     \<and> s = world_init cfg w t0)"

lemma world_invD:
  assumes "world_inv s" "world_now s \<le> now"
  shows "local_limiter strat eff w (world_limiter s)"
    and "I (rl_entries (world_limiter s) key) (served s key) now (world_calls s)"
    and "I (rl_entries (world_limiter s) key) (served s key) now (Suc (world_calls s))"
  using assms by (auto simp: world_inv_def intro: later_I)

lemma world_step_inv:
  assumes "limiter_step lims s s'" "world_inv s"
  shows "world_inv s'"
  using assms
proof cases
  case (checked now key reply made r l)
  note s = world_invD [OF assms(2) checked(2)]
  obtain r' e where e: "check_entry strat w eff False now made (rl_entries (world_limiter s) key) = (r', e)"
    by fastforce
  with checked s(1) have "l = world_limiter s\<lparr>rl_entries := (rl_entries (world_limiter s))(key \<mapsto> e)\<rparr>"
    by (simp add: local_check)
  then show ?thesis
    using checked s checked_I [OF s(2) e] by (simp add: world_inv_def)
next
  case (recorded now rpm key reply made r rsv l)
  note s = world_invD [OF assms(2) recorded(2)]
  obtain r' e where e: "check_entry strat w rpm True now made (rl_entries (world_limiter s) key) = (r', e)"
    by fastforce
  from local_check_and_record [OF s(1) e] recorded
  have "r = r'" "l = world_limiter s\<lparr>rl_entries := (rl_entries (world_limiter s))(key \<mapsto> e)\<rparr>"
    by (metis prod.inject)+
  then show ?thesis
    using recorded s recorded_I [OF s(2) recorded(3) e]
    by (simp add: world_inv_def split: if_split_asm)
next
  case (released now now' key rsv ok l cmd)
  then have "world_now s \<le> now'" by simp
  note s = world_invD [OF assms(2) this]
  show ?thesis
  proof (cases "rsv_source rsv = SourceLocal \<and> remaining_window_secs rsv now \<noteq> 0")
    case False
    then have "l = world_limiter s" "\<not> gives_back (world_limiter s) key rsv now now'"
      using released s(1) by (auto simp: local_release gives_back_def)
    then show ?thesis
      using released s by (simp add: world_inv_def)
  next
    case True
    show ?thesis
    proof (cases "rl_entries (world_limiter s) key")
      case None
      then show ?thesis
        using released s True by (simp add: world_inv_def local_release gives_back_def)
    next
      case (Some e)
      obtain e' gone where e': "release_entry strat eff w (Some (recorded_at rsv)) now' e = (e', gone)"
        by fastforce
      have "rl_strategy (rl_config (world_limiter s)) = strat" "rl_window (world_limiter s) = w"
        using s(1) by (simp_all add: local_limiter_def)
      then show ?thesis
        using released s True Some released_I [OF s(2) [of key, unfolded Some] e'] e'
        by (auto simp add: world_inv_def local_release gives_back_def split: if_split_asm)
    qed
  qed
next
  case (cleaned now)
  note s = world_invD [OF assms(2) cleaned(2)]
  have "I (Option.bind (rl_entries (world_limiter s) key) (cleanup_entry strat eff w now))
          (served s key) now (Suc (world_calls s))" for key
    using s(3) [of key] by (cases "rl_entries (world_limiter s) key") (auto intro: cleaned_I)
  moreover have "local_limiter strat eff w (cleanup (world_limiter s) now)"
    using s(1) by (simp add: cleanup_def)
  ultimately show ?thesis
    using cleaned s(1) by (simp add: world_inv_def cleanup_def local_limiter_def)
qed

lemma world_start_inv: "world_start s \<Longrightarrow> world_inv s"
  by (auto simp: world_start_def world_inv_def world_init_def with_window_def local_limiter_def
      intro: fresh_I)

end

sublocale key_invariant \<subseteq> reached: invariant_system world_start "limiter_step lims" world_inv
  by unfold_locales (auto intro: world_start_inv world_step_inv)

context key_invariant
begin

lemma run_key:
  assumes "rl_enabled cfg" "rl_strategy cfg = strat" "effective_rpm cfg = eff"
    and "rtranclp (limiter_step lims) (world_init cfg w t0) s"
  shows "local_limiter strat eff w (world_limiter s)"
    and "I (rl_entries (world_limiter s) key) (served s key) (world_now s) (world_calls s)"
proof -
  have "world_start (world_init cfg w t0)"
    using assms(1-3) by (auto simp: world_start_def)
  from reached.reachable_inv [OF this assms(4)]
  show "local_limiter strat eff w (world_limiter s)"
    and "I (rl_entries (world_limiter s) key) (served s key) (world_now s) (world_calls s)"
    by (simp_all add: world_inv_def)
qed

end

subsection \<open>The sliding window\<close>

definition within_window :: "duration \<Rightarrow> instant \<Rightarrow> instant \<Rightarrow> bool" where
  "within_window w x y \<longleftrightarrow> x - int w < y \<and> y \<le> x"

definition entry_times :: "rate_limit_entry option \<Rightarrow> instant list" where
  "entry_times eo = (case eo of Some e \<Rightarrow> timestamps e | None \<Rightarrow> [])"

definition sliding_I ::
  "u32 \<Rightarrow> duration \<Rightarrow> rate_limit_entry option \<Rightarrow> instant list \<Rightarrow> instant \<Rightarrow> nat \<Rightarrow> bool" where
  "sliding_I cap w eo h t n \<longleftrightarrow>
     filter (\<lambda>y. t - int w < y) (entry_times eo) = filter (\<lambda>y. t - int w < y) h
     \<and> (\<forall>y\<in>set h. y \<le> t)
     \<and> (\<forall>x. length (filter (within_window w x) h) \<le> unat cap)"

lemma length_filter_mono:
  "(\<And>x. x \<in> set xs \<Longrightarrow> P x \<Longrightarrow> Q x) \<Longrightarrow> length (filter P xs) \<le> length (filter Q xs)"
  by (induction xs) auto

lemma length_filter_remove1: "length (filter P (remove1 a xs)) \<le> length (filter P xs)"
  by (simp add: filter_remove1 length_remove1)

lemma filter_later:
  assumes "filter (\<lambda>y. t - int w < y) xs = filter (\<lambda>y. t - int w < y) ys" "t \<le> (t' :: instant)"
  shows "filter (\<lambda>y. t' - int w < y) xs = filter (\<lambda>y. t' - int w < y) ys"
proof -
  have "filter (\<lambda>y. t' - int w < y) zs = filter (\<lambda>y. t' - int w < y) (filter (\<lambda>y. t - int w < y) zs)" for zs
    using assms(2) by (auto intro!: filter_cong)
  then show ?thesis using assms(1) by metis
qed

lemma window_filter:
  "\<forall>y\<in>set h. y \<le> t \<Longrightarrow> filter (within_window w t) h = filter (\<lambda>y. t - int w < y) h"
  by (auto simp: within_window_def intro!: filter_cong)

lemma unat_length_less:
  assumes "n \<le> unat (cap :: u32)"
  shows "(word_of_nat n :: u32) < rpm \<longleftrightarrow> n < unat rpm" and "unat (word_of_nat n :: u32) = n"
proof -
  have "n < 2 ^ 32"
    using assms unat_less_exp [of cap] by simp
  then show "unat (word_of_nat n :: u32) = n"
    by (simp add: unat_of_nat take_bit_eq_mod)
  then show "(word_of_nat n :: u32) < rpm \<longleftrightarrow> n < unat rpm"
    by (simp add: word_less_nat_alt)
qed

lemma sliding_recorded:
  assumes I: "sliding_I cap w eo h now n" and rpm: "rpm \<le> cap"
    and fewer: "length (filter (\<lambda>y. now - int w < y) h) < unat rpm"
  shows "sliding_I cap w (Some (e\<lparr>timestamps := filter (\<lambda>y. now - int w < y) h @ [now]\<rparr>)) (h @ [now]) now n'"
proof -
  have "length (filter (within_window w x) (h @ [now])) \<le> unat cap" for x
  proof (cases "now \<le> x")
    case True
    have "length (filter (within_window w x) h) \<le> length (filter (\<lambda>y. now - int w < y) h)"
      using True by (intro length_filter_mono) (auto simp: within_window_def)
    then show ?thesis
      using fewer rpm by (simp add: word_le_nat_alt)
  qed (use I in \<open>simp add: within_window_def sliding_I_def\<close>)
  then show ?thesis
    using I by (auto simp: sliding_I_def entry_times_def)
qed

lemma sliding_answer:
  assumes I: "sliding_I cap w eo h now n"
    and r: "check_entry SlidingWindow w rpm rec now made eo = (r, e)"
  shows "allowed r \<longleftrightarrow> length (filter (\<lambda>y. now - int w < y) h) < unat rpm"
    and "unat (current_count r) = length (filter (\<lambda>y. now - int w < y) h)"
    and "rec \<Longrightarrow> unat (remaining r) = unat rpm - length (filter (\<lambda>y. now - int w < y) h) - 1"
    and "retry_after_secs r = None \<longleftrightarrow> allowed r"
    and "e = (case eo of None \<Rightarrow> entry_default made | Some e \<Rightarrow> e)
           \<lparr>timestamps := if allowed r \<and> rec then filter (\<lambda>y. now - int w < y) h @ [now]
                         else filter (\<lambda>y. now - int w < y) h\<rparr>"
proof -
  let ?ts = "filter (\<lambda>y. now - int w < y) h"
  have ts: "filter (\<lambda>y. now - int w < y)
      (timestamps (case eo of None \<Rightarrow> entry_default made | Some e \<Rightarrow> e)) = ?ts"
    using I by (cases eo) (simp_all add: sliding_I_def entry_times_def entry_default_def)
  have "length ?ts \<le> unat cap"
    using I window_filter [of h now w] unfolding sliding_I_def by metis
  note count = unat_length_less [OF this]
  show "allowed r \<longleftrightarrow> length ?ts < unat rpm" "unat (current_count r) = length ?ts"
    "rec \<Longrightarrow> unat (remaining r) = unat rpm - length ?ts - 1"
    "retry_after_secs r = None \<longleftrightarrow> allowed r"
    "e = (case eo of None \<Rightarrow> entry_default made | Some e \<Rightarrow> e)
           \<lparr>timestamps := if allowed r \<and> rec then ?ts @ [now] else ?ts\<rparr>"
    using r ts
    by (auto simp: check_entry_def sliding_window_check_def limit_result_def Let_def count
        unat_saturating_sub split: if_split_asm)
qed

lemma sliding_check:
  assumes I: "sliding_I cap w eo h now n" and rpm: "rec \<Longrightarrow> rpm \<le> cap"
    and r: "check_entry SlidingWindow w rpm rec now made eo = (r, e)"
  shows "sliding_I cap w (Some e) (if allowed r \<and> rec then h @ [now] else h) now n'"
proof (cases "allowed r \<and> rec")
  case True
  then show ?thesis
    using sliding_recorded [OF I rpm] sliding_answer [OF I r] by simp
next
  case False
  then show ?thesis
    using I sliding_answer [OF I r] by (auto simp: sliding_I_def entry_times_def)
qed

lemma sliding_released:
  assumes "sliding_I cap w (Some e) h now n"
  shows "sliding_I cap w (Some (e\<lparr>timestamps := remove1 a (timestamps e)\<rparr>)) (remove1 a h) now n"
  unfolding sliding_I_def
proof (intro conjI ballI allI)
  show "filter (\<lambda>y. now - int w < y)
      (entry_times (Some (e\<lparr>timestamps := remove1 a (timestamps e)\<rparr>)))
    = filter (\<lambda>y. now - int w < y) (remove1 a h)"
    using assms by (simp add: sliding_I_def entry_times_def filter_remove1)
  show "y \<le> now" if "y \<in> set (remove1 a h)" for y
    using assms notin_set_remove1 that unfolding sliding_I_def by metis
  show "length (filter (within_window w x) (remove1 a h)) \<le> unat cap" for x
    using assms length_filter_remove1 le_trans unfolding sliding_I_def by metis
qed

interpretation sliding: key_invariant SlidingWindow eff w "{rpm. rpm \<le> cap}" t0 "sliding_I cap w"
  for eff :: u32 and w :: duration and cap :: u32 and t0 :: instant
proof unfold_locales
  show "sliding_I cap w None [] t0 0"
    by (simp add: sliding_I_def entry_times_def)
  show "sliding_I cap w eo h t' n'" if "sliding_I cap w eo h t n" "t \<le> t'" for eo h t n t' n'
    using that filter_later [of t w "entry_times eo" h t'] order_trans [of _ t t']
    unfolding sliding_I_def by blast
  show "sliding_I cap w (Some e) h now (Suc n)"
    if "sliding_I cap w eo h now n" "check_entry SlidingWindow w eff False now made eo = (r, e)"
    for eo h now n made r e
    using sliding_check [OF that(1) _ that(2)] by simp
  show "sliding_I cap w (Some e) (if allowed r then h @ [now] else h) now (Suc n)"
    if "sliding_I cap w eo h now n" "rpm \<in> {rpm. rpm \<le> cap}"
      "check_entry SlidingWindow w rpm True now made eo = (r, e)" for eo h now n rpm made r e
    using sliding_check [OF that(1) _ that(3), of "Suc n"] that(2) by simp
  show "sliding_I cap w (if gone then None else Some e')
      (if a \<in> set (releasable SlidingWindow w now e) then remove1 a h else h) now (Suc n)"
    if "sliding_I cap w (Some e) h now n" "release_entry SlidingWindow eff w (Some a) now e = (e', gone)"
    for e h now n a e' gone
  proof -
    have "entry_times (if gone then None else Some e') = remove1 a (timestamps e)"
      using that(2) by (auto simp: release_entry_def entry_times_def Let_def)
    then show ?thesis
      using that(1) sliding_released [OF that(1), of a]
      by (cases "a \<in> set (timestamps e)")
        (simp_all add: sliding_I_def releasable_def entry_times_def remove1_idem)
  qed
  show "sliding_I cap w (cleanup_entry SlidingWindow eff w now e) h now n"
    if "sliding_I cap w (Some e) h now n" for e h now n
    using that by (auto simp: cleanup_entry_def sliding_I_def entry_times_def Let_def)
qed

subsection \<open>The fixed window\<close>

text \<open>
  The requests of the current window are the entry's timestamps; of the earlier ones, at most
  \<open>cap\<close> are younger than a window at the start of the current one.
\<close>

definition younger :: "instant \<Rightarrow> instant multiset \<Rightarrow> nat" where
  "younger x M = size (filter_mset (\<lambda>y. x < y) M)"

definition fixed_I ::
  "u32 \<Rightarrow> duration \<Rightarrow> rate_limit_entry option \<Rightarrow> instant list \<Rightarrow> instant \<Rightarrow> nat \<Rightarrow> bool" where
  "fixed_I cap w eo h t n \<longleftrightarrow>
     (\<forall>y\<in>set h. y \<le> t)
     \<and> (\<forall>x. length (filter (within_window w x) h) \<le> 2 * unat cap)
     \<and> (case eo of
          None \<Rightarrow> younger (t - int w) (mset h) \<le> unat cap
        | Some e \<Rightarrow> length (timestamps e) \<le> unat cap \<and> last_refill e \<le> t
            \<and> (\<exists>old. mset h = old + mset (timestamps e) \<and> (\<forall>y\<in>#old. y \<le> last_refill e)
                  \<and> younger (last_refill e - int w) old \<le> unat cap))"

lemma younger_mono: "x \<le> x' \<Longrightarrow> younger x' M \<le> younger x M"
  unfolding younger_def by (intro size_mset_mono filter_mset_mono_strong) auto

lemma younger_le_size: "younger x M \<le> size M"
  by (simp add: younger_def size_filter_mset_lesseq)

lemma younger_plus [simp]: "younger x (M + N) = younger x M + younger x N"
  by (simp add: younger_def)

lemma younger_zero: "\<forall>y\<in>#M. y \<le> x \<Longrightarrow> younger x M = 0"
  by (auto simp: younger_def filter_mset_eq_conv)

lemma window_younger: "now \<le> x \<Longrightarrow> length (filter (within_window w x) h) \<le> younger (now - int w) (mset h)"
proof -
  assume "now \<le> x"
  then have "length (filter (within_window w x) h) \<le> length (filter (\<lambda>y. now - int w < y) h)"
    by (intro length_filter_mono) (auto simp: within_window_def)
  then show ?thesis
    by (simp add: younger_def flip: mset_filter size_mset)
qed

lemma fixed_rolled:
  assumes I: "fixed_I cap w eo h now n"
  shows "fixed_I cap w
      (Some (fixed_window_roll w now (case eo of Some e \<Rightarrow> e | None \<Rightarrow> entry_default made))) h now n'"
proof (cases eo)
  case None
  then show ?thesis
    using I by (simp add: fixed_I_def fixed_window_roll_def entry_default_def)
next
  case (Some e)
  then obtain old where old: "mset h = old + mset (timestamps e)" "\<forall>y\<in>#old. y \<le> last_refill e"
      "younger (last_refill e - int w) old \<le> unat cap"
    and e: "length (timestamps e) \<le> unat cap" "last_refill e \<le> now"
    using I by (auto simp: fixed_I_def)
  consider "timestamps e = []" | "timestamps e \<noteq> []" "elapsed now (last_refill e) \<ge> w"
    | "timestamps e \<noteq> []" "\<not> elapsed now (last_refill e) \<ge> w" by blast
  then show ?thesis
  proof cases
    case 1
    have "younger (now - int w) old \<le> younger (last_refill e - int w) old"
      using e by (intro younger_mono) simp
    with 1 old I Some show ?thesis
      by (simp add: fixed_I_def fixed_window_roll_def)
        (metis le_trans set_mset_mset)
  next
    case 2
    have "last_refill e \<le> now - int w"
      using 2(2) e(2) by (simp add: elapsed_def)
    then have "younger (now - int w) old = 0"
      using old(2) by (intro younger_zero) auto
    then have "younger (now - int w) (mset h) \<le> unat cap"
      using old(1) younger_le_size [of "now - int w" "mset (timestamps e)"] e(1) by simp
    with 2 I Some show ?thesis
      by (auto simp: fixed_I_def fixed_window_roll_def)
  next
    case 3
    with I Some show ?thesis
      by (simp add: fixed_I_def fixed_window_roll_def)
  qed
qed

lemma fixed_recorded:
  assumes I: "fixed_I cap w (Some e) h now n" and "length (timestamps e) < unat rpm" "rpm \<le> cap"
  shows "fixed_I cap w (Some (e\<lparr>timestamps := timestamps e @ [now]\<rparr>)) (h @ [now]) now n'"
proof -
  from I obtain old where old: "mset h = old + mset (timestamps e)" "\<forall>y\<in>#old. y \<le> last_refill e"
      "younger (last_refill e - int w) old \<le> unat cap" and e: "last_refill e \<le> now"
    by (auto simp: fixed_I_def)
  have room: "Suc (length (timestamps e)) \<le> unat cap"
    using assms(2,3) by (simp add: word_le_nat_alt)
  have "length (filter (within_window w x) (h @ [now])) \<le> 2 * unat cap" for x
  proof (cases "now \<le> x")
    case True
    have "younger (now - int w) old \<le> unat cap"
      using old(3) younger_mono [of "last_refill e - int w" "now - int w" old] e by simp
    then have "younger (now - int w) (mset h) \<le> unat cap + length (timestamps e)"
      using old(1) younger_le_size [of "now - int w" "mset (timestamps e)"] by simp
    then show ?thesis
      using window_younger [OF True, of w h] room by simp
  qed (use I in \<open>simp add: within_window_def fixed_I_def\<close>)
  moreover have "mset (h @ [now]) = old + mset (timestamps e @ [now])"
    using old(1) by simp
  ultimately show ?thesis
    using I old room e by (auto simp: fixed_I_def)
qed

lemma fixed_check:
  assumes I: "fixed_I cap w eo h now n" and rpm: "rec \<Longrightarrow> rpm \<le> cap"
    and r: "check_entry FixedWindow w rpm rec now made eo = (r, e)"
  shows "fixed_I cap w (Some e) (if allowed r \<and> rec then h @ [now] else h) now n'"
proof -
  define e1 where "e1 = fixed_window_roll w now (case eo of Some e \<Rightarrow> e | None \<Rightarrow> entry_default made)"
  have I1: "fixed_I cap w (Some e1) h now n" for n
    unfolding e1_def using I by (rule fixed_rolled)
  then have "length (timestamps e1) \<le> unat cap"
    by (simp add: fixed_I_def)
  note count = unat_length_less [OF this]
  have "allowed r \<longleftrightarrow> length (timestamps e1) < unat rpm"
    and e: "e = e1\<lparr>timestamps := if length (timestamps e1) < unat rpm \<and> rec
                                 then timestamps e1 @ [now] else timestamps e1\<rparr>"
    using r by (auto simp: check_entry_def fixed_window_check_def limit_result_def Let_def count
        e1_def [symmetric])
  then show ?thesis
    using I1 fixed_recorded [OF I1 _ rpm] by auto
qed

lemma fixed_dropped:
  assumes "fixed_I cap w (Some e) h now n" "timestamps e = [] \<or> elapsed now (last_refill e) \<ge> w"
  shows "fixed_I cap w None h now n'"
proof -
  have "fixed_I cap w (Some (fixed_window_roll w now e)) h now n"
    using fixed_rolled [OF assms(1)] by simp
  moreover have "timestamps (fixed_window_roll w now e) = []" "last_refill (fixed_window_roll w now e) = now"
    using assms(2) by (auto simp: fixed_window_roll_def)
  ultimately show ?thesis
    by (auto simp: fixed_I_def)
qed

lemma fixed_released:
  assumes I: "fixed_I cap w (Some e) h now n" and a: "a \<in> set (timestamps e)"
  shows "fixed_I cap w (Some (e\<lparr>timestamps := remove1 a (timestamps e)\<rparr>)) (remove1 a h) now n'"
proof -
  from I obtain old where old: "mset h = old + mset (timestamps e)" "\<forall>y\<in>#old. y \<le> last_refill e"
      "younger (last_refill e - int w) old \<le> unat cap"
    by (auto simp: fixed_I_def)
  have "mset (remove1 a h) = old + mset (remove1 a (timestamps e))"
    using old(1) a by (simp add: multiset_eq_iff)
  moreover have "length (filter (within_window w x) (remove1 a h)) \<le> 2 * unat cap" for x
    using I length_filter_remove1 le_trans unfolding fixed_I_def by metis
  moreover have "y \<le> now" if "y \<in> set (remove1 a h)" for y
    using I notin_set_remove1 that unfolding fixed_I_def by metis
  moreover have "length (remove1 a (timestamps e)) \<le> unat cap"
    using I by (simp add: fixed_I_def length_remove1) linarith
  ultimately show ?thesis
    using I old(2,3) unfolding fixed_I_def by auto
qed

interpretation fixed: key_invariant FixedWindow eff w "{rpm. rpm \<le> cap}" t0 "fixed_I cap w"
  for eff :: u32 and w :: duration and cap :: u32 and t0 :: instant
proof unfold_locales
  show "fixed_I cap w None [] t0 0"
    by (simp add: fixed_I_def younger_def)
  show "fixed_I cap w eo h t' n'" if "fixed_I cap w eo h t n" "t \<le> t'" for eo h t n t' n'
    using that younger_mono [of "t - int w" "t' - int w" "mset h"] unfolding fixed_I_def
    by (auto split: option.splits)
  show "fixed_I cap w (Some e) h now (Suc n)"
    if "fixed_I cap w eo h now n" "check_entry FixedWindow w eff False now made eo = (r, e)"
    for eo h now n made r e
    using fixed_check [OF that(1) _ that(2)] by simp
  show "fixed_I cap w (Some e) (if allowed r then h @ [now] else h) now (Suc n)"
    if "fixed_I cap w eo h now n" "rpm \<in> {rpm. rpm \<le> cap}"
      "check_entry FixedWindow w rpm True now made eo = (r, e)" for eo h now n rpm made r e
    using fixed_check [OF that(1) _ that(3), of "Suc n"] that(2) by simp
  show "fixed_I cap w (if gone then None else Some e')
      (if a \<in> set (releasable FixedWindow w now e) then remove1 a h else h) now (Suc n)"
    if I: "fixed_I cap w (Some e) h now n" "release_entry FixedWindow eff w (Some a) now e = (e', gone)"
    for e h now n a e' gone
  proof -
    have e': "e' = e\<lparr>timestamps := remove1 a (timestamps e)\<rparr>" "gone \<longleftrightarrow> remove1 a (timestamps e) = []"
      using that(2) by (auto simp: release_entry_def Let_def)
    have kept: "fixed_I cap w (Some e') (if a \<in> set (timestamps e) then remove1 a h else h) now (Suc n)"
      using fixed_released [OF I(1)] I(1)
      by (cases "a \<in> set (timestamps e)") (simp_all add: e' remove1_idem fixed_I_def)
    show ?thesis
    proof (cases gone)
      case True
      then show ?thesis
        using fixed_dropped [OF kept, of "Suc n"] e' by (simp only: releasable_def) simp
    qed (use kept in \<open>simp only: releasable_def, simp\<close>)
  qed
  show "fixed_I cap w (cleanup_entry FixedWindow eff w now e) h now n"
    if "fixed_I cap w (Some e) h now n" for e h now n
    using that fixed_dropped [OF that] by (auto simp: cleanup_entry_def Let_def)
qed

subsection \<open>The token bucket\<close>

text \<open>
  The tokens in the bucket and the requests let through together never exceed the bucket's size,
  the refill of the time that has passed and the rounding errors of the operations so far.
\<close>

definition refill_rate :: "u32 \<Rightarrow> real" where
  "refill_rate cap = real (unat cap) / 60 / 10 ^ 9 * (1 + epsilon) ^ 4"

definition rounding_error :: "u32 \<Rightarrow> real" where
  "rounding_error cap = 2 * epsilon * real (unat cap)"

definition bucket_bound :: "u32 \<Rightarrow> instant \<Rightarrow> instant \<Rightarrow> nat \<Rightarrow> real" where
  "bucket_bound cap t0 t n =
     real (unat cap) + real_of_int (t - t0) * refill_rate cap + real n * rounding_error cap"

definition bucket_I ::
  "u32 \<Rightarrow> instant \<Rightarrow> rate_limit_entry option \<Rightarrow> instant list \<Rightarrow> instant \<Rightarrow> nat \<Rightarrow> bool" where
  "bucket_I cap t0 eo h t n \<longleftrightarrow>
     (case eo of
        None \<Rightarrow> real (length h) + real (unat cap) \<le> bucket_bound cap t0 t n
      | Some e \<Rightarrow> mset (timestamps e) \<subseteq># mset h \<and> 0 \<le> tokens e \<and> tokens e \<le> real (unat cap)
          \<and> last_refill e \<le> t
          \<and> real (length h) + tokens e \<le> bucket_bound cap t0 (last_refill e) n)"

declare of_nat_unat [simp del]

lemma epsilon_cap: "0 \<le> epsilon * real (unat (cap :: u32))" "epsilon * real (unat cap) \<le> 1"
proof -
  have "real (unat cap) \<le> 2 ^ 32"
    using unat_less_exp [of cap] of_nat_less_iff [of "unat cap" "2 ^ 32", where 'a = real] by simp
  then show "epsilon * real (unat cap) \<le> 1"
    by (simp add: epsilon_def)
  show "0 \<le> epsilon * real (unat cap)"
    using epsilon_bounds by simp
qed

lemma refill_rate_nonneg: "0 \<le> refill_rate cap"
  using epsilon_bounds by (simp add: refill_rate_def)

lemma rounding_error_nonneg: "0 \<le> rounding_error cap"
  using epsilon_bounds by (simp add: rounding_error_def)

lemma bucket_bound_mono: "t \<le> t' \<Longrightarrow> n \<le> n' \<Longrightarrow> bucket_bound cap t0 t n \<le> bucket_bound cap t0 t' n'"
  using refill_rate_nonneg [of cap] rounding_error_nonneg [of cap]
  by (simp add: bucket_bound_def add_mono mult_right_mono)

lemma bucket_bound_Suc: "bucket_bound cap t0 t (Suc n) = bucket_bound cap t0 t n + rounding_error cap"
  by (simp add: bucket_bound_def algebra_simps)

lemma bucket_bound_elapsed:
  "t \<le> t' \<Longrightarrow> bucket_bound cap t0 t' n
     = bucket_bound cap t0 t n + real (elapsed t' t) * refill_rate cap"
  by (simp add: bucket_bound_def elapsed_def algebra_simps)

lemma as_secs_f64_bounds:
  "0 \<le> as_secs_f64 d" "as_secs_f64 d \<le> real d / 10 ^ 9 * (1 + epsilon) ^ 2"
proof -
  let ?s = "real (d div 1000000000)" and ?n = "real (d mod 1000000000) / 1000000000"
  let ?sum = "round_f64 ?s + round_f64 ?n"
  have sum: "0 \<le> ?sum"
    by (intro add_nonneg_nonneg round_f64_nonneg) simp_all
  then show "0 \<le> as_secs_f64 d"
    by (simp add: as_secs_f64_def round_f64_nonneg)
  have "real d = real (d div 1000000000 * 1000000000 + d mod 1000000000)"
    by simp
  then have d: "real d / 10 ^ 9 = ?s + ?n"
    by (simp only: of_nat_add of_nat_mult) (simp add: field_simps)
  have "?sum \<le> ?s * (1 + epsilon) + ?n * (1 + epsilon)"
    by (intro add_mono round_f64_le) simp_all
  then have "?sum \<le> real d / 10 ^ 9 * (1 + epsilon)"
    unfolding d by (simp only: distrib_right)
  then have "?sum * (1 + epsilon) \<le> real d / 10 ^ 9 * (1 + epsilon) * (1 + epsilon)"
    using epsilon_bounds by (intro mult_right_mono) simp_all
  then show "as_secs_f64 d \<le> real d / 10 ^ 9 * (1 + epsilon) ^ 2"
    unfolding as_secs_f64_def power2_eq_square mult.assoc [symmetric]
    by (rule order_trans [OF round_f64_le [OF sum]])
qed

lemma new_tokens_bounds:
  fixes d :: duration and cap :: u32
  defines "new \<equiv> round_f64 (as_secs_f64 d * round_f64 (real (unat cap) / 60))"
  shows "0 \<le> new" "new \<le> real d * refill_rate cap"
proof -
  let ?p = "round_f64 (real (unat cap) / 60)"
  have p: "0 \<le> ?p" "?p \<le> real (unat cap) / 60 * (1 + epsilon)"
    by (rule round_f64_nonneg, simp, rule round_f64_le, simp)
  have prod: "0 \<le> as_secs_f64 d * ?p"
    using as_secs_f64_bounds(1) p(1) by simp
  then show "0 \<le> new"
    unfolding new_def by (rule round_f64_nonneg)
  have "as_secs_f64 d * ?p
      \<le> (real d / 10 ^ 9 * (1 + epsilon) ^ 2) * (real (unat cap) / 60 * (1 + epsilon))"
    using as_secs_f64_bounds p epsilon_bounds by (intro mult_mono) simp_all
  then have "as_secs_f64 d * ?p * (1 + epsilon)
      \<le> (real d / 10 ^ 9 * (1 + epsilon) ^ 2) * (real (unat cap) / 60 * (1 + epsilon)) * (1 + epsilon)"
    using epsilon_bounds by (intro mult_right_mono) simp_all
  also have "\<dots> = real d * refill_rate cap"
    by (simp add: refill_rate_def power2_eq_square power4_eq_xxxx)
  finally show "new \<le> real d * refill_rate cap"
    using round_f64_le [OF prod] unfolding new_def by simp
qed

lemma clipped_round:
  fixes cap :: u32
  assumes "0 \<le> x"
  shows "0 \<le> min (round_f64 x) (real (unat cap))"
    and "min (round_f64 x) (real (unat cap)) \<le> x + epsilon * real (unat cap)"
proof -
  show "0 \<le> min (round_f64 x) (real (unat cap))"
    using round_f64_nonneg [OF assms] by simp
  show "min (round_f64 x) (real (unat cap)) \<le> x + epsilon * real (unat cap)"
  proof (cases "x \<le> real (unat cap)")
    case True
    then show ?thesis
      using round_f64_le_add [OF assms True] by simp
  next
    case False
    then show ?thesis
      using epsilon_cap(1) [of cap] by linarith
  qed
qed

lemma refilled_bounds:
  assumes "bucket_I cap t0 (Some e) h now n"
  shows "0 \<le> refilled cap now e" "refilled cap now e \<le> real (unat cap)"
    and "real (length h) + refilled cap now e
           \<le> bucket_bound cap t0 now n + epsilon * real (unat cap)"
proof -
  let ?new = "round_f64 (as_secs_f64 (elapsed now (last_refill e)) * round_f64 (real (unat cap) / 60))"
  have e: "0 \<le> tokens e" "last_refill e \<le> now"
    "real (length h) + tokens e \<le> bucket_bound cap t0 (last_refill e) n"
    using assms by (simp_all add: bucket_I_def)
  note new = new_tokens_bounds [of "elapsed now (last_refill e)" cap]
  have "0 \<le> tokens e + ?new"
    using e(1) new(1) by simp
  note clip = clipped_round [OF this, of cap]
  show "0 \<le> refilled cap now e" "refilled cap now e \<le> real (unat cap)"
    using clip(1) by (simp_all add: refilled_def Let_def)
  show "real (length h) + refilled cap now e
           \<le> bucket_bound cap t0 now n + epsilon * real (unat cap)"
    using clip(2) e(3) new(2) bucket_bound_elapsed [OF e(2), of cap t0 n]
    by (simp add: refilled_def Let_def)
qed

lemma bucket_check:
  assumes I: "bucket_I cap t0 eo h now n"
    and r: "check_entry TokenBucket w cap rec now made eo = (r, e')"
  shows "bucket_I cap t0 (Some e') (if allowed r \<and> rec then h @ [now] else h) now (Suc n)"
proof -
  define e where "e = (case eo of Some e \<Rightarrow> e
    | None \<Rightarrow> \<lparr>timestamps = [], tokens = real (unat cap), last_refill = now\<rparr>)"
  have Ie: "bucket_I cap t0 (Some e) h now n"
    using I by (cases eo) (simp_all add: e_def bucket_I_def)
  let ?tok = "refilled cap now e" and ?ts = "filter (\<lambda>t. elapsed now t < w) (timestamps e)"
  note tok = refilled_bounds [OF Ie]
  have ts: "mset ?ts \<subseteq># mset h"
    using Ie multiset_filter_subset subset_mset.order_trans unfolding bucket_I_def mset_filter option.case
    by blast
  have r': "allowed r \<longleftrightarrow> 1 \<le> ?tok"
    and e': "e' = e\<lparr>timestamps := if 1 \<le> ?tok \<and> rec then ?ts @ [now] else ?ts,
                  tokens := if 1 \<le> ?tok \<and> rec then round_f64 (?tok - 1) else ?tok,
                  last_refill := now\<rparr>"
    using r by (auto simp: check_entry_def token_bucket_check_def limit_result_def Let_def
        e_def [symmetric] min_def)
  show ?thesis
  proof (cases "1 \<le> ?tok \<and> rec")
    case True
    have "round_f64 (?tok - 1) \<le> ?tok - 1 + epsilon * real (unat cap)"
      using True tok by (intro round_f64_le_add) simp_all
    moreover have "0 \<le> round_f64 (?tok - 1)"
      using True by (simp add: round_f64_nonneg)
    moreover have "round_f64 (?tok - 1) \<le> real (unat cap)"
      using calculation(1) tok(2) epsilon_cap(2) [of cap] by linarith
    ultimately show ?thesis
      using True tok ts by (simp add: r' e' bucket_I_def bucket_bound_Suc rounding_error_def)
  next
    case False
    then show ?thesis
      using tok ts epsilon_cap(1) [of cap]
      by (auto simp: r' e' bucket_I_def bucket_bound_Suc rounding_error_def)
  qed
qed

lemma bucket_later:
  assumes "bucket_I cap t0 eo h t n" "t \<le> t'" "n \<le> n'"
  shows "bucket_I cap t0 eo h t' n'"
proof (cases eo)
  case None
  then show ?thesis
    using assms bucket_bound_mono [OF assms(2,3), of cap t0] by (simp add: bucket_I_def)
next
  case (Some e)
  then show ?thesis
    using assms bucket_bound_mono [OF order_refl assms(3), of cap t0 "last_refill e"]
    by (simp add: bucket_I_def)
qed

lemma bucket_dropped:
  assumes "bucket_I cap t0 (Some e) h t n" "real (unat cap) \<le> tokens e"
  shows "bucket_I cap t0 None h t n"
  using assms bucket_bound_mono [of "last_refill e" t n n cap t0] by (simp add: bucket_I_def)

lemma bucket_released:
  assumes I: "bucket_I cap t0 (Some e) h now n"
    and r: "release_entry TokenBucket cap w (Some a) now e = (e', gone)"
  shows "bucket_I cap t0 (Some e')
           (if a \<in> set (releasable TokenBucket w now e) then remove1 a h else h) now (Suc n)"
    and "gone \<Longrightarrow> real (unat cap) \<le> tokens e'"
proof -
  let ?kept = "filter (\<lambda>t. elapsed now t < w) (timestamps e)"
  have kept: "mset ?kept \<subseteq># mset h"
    using I multiset_filter_subset subset_mset.order_trans unfolding bucket_I_def mset_filter option.case
    by blast
  show "gone \<Longrightarrow> real (unat cap) \<le> tokens e'"
    using r by (auto simp: release_entry_def Let_def split: if_split_asm)
  show "bucket_I cap t0 (Some e')
           (if a \<in> set (releasable TokenBucket w now e) then remove1 a h else h) now (Suc n)"
  proof (cases "a \<in> set ?kept")
    case True
    then have "a \<in># mset h"
      using kept by (metis mset_subset_eqD set_mset_mset)
    then have a: "a \<in> set h" by simp
    then have len: "real (length (remove1 a h)) = real (length h) - 1"
      using length_pos_if_in_set [OF a] by (simp add: length_remove1 of_nat_diff Suc_le_eq)
    have "0 \<le> tokens e + 1"
      using I by (simp add: bucket_I_def)
    note clip = clipped_round [OF this, of cap]
    have e': "e' = e\<lparr>timestamps := remove1 a ?kept, tokens := min (round_f64 (tokens e + 1)) (real (unat cap))\<rparr>"
      using r True by (simp add: release_entry_def Let_def)
    have "mset (remove1 a ?kept) \<subseteq># mset (remove1 a h)"
      using kept by (simp add: subseteq_mset_def diff_le_mono)
    then show ?thesis
      using I True clip len epsilon_cap(1) [of cap]
      by (simp add: e' releasable_def bucket_I_def bucket_bound_Suc rounding_error_def)
  next
    case False
    then have "e' = e\<lparr>timestamps := ?kept\<rparr>"
      using r by (auto simp: release_entry_def Let_def split: if_split_asm)
    then show ?thesis
      using bucket_later [OF I order_refl, of "Suc n"] False kept
      by (auto simp: releasable_def bucket_I_def)
  qed
qed

interpretation bucket: key_invariant TokenBucket cap w "{cap}" t0 "bucket_I cap t0"
  for cap :: u32 and w :: duration and t0 :: instant
proof unfold_locales
  show "bucket_I cap t0 None [] t0 0"
    by (simp add: bucket_I_def bucket_bound_def)
  show "bucket_I cap t0 (Some e) h now (Suc n)"
    if "bucket_I cap t0 eo h now n" "check_entry TokenBucket w cap False now made eo = (r, e)"
    for eo h now n made r e
    using bucket_check [OF that] by simp
  show "bucket_I cap t0 (Some e) (if allowed r then h @ [now] else h) now (Suc n)"
    if "bucket_I cap t0 eo h now n" "rpm \<in> {cap}"
      "check_entry TokenBucket w rpm True now made eo = (r, e)" for eo h now n rpm made r e
    using bucket_check [OF that(1), of w True] that(2,3) by simp
  show "bucket_I cap t0 (if gone then None else Some e')
      (if a \<in> set (releasable TokenBucket w now e) then remove1 a h else h) now (Suc n)"
    if "bucket_I cap t0 (Some e) h now n" "release_entry TokenBucket cap w (Some a) now e = (e', gone)"
    for e h now n a e' gone
    using bucket_released [OF that] bucket_dropped by auto
  show "bucket_I cap t0 (cleanup_entry TokenBucket cap w now e) h now n"
    if "bucket_I cap t0 (Some e) h now n" for e h now n
  proof -
    have "mset (filter (\<lambda>t. elapsed now t < w) (timestamps e)) \<subseteq># mset h"
      using that multiset_filter_subset subset_mset.order_trans
      unfolding bucket_I_def mset_filter option.case by blast
    then show ?thesis
      using that bucket_dropped [OF that] by (auto simp: cleanup_entry_def Let_def bucket_I_def)
  qed
qed (rule bucket_later)

subsection \<open>Guarantees\<close>

text \<open>A first request on an idle key is served by every strategy, for the examples below.\<close>

definition one_per_minute :: "rate_limit_strategy \<Rightarrow> rate_limit_config" where
  "one_per_minute strat =
     rate_limit_config_default\<lparr>rl_enabled := True, rl_strategy := strat, default_rpm := 1\<rparr>"

lemma one_per_minute_simps [simp]:
  "rl_enabled (one_per_minute strat)" "rl_strategy (one_per_minute strat) = strat"
  "effective_rpm (one_per_minute strat) = 1"
  by (simp_all add: one_per_minute_def effective_rpm_def rate_limit_config_default_def)

lemma first_request_served:
  assumes "1 \<in> lims"
  shows "\<exists>s. rtranclp (limiter_step lims) (world_init (one_per_minute strat) w 0) s
     \<and> served s ''k'' = [0] \<and> world_now s = 0 \<and> world_calls s = 1"
proof -
  let ?s = "world_init (one_per_minute strat) w 0"
  have one: "round_f64 1 = 1" "round_f64 0 = 0"
    using round_f64_of_nat [of 1] by (simp_all add: round_f64_def)
  have l: "local_limiter strat 1 w (world_limiter ?s)" "rl_entries (world_limiter ?s) ''k'' = None"
    by (simp_all add: local_limiter_def world_init_def with_window_def)
  obtain r e where e: "check_entry strat w 1 True 0 0 None = (r, e)" by fastforce
  then have "allowed r"
    by (cases strat) (auto simp: check_entry_def sliding_window_check_def fixed_window_check_def
        token_bucket_check_def entry_default_def fixed_window_roll_def refilled_def as_secs_f64_def
        elapsed_def one limit_result_def Let_def)
  obtain rsv l' where
    "check_and_record_with_source_and_limit (world_limiter ?s) ''k'' 1 None 0 0 = ((r, rsv), l')"
    using local_check_and_record [OF l(1), of 1 0 0 "''k''" r e None] l(2) e by auto
  note step = limiter_step.recorded [of ?s 0 1 lims "''k''" None 0, OF _ assms this]
  define s where "s = \<lparr>world_limiter = l', served = (\<lambda>_. [])(''k'' := [0]), world_now = 0, world_calls = 1\<rparr>"
  have "limiter_step lims ?s s"
    using step \<open>allowed r\<close> by (simp add: world_init_def s_def)
  then show ?thesis
    by (intro exI [of _ s]) (simp add: s_def r_into_rtranclp)
qed

text \<open>
  C6.  The sliding window forgets nothing that matters.  Whatever checks, releases and clean-ups
  came before, in any reachable state of a limiter whose requests are limited to at most \<open>cap\<close>, a
  request at \<open>now\<close> is let through exactly when fewer than its limit of the served requests (a
  history the limiter itself does not keep) are younger than the window; the count it reports is
  that number, without a wrap of its 32 bits, what remains is the rest of the limit after this
  request, and a waiting time is given exactly to a request that is refused.
\<close>

theorem sliding_window_exact:
  assumes "rl_enabled cfg" "rl_strategy cfg = SlidingWindow"
    and "rtranclp (limiter_step {rpm. rpm \<le> cap}) (world_init cfg w t0) s"
    and "world_now s \<le> now"
    and "check_and_record_with_source_and_limit (world_limiter s) key rpm reply now made = ((r, rsv), l)"
  shows "let n = length (filter (\<lambda>t. now - int w < t) (served s key))
     in (allowed r \<longleftrightarrow> n < unat rpm) \<and> unat (current_count r) = n
        \<and> unat (remaining r) = unat rpm - n - 1 \<and> (retry_after_secs r = None \<longleftrightarrow> allowed r)"
proof -
  note run = sliding.run_key [OF assms(1,2) refl assms(3)]
  obtain r' e where e: "check_entry SlidingWindow w rpm True now made (rl_entries (world_limiter s) key) = (r', e)"
    by fastforce
  have "r = r'"
    using local_check_and_record [OF run(1) e] assms(5) by (metis prod.inject)
  then show ?thesis
    using sliding_answer [OF sliding.later_I [OF run(2) assms(4) order_refl] e] by (simp add: Let_def)
qed

theorem sliding_window_exact_witness:
  "\<exists>s :: limiter_world. served s ''k'' = [0]
     \<and> \<not> allowed (fst (fst (check_and_record_with_source_and_limit (world_limiter s) ''k'' 1 None 5 5)))
     \<and> allowed (fst (fst (check_and_record_with_source_and_limit (world_limiter s) ''k'' 1 None 12 12)))"
proof -
  obtain s where s: "rtranclp (limiter_step {rpm. rpm \<le> 1}) (world_init (one_per_minute SlidingWindow) 10 0) s"
    "served s ''k'' = [0]" "world_now s = 0"
    using first_request_served [of "{rpm. rpm \<le> 1}" SlidingWindow 10] by auto
  have "let n = length (filter (\<lambda>t. now - 10 < t) [0 :: instant]) in
      (allowed (fst (fst (check_and_record_with_source_and_limit (world_limiter s) ''k'' 1 None now now)))
        \<longleftrightarrow> n < 1)" if "0 \<le> now" for now
    using sliding_window_exact [OF _ _ s(1), of now "''k''" 1 None now] that s(2,3)
    by (cases "check_and_record_with_source_and_limit (world_limiter s) ''k'' 1 None now now")
      (auto simp: Let_def)
  from this [of 5] this [of 12] s(2) show ?thesis
    by (intro exI [of _ s]) simp
qed

text \<open>
  The sliding window keeps its promise: of the requests a key was served and did not give
  back, no period of one window's length, wherever it starts, holds more than the limit.
\<close>

theorem sliding_window_bound:
  assumes "rl_enabled cfg" "rl_strategy cfg = SlidingWindow"
    and "rtranclp (limiter_step {rpm. rpm \<le> cap}) (world_init cfg w t0) s"
  shows "length (filter (\<lambda>t. x - int w < t \<and> t \<le> x) (served s key)) \<le> unat cap"
  using sliding.run_key(2) [OF assms(1,2) refl assms(3), of key]
  by (simp add: sliding_I_def within_window_def [abs_def])

theorem sliding_window_bound_witness:
  "\<exists>s :: limiter_world. served s ''k'' = [0] \<and> length (filter (\<lambda>t. 7 - int 10 < t \<and> t \<le> 7) (served s ''k'')) \<le> unat (1 :: u32)"
  using first_request_served [of "{rpm. rpm \<le> 1}" SlidingWindow 10]
    sliding_window_bound [of "one_per_minute SlidingWindow" 1 10 0 _ 7 "''k''"] by auto

text \<open>
  C15.  The fixed window's worst case: no period of one window's length holds more than twice the
  limit, and that also across releases that empty a window before its time and clean-ups.
\<close>

theorem fixed_window_bound:
  assumes "rl_enabled cfg" "rl_strategy cfg = FixedWindow"
    and "rtranclp (limiter_step {rpm. rpm \<le> cap}) (world_init cfg w t0) s"
  shows "length (filter (\<lambda>t. x - int w < t \<and> t \<le> x) (served s key)) \<le> 2 * unat cap"
  using fixed.run_key(2) [OF assms(1,2) refl assms(3), of key]
  by (simp add: fixed_I_def within_window_def [abs_def])

theorem fixed_window_bound_witness:
  "\<exists>s :: limiter_world. served s ''k'' = [0]
     \<and> length (filter (\<lambda>t. 7 - int 10 < t \<and> t \<le> 7) (served s ''k'')) \<le> 2 * unat (1 :: u32)"
  using first_request_served [of "{rpm. rpm \<le> 1}" FixedWindow 10]
    fixed_window_bound [of "one_per_minute FixedWindow" 1 10 0 _ 7 "''k''"] by auto



subsection \<open>Refunds under a limit of the key's own\<close>

lemma round_f64_u32: "n < 2 ^ 32 \<Longrightarrow> round_f64 (real n) = real n"
  by (rule round_f64_of_nat) (erule less_trans, simp)

lemma refilled_at_once:
  assumes "last_refill e = now" "tokens e = real n" "n \<le> unat cap"
  shows "refilled cap now e = real n"
proof -
  have "n < 2 ^ 32"
    using assms(3) unat_less_exp [of cap] by simp
  moreover have "round_f64 0 = 0"
    by (simp add: round_f64_def)
  ultimately show ?thesis
    using assms by (simp add: refilled_def as_secs_f64_def elapsed_def Let_def round_f64_u32)
qed

lemma local_reservation:
  assumes "local_limiter strat eff w l" "allowed r"
    and "check_and_record_with_source_and_limit l key rpm reply now made = ((r, rsv), l')"
  shows "rsv_source rsv = SourceLocal" "recorded_at rsv = now" "remaining_window_secs rsv now \<noteq> 0"
proof -
  obtain n where "rsv = reservation_new SourceLocal now n"
    using assms by (auto simp: check_and_record_with_source_and_limit_def local_limiter_def Let_def
        split: prod.splits)
  moreover have pos: "0 < unat (max n 1)" for n :: u64
    by (simp add: word_max_unat)
  have "max n 1 \<noteq> 0" for n :: u64
    using pos [of n] by (metis less_irrefl unat_0)
  then have "remaining_window_secs (reservation_new SourceLocal now n) now \<noteq> 0" for n
    using pos [of n]
    by (simp add: reservation_new_def remaining_window_secs_def elapsed_def from_secs_def Let_def)
  ultimately show "rsv_source rsv = SourceLocal" "recorded_at rsv = now" "remaining_window_secs rsv now \<noteq> 0"
    by (simp_all add: reservation_new_def)
qed

definition bucket_at :: "instant \<Rightarrow> nat \<Rightarrow> instant list \<Rightarrow> rate_limit_entry" where
  "bucket_at now n ts = \<lparr>timestamps = ts, tokens = real n, last_refill = now\<rparr>"

lemma take_token:
  assumes "Suc n \<le> unat cap" "0 < w" "\<forall>t\<in>set ts. t = now"
    and "rl_entries l key = (if Suc n = unat cap \<and> ts = [] then None else Some (bucket_at now (Suc n) ts))"
    and "local_limiter TokenBucket eff w l"
    and "check_and_record_with_source_and_limit l key cap reply now now = ((r, rsv), l')"
  shows "allowed r" "l' = l\<lparr>rl_entries := (rl_entries l)(key \<mapsto> bucket_at now n (ts @ [now]))\<rparr>"
proof -
  have "refilled cap now (bucket_at now (Suc n) ts) = real (Suc n)"
    using assms(1) by (intro refilled_at_once) (simp_all add: bucket_at_def)
  moreover have "round_f64 (real n) = real n"
    using assms(1) unat_less_exp [of cap] by (intro round_f64_u32) simp
  moreover have "filter (\<lambda>t. elapsed now t < w) ts = ts"
    using assms(2,3) by (simp add: filter_id_conv elapsed_def)
  moreover have "(case rl_entries l key of Some e \<Rightarrow> e
      | None \<Rightarrow> \<lparr>timestamps = [], tokens = real (unat cap), last_refill = now\<rparr>) = bucket_at now (Suc n) ts"
    using assms(4) by (auto simp: bucket_at_def)
  moreover have "timestamps (bucket_at now (Suc n) ts) = ts"
    by (simp add: bucket_at_def)
  ultimately have "\<exists>r. check_entry TokenBucket w cap True now now (rl_entries l key)
      = (r, bucket_at now n (ts @ [now])) \<and> allowed r"
    by (simp add: check_entry_def token_bucket_check_def limit_result_def Let_def) (simp add: bucket_at_def)
  then show "allowed r" "l' = l\<lparr>rl_entries := (rl_entries l)(key \<mapsto> bucket_at now n (ts @ [now]))\<rparr>"
    using local_check_and_record [OF assms(5)] assms(6) by (metis prod.inject)+
qed

text \<open>
  C24.  A refund can cost tokens.  A key with a limit of its own above the configured one
  spends two of its tokens and gives one back at once: the bucket, which held two less than the
  key's limit, holds only the configured limit afterwards, because the refund is clipped to the
  configured limit and not to the key's.
\<close>

theorem refund_clips_key_limit:
  fixes cap :: u32
  assumes "rl_enabled cfg" "rl_strategy cfg = TokenBucket" "0 < w"
    and "unat (effective_rpm cfg) + 2 \<le> unat cap"
    and "check_and_record_with_source_and_limit (with_window cfg w) key cap None now now = ((r1, rsv1), l1)"
    and "check_and_record_with_source_and_limit l1 key cap None now now = ((r2, rsv2), l2)"
  shows "map_option tokens (rl_entries l2 key) = Some (real (unat cap) - 2)
     \<and> map_option tokens (rl_entries (fst (release_recorded l2 key rsv1 True now now)) key)
         = Some (real (unat (effective_rpm cfg)))"
proof -
  let ?eff = "effective_rpm cfg"
  obtain n where n: "unat cap = Suc (Suc n)"
    using le_Suc_ex [OF assms(4)] by auto
  have L: "local_limiter TokenBucket ?eff w (with_window cfg w)"
    using assms(1,2) by (simp add: local_limiter_def with_window_def)
  note one = take_token [where n = "Suc n" and ts = "[]", OF _ assms(3) _ _ L assms(5)]
  have r1: "allowed r1" "l1 = with_window cfg w\<lparr>rl_entries := [key \<mapsto> bucket_at now (Suc n) [now]]\<rparr>"
    using one n by (simp_all add: with_window_def)
  have L1: "local_limiter TokenBucket ?eff w l1"
    using L by (simp add: r1(2))
  note two = take_token [where n = n and ts = "[now]", OF _ assms(3) _ _ L1 assms(6)]
  have l2: "l2 = l1\<lparr>rl_entries := (rl_entries l1)(key \<mapsto> bucket_at now n [now, now])\<rparr>"
    using two(2) n by (simp add: r1(2))
  note rsv = local_reservation [OF L r1(1) assms(5)]
  have L2: "local_limiter TokenBucket ?eff w l2"
    using L1 by (simp add: l2)
  have "Suc n < 2 ^ 32"
    using n unat_less_exp [of cap] by simp
  from round_f64_u32 [OF this] have "round_f64 (real n + 1) = real (Suc n)"
    unfolding of_nat_Suc by (simp only: add.commute [of 1])
  moreover have "unat ?eff \<le> Suc n"
    using assms(4) n by simp
  ultimately have "release_entry TokenBucket ?eff w (Some now) now (bucket_at now n [now, now])
      = (bucket_at now (unat ?eff) [now], False)"
    using assms(3) by (simp add: release_entry_def bucket_at_def elapsed_def Let_def)
  moreover have "rl_entries l2 key = Some (bucket_at now n [now, now])"
    by (simp add: l2)
  ultimately show ?thesis
    using n by (simp add: local_release [OF L2] rsv) (simp add: bucket_at_def)
qed

theorem refund_clips_key_limit_witness:
  "\<exists>l2 rsv. map_option tokens (rl_entries l2 ''k'') = Some 98
     \<and> map_option tokens (rl_entries (fst (release_recorded l2 ''k'' rsv True 0 0)) ''k'') = Some 1"
proof -
  let ?l = "with_window (one_per_minute TokenBucket) 10"
  obtain r1 rsv1 l1 where 1: "check_and_record_with_source_and_limit ?l ''k'' 100 None 0 0 = ((r1, rsv1), l1)"
    by (metis prod.exhaust)
  obtain r2 rsv2 l2 where 2: "check_and_record_with_source_and_limit l1 ''k'' 100 None 0 0 = ((r2, rsv2), l2)"
    by (metis prod.exhaust)
  show ?thesis
    using refund_clips_key_limit [OF _ _ _ _ 1 2] by (intro exI [of _ l2] exI [of _ rsv1]) simp
qed

end
