(* ===== verification/Shared_Rate.thy ===== *)
theory Shared_Rate
  imports Rate_Bounds
begin

section \<open>The rate limit shared through Redis\<close>

text \<open>
  Models \<^verbatim>\<open>src/storage/redis/rate_limit.rs\<close>: the three Lua scripts on one counter key, the
  parsing of their replies and the operations of the pool.

  Redis runs a script atomically, so one invocation is one transition of the key, at a time of the
  server in milliseconds.  A key is absent or a counter with the millisecond it expires at, if
  any; it is gone once the server's clock is past that millisecond, and \<open>TTL\<close> rounds to the nearest
  second.  The limit and the window that the program sends are far below \<open>2\<^sup>5\<^sup>3\<close>, so the script's
  numbers are integers.
\<close>

subsection \<open>Keys\<close>

record rate_key =
  key_count :: int
  key_expire :: "int option"

definition live_key :: "int \<Rightarrow> rate_key option \<Rightarrow> rate_key option" where
  "live_key now k =
     (case k of
        None \<Rightarrow> None
      | Some v \<Rightarrow> (case key_expire v of
                   Some x \<Rightarrow> if now > x then None else Some v
                 | None \<Rightarrow> Some v))"

definition key_get :: "rate_key option \<Rightarrow> int" where
  "key_get k = (case k of Some v \<Rightarrow> key_count v | None \<Rightarrow> 0)"

definition key_ttl :: "int \<Rightarrow> rate_key option \<Rightarrow> int" where
  "key_ttl now k =
     (case k of
        None \<Rightarrow> - 2
      | Some v \<Rightarrow> (case key_expire v of Some x \<Rightarrow> (x - now + 500) div 1000 | None \<Rightarrow> - 1))"

definition key_expire_in :: "int \<Rightarrow> int \<Rightarrow> rate_key option \<Rightarrow> rate_key option" where
  "key_expire_in now secs k = map_option (\<lambda>v. v\<lparr>key_expire := Some (now + secs * 1000)\<rparr>) k"

definition key_add :: "int \<Rightarrow> rate_key option \<Rightarrow> rate_key option" where
  "key_add d k =
     (case k of
        None \<Rightarrow> Some \<lparr>key_count = d, key_expire = None\<rparr>
      | Some v \<Rightarrow> Some (v\<lparr>key_count := key_count v + d\<rparr>))"

subsection \<open>The scripts\<close>

definition check_and_record_script ::
  "int \<Rightarrow> int \<Rightarrow> int \<Rightarrow> rate_key option \<Rightarrow> int list \<times> rate_key option" where
  "check_and_record_script lmt win now k0 =
     (let k = live_key now k0; current = key_get k; ttl = key_ttl now k
      in if lmt \<le> 0 then ([0, current, lmt, 0, if ttl < 0 then win else ttl], k)
         else if current \<ge> lmt then
           (if ttl < 0 then ([0, current, lmt, 0, win], key_expire_in now win k)
            else ([0, current, lmt, 0, ttl], k))
         else
           (let k1 = key_add 1 k; current1 = key_get k1;
                (k2, ttl2) = (if current1 = 1 \<or> ttl < 0 then (key_expire_in now win k1, win)
                              else (k1, key_ttl now k1));
                left = lmt - current1
            in ([1, current1, lmt, if left < 0 then 0 else left, ttl2], k2)))"

definition status_script ::
  "int \<Rightarrow> int \<Rightarrow> int \<Rightarrow> rate_key option \<Rightarrow> int list \<times> rate_key option" where
  "status_script lmt win now k0 =
     (let k = live_key now k0; current = key_get k; ttl = key_ttl now k; left = lmt - current
      in ([if current < lmt then 1 else 0, current, lmt, if left < 0 then 0 else left,
           if ttl < 0 then win else ttl], k))"

definition release_script :: "int \<Rightarrow> int \<Rightarrow> rate_key option \<Rightarrow> int \<times> rate_key option" where
  "release_script reservation_ttl now k0 =
     (let k = live_key now k0; current = key_get k; ttl = key_ttl now k
      in if reservation_ttl \<le> 0 then (0, k)
         else if current \<le> 0 then (0, k)
         else if ttl < 0 then (current, k)
         else if ttl > reservation_ttl + 1 then (current, k)
         else (let k1 = key_add (- 1) k; current1 = key_get k1
               in if current1 \<le> 0 then (0, None) else (current1, k1)))"

definition parse_rate_limit_result :: "int list \<Rightarrow> rate_limit_result option" where
  "parse_rate_limit_result vs =
     (if length vs \<noteq> 5 then None
      else let ok = (vs ! 0 = 1); reset = (word_of_int (max 0 (vs ! 4)) :: u64)
           in Some \<lparr>allowed = ok, current_count = word_of_int (max 0 (vs ! 1)),
                rl_limit = word_of_int (max 0 (vs ! 2)), remaining = word_of_int (max 0 (vs ! 3)),
                reset_after_secs = reset,
                retry_after_secs = if ok then None else Some (max reset 1)\<rparr>)"

subsection \<open>The pool's operations\<close>

text \<open>
  A pool is in no-op mode, connected, or without a connection; \<open>None\<close> is a failed command, whose
  script did not run.
\<close>

datatype pool_mode = NoopPool | Unconnected | Connected | Failing

definition unlimited_result :: "u32 \<Rightarrow> rate_limit_result" where
  "unlimited_result lmt =
     \<lparr>allowed = True, current_count = 0, rl_limit = lmt, remaining = lmt, reset_after_secs = 0,
      retry_after_secs = None\<rparr>"

definition rate_limit_check_and_record ::
  "pool_mode \<Rightarrow> u32 \<Rightarrow> u64 \<Rightarrow> int \<Rightarrow> rate_key option \<Rightarrow> rate_limit_result option \<times> rate_key option" where
  "rate_limit_check_and_record pool lmt window_secs now k =
     (case pool of
        NoopPool \<Rightarrow> (Some (unlimited_result lmt), k)
      | Unconnected \<Rightarrow> (Some (unlimited_result lmt), k)
      | Failing \<Rightarrow> (None, k)
      | Connected \<Rightarrow>
          (let (vs, k') = check_and_record_script (uint lmt) (uint (max window_secs 1)) now k
           in (parse_rate_limit_result vs, k')))"

definition rate_limit_status ::
  "pool_mode \<Rightarrow> u32 \<Rightarrow> u64 \<Rightarrow> int \<Rightarrow> rate_key option \<Rightarrow> rate_limit_result option \<times> rate_key option" where
  "rate_limit_status pool lmt window_secs now k =
     (case pool of
        NoopPool \<Rightarrow> (Some (unlimited_result lmt), k)
      | Unconnected \<Rightarrow> (Some (unlimited_result lmt), k)
      | Failing \<Rightarrow> (None, k)
      | Connected \<Rightarrow>
          (let (vs, k') = status_script (uint lmt) (uint (max window_secs 1)) now k
           in (parse_rate_limit_result vs, k')))"

definition rate_limit_release ::
  "pool_mode \<Rightarrow> u64 \<Rightarrow> int \<Rightarrow> rate_key option \<Rightarrow> bool \<times> rate_key option" where
  "rate_limit_release pool reservation_ttl_secs now k =
     (if pool = NoopPool \<or> reservation_ttl_secs = 0 then (True, k)
      else case pool of
        Connected \<Rightarrow> (True, snd (release_script (uint reservation_ttl_secs) now k))
      | Failing \<Rightarrow> (False, k)
      | _ \<Rightarrow> (True, k))"

subsection \<open>Runs of any number of replicas\<close>

text \<open>
  \<open>shared_served\<close> are the times of the requests let through and not given back; those of the
  key's present lifetime are \<open>shared_current\<close>, begun at \<open>shared_start\<close>.
\<close>

record shared_world =
  shared_key :: "rate_key option"
  shared_served :: "int list"
  shared_current :: "int list"
  shared_start :: int
  shared_now :: int

definition shared_init :: "int \<Rightarrow> shared_world" where
  "shared_init t0 =
     \<lparr>shared_key = None, shared_served = [], shared_current = [], shared_start = t0, shared_now = t0\<rparr>"

definition new_lifetime :: "shared_world \<Rightarrow> int \<Rightarrow> bool" where
  "new_lifetime s now \<longleftrightarrow> live_key now (shared_key s) = None"

definition note_served :: "shared_world \<Rightarrow> int \<Rightarrow> shared_world" where
  "note_served s now =
     s\<lparr>shared_served := shared_served s @ [now],
       shared_current := (if new_lifetime s now then [now] else shared_current s @ [now]),
       shared_start := (if new_lifetime s now then now else shared_start s)\<rparr>"

definition note_released :: "shared_world \<Rightarrow> int \<Rightarrow> shared_world" where
  "note_released s a =
     s\<lparr>shared_served := remove1 a (shared_served s), shared_current := remove1 a (shared_current s)\<rparr>"

inductive shared_step :: "u32 \<Rightarrow> u64 \<Rightarrow> shared_world \<Rightarrow> shared_world \<Rightarrow> bool" for cap window_secs where
  recording: "shared_now s \<le> now \<Longrightarrow> lmt \<le> cap
    \<Longrightarrow> rate_limit_check_and_record Connected lmt window_secs now (shared_key s) = (Some r, k)
    \<Longrightarrow> shared_step cap window_secs s
          ((if allowed r then note_served s now else s)\<lparr>shared_key := k, shared_now := now\<rparr>)"
| status: "shared_now s \<le> now
    \<Longrightarrow> rate_limit_status Connected lmt window_secs now (shared_key s) = (r, k)
    \<Longrightarrow> shared_step cap window_secs s (s\<lparr>shared_key := k, shared_now := now\<rparr>)"
| release: "shared_now s \<le> now
    \<Longrightarrow> rate_limit_release Connected secs now (shared_key s) = (ok, k)
    \<Longrightarrow> key_get (live_key now k) < key_get (live_key now (shared_key s)) \<Longrightarrow> a \<in> set (shared_current s)
    \<Longrightarrow> shared_step cap window_secs s
          ((note_released s a)\<lparr>shared_key := k, shared_now := now\<rparr>)"
| no_release: "shared_now s \<le> now
    \<Longrightarrow> rate_limit_release Connected secs now (shared_key s) = (ok, k)
    \<Longrightarrow> key_get (live_key now k) = key_get (live_key now (shared_key s))
    \<Longrightarrow> shared_step cap window_secs s (s\<lparr>shared_key := k, shared_now := now\<rparr>)"

text \<open>
  The counter is the number of requests of the key's lifetime; the served requests are bounded as
  those of a fixed window that starts with the key.
\<close>

definition window_ms :: "u64 \<Rightarrow> nat" where
  "window_ms window_secs = unat (max window_secs 1) * 1000"

definition shared_entry :: "shared_world \<Rightarrow> rate_limit_entry" where
  "shared_entry s = \<lparr>timestamps = shared_current s, tokens = 0, last_refill = shared_start s\<rparr>"

definition shared_inv :: "u32 \<Rightarrow> u64 \<Rightarrow> shared_world \<Rightarrow> bool" where
  "shared_inv cap window_secs s \<longleftrightarrow>
     (case shared_key s of
        None \<Rightarrow> fixed_I cap (window_ms window_secs) None (shared_served s) (shared_now s) 0
      | Some v \<Rightarrow>
          fixed_I cap (window_ms window_secs) (Some (shared_entry s)) (shared_served s) (shared_now s) 0
          \<and> key_count v = int (length (shared_current s)) \<and> 0 < key_count v
          \<and> key_expire v = Some (shared_start s + int (window_ms window_secs)))"

lemma shared_advance:
  assumes "shared_inv cap win s" "shared_now s \<le> now"
  shows "shared_inv cap win (s\<lparr>shared_key := live_key now (shared_key s), shared_now := now\<rparr>)"
proof (cases "shared_key s")
  case None
  then show ?thesis
    using assms fixed.later_I [of cap "window_ms win" None "shared_served s" "shared_now s" 0 now 0]
    by (simp add: shared_inv_def live_key_def)
next
  case (Some v)
  then have I: "fixed_I cap (window_ms win) (Some (shared_entry s)) (shared_served s) now 0"
    using assms fixed.later_I [of cap "window_ms win" "Some (shared_entry s)" "shared_served s" "shared_now s" 0 now 0]
    by (simp add: shared_inv_def)
  show ?thesis
  proof (cases "now > shared_start s + int (window_ms win)")
    case True
    then have "elapsed now (last_refill (shared_entry s)) \<ge> window_ms win"
      by (simp add: elapsed_def shared_entry_def)
    then have "fixed_I cap (window_ms win) None (shared_served s) now 0"
      using fixed_dropped [OF I] by blast
    then show ?thesis
      using True Some assms(1) by (simp add: shared_inv_def live_key_def)
  next
    case False
    then show ?thesis
      using I Some assms(1) by (auto simp: shared_inv_def live_key_def shared_entry_def)
  qed
qed

lemma live_ttl:
  assumes "shared_inv cap win s" "live_key now (shared_key s) = Some v"
  shows "shared_key s = Some v" "0 \<le> key_ttl now (Some v)" "now \<le> shared_start s + int (window_ms win)"
    "key_expire v = Some (shared_start s + int (window_ms win))"
    "key_count v = int (length (shared_current s))" "0 < key_count v"
  using assms by (auto simp: shared_inv_def live_key_def key_ttl_def split: option.splits if_split_asm)

lemma uint_le_int_unat: "lmt \<le> cap \<Longrightarrow> int (unat (lmt :: u32)) \<le> int (unat cap)"
  by (simp add: word_le_nat_alt)

text \<open>What recording a request does to a key in a state of the invariant, and what it answers.\<close>

lemma record_new_key:
  assumes "live_key now k = None" "0 < (lmt :: u32)"
  shows "check_and_record_script (uint lmt) w now k
     = ([1, 1, uint lmt, uint lmt - 1, w], Some \<lparr>key_count = 1, key_expire = Some (now + w * 1000)\<rparr>)"
proof -
  have "0 < uint lmt"
    using assms(2) by (simp add: word_less_def)
  then show ?thesis
    using assms(1) by (simp add: check_and_record_script_def Let_def key_get_def key_add_def key_ttl_def key_expire_in_def)
qed

lemma record_live_key:
  assumes "live_key now k = Some v" "0 \<le> key_ttl now (Some v)" "0 < key_count v" "key_count v < uint (lmt :: u32)"
  shows "check_and_record_script (uint lmt) w now k
     = ([1, key_count v + 1, uint lmt, uint lmt - (key_count v + 1), key_ttl now (Some v)],
        Some (v\<lparr>key_count := key_count v + 1\<rparr>))"
  using assms by (simp add: check_and_record_script_def Let_def key_get_def key_add_def key_ttl_def)

lemma record_refused:
  assumes "key_get (live_key now k) \<ge> uint (lmt :: u32)"
    and "live_key now k \<noteq> None \<Longrightarrow> 0 \<le> key_ttl now (live_key now k)"
  shows "\<exists>ttl. check_and_record_script (uint lmt) w now k
     = ([0, key_get (live_key now k), uint lmt, 0, ttl], live_key now k)"
proof (cases "live_key now k")
  case None
  then have "uint lmt \<le> 0"
    using assms(1) by (simp add: key_get_def)
  then show ?thesis
    by (simp add: check_and_record_script_def Let_def)
next
  case (Some v)
  then show ?thesis
    using assms by (simp add: check_and_record_script_def Let_def)
qed

lemma parse_allowed: "parse_rate_limit_result (a # vs) = Some r \<Longrightarrow> allowed r \<longleftrightarrow> a = 1"
  by (auto simp: parse_rate_limit_result_def Let_def split: if_split_asm)

lemma shared_record_served:
  assumes I: "shared_inv cap win s" and now: "shared_now s \<le> now" and lmt: "lmt \<le> cap"
    and fewer: "key_get (live_key now (shared_key s)) < uint lmt"
  shows "\<exists>r k. rate_limit_check_and_record Connected lmt win now (shared_key s) = (Some r, k)
     \<and> allowed r \<and> shared_inv cap win ((note_served s now)\<lparr>shared_key := k, shared_now := now\<rparr>)"
proof -
  note adv = shared_advance [OF I now]
  let ?w = "uint (max win 1)"
  have w: "?w * 1000 = int (window_ms win)"
    by (simp add: window_ms_def uint_nat del: of_nat_unat)
  show ?thesis
  proof (cases "live_key now (shared_key s)")
    case None
    have pos: "0 < lmt"
      using fewer None by (simp add: key_get_def word_less_def)
    have fresh: "fixed_I cap (window_ms win) (Some \<lparr>timestamps = [], tokens = 0, last_refill = now\<rparr>)
        (shared_served s) now 0"
      using adv None by (simp add: shared_inv_def fixed_I_def)
    have "fixed_I cap (window_ms win) (Some \<lparr>timestamps = [now], tokens = 0, last_refill = now\<rparr>)
        (shared_served s @ [now]) now 0"
      using fixed_recorded [OF fresh, of lmt 0] pos lmt by (simp add: word_less_nat_alt)
    then show ?thesis
      using record_new_key [OF None pos] None w
      by (simp add: rate_limit_check_and_record_def parse_rate_limit_result_def Let_def note_served_def
          new_lifetime_def shared_inv_def shared_entry_def)
  next
    case (Some v)
    note v = live_ttl [OF I Some]
    have live: "fixed_I cap (window_ms win) (Some (shared_entry s)) (shared_served s) now 0"
      using adv Some by (simp add: shared_inv_def shared_entry_def)
    have count: "key_count v < uint lmt"
      using fewer Some by (simp add: key_get_def)
    then have "length (timestamps (shared_entry s)) < unat lmt"
      using v(5) by (simp add: shared_entry_def uint_nat del: of_nat_unat)
    from fixed_recorded [OF live this lmt, of 0]
    show ?thesis
      using record_live_key [OF Some v(2,6) count] Some v
      by (simp add: rate_limit_check_and_record_def parse_rate_limit_result_def Let_def note_served_def
          new_lifetime_def shared_inv_def shared_entry_def)
  qed
qed

lemma shared_record_refused:
  assumes I: "shared_inv cap win s" and now: "shared_now s \<le> now"
    and full: "\<not> key_get (live_key now (shared_key s)) < uint lmt"
  shows "\<exists>r. rate_limit_check_and_record Connected lmt win now (shared_key s)
       = (Some r, live_key now (shared_key s)) \<and> \<not> allowed r"
proof -
  have "live_key now (shared_key s) \<noteq> None \<Longrightarrow> 0 \<le> key_ttl now (live_key now (shared_key s))"
    using live_ttl(2) [OF I] by auto
  from record_refused [OF _ this] full
  obtain ttl where "check_and_record_script (uint lmt) (uint (max win 1)) now (shared_key s)
     = ([0, key_get (live_key now (shared_key s)), uint lmt, 0, ttl], live_key now (shared_key s))"
    by (metis not_less)
  then show ?thesis
    by (simp add: rate_limit_check_and_record_def parse_rate_limit_result_def Let_def)
qed

lemma release_cases:
  assumes "rate_limit_release Connected secs now k = (ok, k')"
  shows "(k' = live_key now k \<or> k' = k)
     \<or> (\<exists>v. live_key now k = Some v \<and> 0 < key_count v
          \<and> k' = (if key_count v = 1 then None else Some (v\<lparr>key_count := key_count v - 1\<rparr>)))"
  using assms
  by (cases "live_key now k")
    (auto simp: rate_limit_release_def release_script_def Let_def key_get_def key_add_def
      split: if_split_asm)

lemma live_live [simp]: "live_key now (live_key now k) = live_key now k"
  by (simp add: live_key_def split: option.split)

lemma shared_released:
  assumes I: "shared_inv cap win s" and now: "shared_now s \<le> now" and a: "a \<in> set (shared_current s)"
    and v: "live_key now (shared_key s) = Some v"
  shows "shared_inv cap win ((note_released s a)
     \<lparr>shared_key := if key_count v = 1 then None else Some (v\<lparr>key_count := key_count v - 1\<rparr>),
      shared_now := now\<rparr>)"
proof -
  note key = live_ttl [OF I v]
  have "fixed_I cap (window_ms win) (Some (shared_entry s)) (shared_served s) now 0"
    using shared_advance [OF I now] v by (simp add: shared_inv_def shared_entry_def)
  from fixed_released [OF this, of a 0] a
  have rest: "fixed_I cap (window_ms win) (Some (shared_entry (note_released s a)))
      (remove1 a (shared_served s)) now 0"
    by (simp add: shared_entry_def note_released_def)
  have len: "int (length (remove1 a (shared_current s))) = key_count v - 1"
    using a key(5) length_pos_if_in_set [OF a] by (simp add: length_remove1 of_nat_diff Suc_le_eq)
  show ?thesis
  proof (cases "key_count v = 1")
    case True
    then have "timestamps (shared_entry (note_released s a)) = []"
      using len by (simp add: shared_entry_def note_released_def)
    then have "fixed_I cap (window_ms win) None (remove1 a (shared_served s)) now 0"
      using fixed_dropped [OF rest, of 0] by blast
    then show ?thesis
      using True by (simp add: shared_inv_def note_released_def)
  next
    case False
    then show ?thesis
      using rest key len by (simp add: shared_inv_def note_released_def shared_entry_def)
  qed
qed

lemma shared_step_inv: "shared_step cap win s s' \<Longrightarrow> shared_inv cap win s \<Longrightarrow> shared_inv cap win s'"
proof (induction rule: shared_step.induct)
  case (recording s now lmt r k)
  show ?case
  proof (cases "key_get (live_key now (shared_key s)) < uint lmt")
    case True
    then show ?thesis
      using shared_record_served [OF recording.prems recording.hyps(1,2)] recording.hyps(3) by auto
  next
    case False
    then show ?thesis
      using shared_record_refused [OF recording.prems recording.hyps(1)] recording.hyps(3)
        shared_advance [OF recording.prems recording.hyps(1)] by fastforce
  qed
next
  case (status s now lmt r k)
  then have "k = live_key now (shared_key s)"
    by (auto simp: rate_limit_status_def status_script_def Let_def)
  then show ?case
    using shared_advance [OF status.prems status.hyps(1)] by simp
next
  case (release s now secs ok k a)
  then obtain v where "live_key now (shared_key s) = Some v"
    "k = (if key_count v = 1 then None else Some (v\<lparr>key_count := key_count v - 1\<rparr>))"
    using release_cases [OF release.hyps(2)] by auto
  then show ?case
    using shared_released [OF release.prems release.hyps(1,4)] by simp
next
  case (no_release s now secs ok k)
  have later: "shared_inv cap win (s\<lparr>shared_now := now\<rparr>)"
    using no_release.prems no_release.hyps(1) fixed.later_I [of cap "window_ms win" _ "shared_served s" "shared_now s" 0 now 0]
    by (auto simp: shared_inv_def shared_entry_def split: option.splits)
  from release_cases [OF no_release.hyps(2)] show ?case
  proof (elim disjE exE conjE)
    assume "k = shared_key s"
    then show ?thesis using later by simp
  next
    fix v
    assume v: "live_key now (shared_key s) = Some v" "0 < key_count v"
      "k = (if key_count v = 1 then None else Some (v\<lparr>key_count := key_count v - 1\<rparr>))"
    then have "key_get (live_key now k) = key_count v - 1"
      by (auto simp: live_key_def key_get_def split: option.splits if_split_asm)
    then show ?thesis
      using v no_release.hyps(3) by (simp add: key_get_def)
  qed (use shared_advance [OF no_release.prems no_release.hyps(1)] in simp)
qed

interpretation shared_counter: invariant_system "\<lambda>s. \<exists>t0. s = shared_init t0" "shared_step cap win"
  "shared_inv cap win" for cap :: u32 and win :: u64
proof unfold_locales
  show "shared_inv cap win s" if "\<exists>t0. s = shared_init t0" for s
    using that fixed.fresh_I by (auto simp: shared_inv_def shared_init_def)
qed (rule shared_step_inv)



end
