(* ===== verification/Utf8.thy ===== *)
theory Utf8
  imports Prelude
begin

section \<open>UTF-8 text that arrives in pieces\<close>

text \<open>
  Models the decoding of a byte stream in \<open>process_bytes_with_mode\<close> of
  \<^verbatim>\<open>src/core/providers/base/sse.rs\<close>: an incomplete character at the end of what has arrived is
  kept for the next piece, the rest is decoded with replacement characters for what is not UTF-8.

  Text is a list of code points.  \<open>decode1\<close> is the standard library's reading of the next
  character: a code point and its width, an error with the length of the rejected sequence
  (\<open>error_len\<close>), or an unexpected end (\<open>error_len\<close> is \<open>None\<close>).
\<close>

unbundle bit_operations_syntax

type_synonym byte = u8
type_synonym unicode = "nat list"

definition between :: "byte \<Rightarrow> byte \<Rightarrow> byte \<Rightarrow> bool" where
  "between lo hi b \<longleftrightarrow> lo \<le> b \<and> b \<le> hi"

definition continuation :: "byte \<Rightarrow> bool" where
  "continuation b \<longleftrightarrow> b AND 0xC0 = 0x80"

datatype utf8_step = Scalar nat nat | Bad nat | Incomplete

definition second_ok :: "byte \<Rightarrow> byte \<Rightarrow> bool" where
  "second_ok b c \<longleftrightarrow>
     (if b = 0xE0 then between 0xA0 0xBF c
      else if b = 0xED then between 0x80 0x9F c
      else if b = 0xF0 then between 0x90 0xBF c
      else if b = 0xF4 then between 0x80 0x8F c
      else between 0x80 0xBF c)"

definition utf8_width :: "byte \<Rightarrow> nat" where
  "utf8_width b =
     (if b < 0x80 then 1
      else if between 0xC2 0xDF b then 2
      else if between 0xE0 0xEF b then 3
      else if between 0xF0 0xF4 b then 4 else 0)"

definition low6 :: "byte \<Rightarrow> nat" where
  "low6 b = unat b mod 64"

fun decode1 :: "byte list \<Rightarrow> utf8_step" where
  "decode1 [] = Incomplete"
| "decode1 (b # bs) =
     (if utf8_width b = 1 then Scalar (unat b) 1
      else if utf8_width b = 0 then Bad 1
      else case bs of
        [] \<Rightarrow> Incomplete
      | c # cs \<Rightarrow>
          if \<not> second_ok b c then Bad 1
          else if utf8_width b = 2 then Scalar (unat b mod 32 * 64 + low6 c) 2
          else case cs of
            [] \<Rightarrow> Incomplete
          | d # ds \<Rightarrow>
              if \<not> between 0x80 0xBF d then Bad 2
              else if utf8_width b = 3
              then Scalar ((unat b mod 16 * 64 + low6 c) * 64 + low6 d) 3
              else case ds of
                [] \<Rightarrow> Incomplete
              | f # _ \<Rightarrow>
                  if \<not> between 0x80 0xBF f then Bad 3
                  else Scalar (((unat b mod 8 * 64 + low6 c) * 64 + low6 d) * 64 + low6 f) 4)"

definition replacement :: nat where
  "replacement = 0xFFFD"

lemma decode1_length:
  "decode1 bs = Scalar c n \<Longrightarrow> 0 < n \<and> n \<le> length bs" "decode1 bs = Bad n \<Longrightarrow> 0 < n \<and> n \<le> length bs"
  by (induction bs rule: decode1.induct) (auto split: if_split_asm list.splits)

function from_utf8_lossy :: "byte list \<Rightarrow> unicode" where
  "from_utf8_lossy bs =
     (if bs = [] then []
      else case decode1 bs of
        Scalar c n \<Rightarrow> c # from_utf8_lossy (drop n bs)
      | Bad n \<Rightarrow> replacement # from_utf8_lossy (drop n bs)
      | Incomplete \<Rightarrow> [replacement])"
  by pat_completeness auto
termination
  by (relation "measure length") (auto dest: decode1_length)

declare from_utf8_lossy.simps [simp del]

text \<open>The last position at which a predicate holds (\<open>rposition\<close>).\<close>

fun rposition :: "('a \<Rightarrow> bool) \<Rightarrow> 'a list \<Rightarrow> nat option" where
  "rposition P [] = None"
| "rposition P (x # xs) =
     (case rposition P xs of
        Some i \<Rightarrow> Some (Suc i)
      | None \<Rightarrow> if P x then Some 0 else None)"

text \<open>
  Where the kept bytes start: at the last byte of the final four that begins a character, if what
  follows from there is an incomplete character.
\<close>

definition keep_from :: "byte list \<Rightarrow> nat" where
  "keep_from input =
     (let scan_start = length input - 4
      in case rposition (\<lambda>b. \<not> continuation b) (drop scan_start input) of
           Some offset \<Rightarrow>
             (if decode1 (drop (scan_start + offset) input) = Incomplete
              then scan_start + offset else length input)
         | None \<Rightarrow> length input)"

definition feed_utf8 :: "byte list \<Rightarrow> byte list \<Rightarrow> unicode \<times> byte list" where
  "feed_utf8 pending bytes =
     (let input = pending @ bytes; k = keep_from input
      in (from_utf8_lossy (take k input), drop k input))"

subsection \<open>Incomplete characters\<close>

lemma continuation_table:
  "list_all (\<lambda>n. (word_of_nat n AND 0xC0 = (0x80 :: byte))
     = (0x80 \<le> (word_of_nat n :: byte) \<and> (word_of_nat n :: byte) \<le> 0xBF)) [0..<256]"
  by code_simp

lemma continuation_iff: "continuation b \<longleftrightarrow> between 0x80 0xBF b"
proof -
  have "unat b \<in> set [0..<256]"
    using unat_less_exp [of b] by simp
  then show ?thesis
    using continuation_table unfolding list_all_iff continuation_def between_def by fastforce
qed

lemma second_ok_continuation: "second_ok b c \<Longrightarrow> continuation c"
  by (auto simp: second_ok_def continuation_iff between_def word_le_nat_alt split: if_split_asm)

lemma incomplete_shape:
  assumes "decode1 bs = Incomplete" "bs \<noteq> []"
  shows "\<not> continuation (hd bs) \<and> (\<forall>c\<in>set (tl bs). continuation c) \<and> length bs \<le> 3"
proof -
  have "\<not> continuation b" if "utf8_width b \<noteq> 0" for b
    using that by (auto simp: utf8_width_def continuation_iff between_def word_le_nat_alt
        word_less_nat_alt split: if_split_asm)
  then show ?thesis
    using assms by (cases bs) (auto simp: continuation_iff [symmetric] dest: second_ok_continuation
        split: if_split_asm list.splits)
qed

lemma decode1_append:
  "decode1 bs = Scalar c n \<Longrightarrow> decode1 (bs @ cs) = Scalar c n"
  "decode1 bs = Bad n \<Longrightarrow> decode1 (bs @ cs) = Bad n"
  by (cases bs; auto split: if_split_asm list.splits)+

lemma decode1_incomplete_append:
  assumes "decode1 bs = Incomplete" "bs \<noteq> []" "\<not> continuation c"
  shows "decode1 (bs @ c # cs) = Bad (length bs)"
proof -
  have "\<not> second_ok b c" for b
    using assms(3) second_ok_continuation by blast
  then show ?thesis
    using assms by (cases bs) (auto simp: continuation_iff [symmetric] split: if_split_asm list.splits)
qed

subsection \<open>Decoding in pieces\<close>

lemma lossy_Nil [simp]: "from_utf8_lossy [] = []"
  by (simp add: from_utf8_lossy.simps)

lemma lossy_step:
  assumes "bs \<noteq> []"
  shows "decode1 bs = Scalar c n \<Longrightarrow> from_utf8_lossy bs = c # from_utf8_lossy (drop n bs)"
    and "decode1 bs = Bad n \<Longrightarrow> from_utf8_lossy bs = replacement # from_utf8_lossy (drop n bs)"
    and "decode1 bs = Incomplete \<Longrightarrow> from_utf8_lossy bs = [replacement]"
  using assms by (simp_all add: from_utf8_lossy.simps [of bs])

text \<open>
  Decoding splits at every byte that begins a character, and wherever the text before is not
  left incomplete.
\<close>

inductive ends_incomplete :: "byte list \<Rightarrow> byte list \<Rightarrow> bool" where
  here: "bs \<noteq> [] \<Longrightarrow> decode1 bs = Incomplete \<Longrightarrow> ends_incomplete bs bs"
| scalar: "decode1 bs = Scalar c n \<Longrightarrow> ends_incomplete (drop n bs) w \<Longrightarrow> ends_incomplete bs w"
| bad: "decode1 bs = Bad n \<Longrightarrow> ends_incomplete (drop n bs) w \<Longrightarrow> ends_incomplete bs w"

lemma ends_incomplete_suffix:
  "ends_incomplete bs w \<Longrightarrow> w \<noteq> [] \<and> decode1 w = Incomplete \<and> (\<exists>u. bs = u @ w)"
proof (induction rule: ends_incomplete.induct)
  case (scalar bs c n w)
  then obtain u where "drop n bs = u @ w" by blast
  then have "bs = (take n bs @ u) @ w"
    by (metis append_assoc append_take_drop_id)
  with scalar.IH show ?case by blast
next
  case (bad bs n w)
  then obtain u where "drop n bs = u @ w" by blast
  then have "bs = (take n bs @ u) @ w"
    by (metis append_assoc append_take_drop_id)
  with bad.IH show ?case by blast
qed auto

lemma lossy_append:
  assumes "(\<forall>w. \<not> ends_incomplete bs w) \<or> cs = [] \<or> \<not> continuation (hd cs)"
  shows "from_utf8_lossy (bs @ cs) = from_utf8_lossy bs @ from_utf8_lossy cs"
  using assms
proof (induction bs rule: from_utf8_lossy.induct)
  case (1 bs)
  show ?case
  proof (cases "bs = [] \<or> cs = []")
    case False
    then have ne: "bs \<noteq> []" "bs @ cs \<noteq> []" by simp_all
    show ?thesis
    proof (cases "decode1 bs")
      case (Scalar c n)
      then have "n \<le> length bs"
        using decode1_length by blast
      moreover have "from_utf8_lossy (drop n bs @ cs) = from_utf8_lossy (drop n bs) @ from_utf8_lossy cs"
        using "1.IH"(1) [OF ne(1) Scalar] "1.prems" Scalar by (blast intro: ends_incomplete.scalar)
      ultimately show ?thesis
        using lossy_step(1) [OF ne(1) Scalar] lossy_step(1) [OF ne(2) decode1_append(1) [OF Scalar]] by simp
    next
      case (Bad n)
      then have "n \<le> length bs"
        using decode1_length by blast
      moreover have "from_utf8_lossy (drop n bs @ cs) = from_utf8_lossy (drop n bs) @ from_utf8_lossy cs"
        using "1.IH"(2) [OF ne(1) Bad] "1.prems" Bad by (blast intro: ends_incomplete.bad)
      ultimately show ?thesis
        using lossy_step(2) [OF ne(1) Bad] lossy_step(2) [OF ne(2) decode1_append(2) [OF Bad]] by simp
    next
      case Incomplete
      then have "ends_incomplete bs bs"
        using ne by (intro ends_incomplete.here)
      then have "\<not> continuation (hd cs)"
        using "1.prems" False by blast
      then have "decode1 (bs @ cs) = Bad (length bs)"
        using decode1_incomplete_append [OF Incomplete ne(1), of "hd cs" "tl cs"] False by simp
      then show ?thesis
        using lossy_step(3) [OF ne(1) Incomplete] lossy_step(2) [OF ne(2)] by simp
    qed
  qed auto
qed

subsection \<open>What is kept back\<close>

lemma rposition_Some: "rposition P xs = Some i \<Longrightarrow> i < length xs \<and> P (xs ! i)"
  by (induction xs arbitrary: i) (auto split: option.splits if_split_asm)

lemma rposition_found: "P x \<Longrightarrow> \<forall>y\<in>set ys. \<not> P y \<Longrightarrow> rposition P (xs @ x # ys) = Some (length xs)"
proof (induction xs)
  case Nil
  then have "rposition P ys = None" by (induction ys) auto
  with Nil show ?case by simp
qed simp

lemma keep_from_incomplete:
  assumes "ends_incomplete input w"
  shows "drop (keep_from input) input = w"
proof -
  obtain u where u: "input = u @ w" and w: "w \<noteq> []" "decode1 w = Incomplete"
    using ends_incomplete_suffix [OF assms] by blast
  note shape = incomplete_shape [OF w(2,1)]
  let ?scan = "length input - 4"
  have scan: "?scan \<le> length u"
    using shape u by auto
  have "drop ?scan input = drop ?scan u @ hd w # tl w"
    using scan u w by simp
  then have "rposition (\<lambda>b. \<not> continuation b) (drop ?scan input) = Some (length (drop ?scan u))"
    using shape by (simp add: rposition_found)
  moreover have "?scan + length (drop ?scan u) = length u"
    using scan by simp
  moreover have "drop (length u) input = w"
    by (simp add: u)
  ultimately show ?thesis
    using w(2) by (simp add: keep_from_def Let_def)
qed

lemma keep_from_boundary:
  "drop (keep_from input) input = [] \<and> (\<forall>w. \<not> ends_incomplete input w)
   \<or> drop (keep_from input) input \<noteq> [] \<and> \<not> continuation (hd (drop (keep_from input) input))"
proof (cases "drop (keep_from input) input = []")
  case True
  then show ?thesis
    using keep_from_incomplete ends_incomplete_suffix by metis
next
  case False
  then obtain off where off: "rposition (\<lambda>b. \<not> continuation b) (drop (length input - 4) input) = Some off"
    "keep_from input = length input - 4 + off"
    by (auto simp: keep_from_def Let_def split: option.splits if_split_asm)
  then have "\<not> continuation (input ! keep_from input)" "keep_from input < length input"
    using rposition_Some [OF off(1)] by (auto simp: nth_drop)
  then show ?thesis
    using False by (simp add: hd_drop_conv_nth)
qed

text \<open>However the bytes are cut into pieces, the text is that of the whole.\<close>

lemma feed_utf8_lossy:
  assumes "feed_utf8 pending bytes = (t, pending')"
  shows "from_utf8_lossy (pending @ bytes @ rest) = t @ from_utf8_lossy (pending' @ rest)"
proof -
  let ?in = "pending @ bytes"
  let ?u = "take (keep_from ?in) ?in" and ?v = "drop (keep_from ?in) ?in"
  have t: "t = from_utf8_lossy ?u" "pending' = ?v"
    using assms by (simp_all add: feed_utf8_def Let_def)
  have "(\<forall>w. \<not> ends_incomplete ?u w) \<or> ?v @ rest = [] \<or> \<not> continuation (hd (?v @ rest))"
    using keep_from_boundary [of ?in] by (metis append_Nil2 append_take_drop_id hd_append2)
  from lossy_append [OF this] have "from_utf8_lossy (?u @ ?v @ rest) = t @ from_utf8_lossy (pending' @ rest)"
    unfolding t .
  moreover have "?u @ ?v @ rest = pending @ bytes @ rest"
    by (metis append_assoc append_take_drop_id)
  ultimately show ?thesis by metis
qed

subsection \<open>Encoded text survives every cut\<close>

definition valid_scalar :: "nat \<Rightarrow> bool" where
  "valid_scalar c \<longleftrightarrow> c < 0x110000 \<and> \<not> (0xD800 \<le> c \<and> c \<le> 0xDFFF)"

definition tail_byte :: "nat \<Rightarrow> byte" where
  "tail_byte n = word_of_nat (0x80 + n mod 64)"

definition encode_char :: "nat \<Rightarrow> byte list" where
  "encode_char c =
     (if c < 0x80 then [word_of_nat c]
      else if c < 0x800 then [word_of_nat (0xC0 + c div 64), tail_byte c]
      else if c < 0x10000 then [word_of_nat (0xE0 + c div 4096), tail_byte (c div 64), tail_byte c]
      else [word_of_nat (0xF0 + c div 262144), tail_byte (c div 4096), tail_byte (c div 64), tail_byte c])"

definition encode_utf8 :: "unicode \<Rightarrow> byte list" where
  "encode_utf8 t = concat (map encode_char t)"

lemma unat_byte: "n < 256 \<Longrightarrow> unat (word_of_nat n :: byte) = n"
  by (simp add: unat_of_nat take_bit_eq_mod)

lemma mod_offset: "m < d \<Longrightarrow> (k * d + m) mod d = (m :: nat)"
  by simp

lemma unat_tail_byte: "unat (tail_byte n) = 0x80 + n mod 64" "low6 (tail_byte n) = n mod 64"
proof -
  have "n mod 64 < 64" by simp
  then show "unat (tail_byte n) = 0x80 + n mod 64"
    unfolding tail_byte_def by (intro unat_byte) linarith
  then show "low6 (tail_byte n) = n mod 64"
    by (simp add: low6_def mod_offset [of "n mod 64" 64 2, simplified])
qed

lemma between_unat: "between lo hi b \<longleftrightarrow> unat lo \<le> unat b \<and> unat b \<le> unat hi"
  by (simp add: between_def word_le_nat_alt)

lemma byte_eq_unat: "(b :: byte) = c \<longleftrightarrow> unat b = unat c"
  by (rule word_unat_eq_iff)

lemma tail_byte_ok: "between 0x80 0xBF (tail_byte n)"
proof -
  have "n mod 64 < 64" by simp
  then show ?thesis
    by (simp add: between_unat unat_tail_byte)
qed

lemma encode_two:
  assumes "0x80 \<le> c" "c < 0x800"
  shows "decode1 (encode_char c @ bs) = Scalar c 2"
proof -
  define b where "b = (word_of_nat (0xC0 + c div 64) :: byte)"
  have enc: "encode_char c = [b, tail_byte c]"
    using assms by (simp add: encode_char_def b_def)
  have q: "2 \<le> c div 64" "c div 64 < 32"
    using assms by (auto simp: less_mult_imp_div_less div_le_mono [of 128 c 64, simplified])
  have ub: "unat b = 0xC0 + c div 64"
    unfolding b_def using q by (intro unat_byte) linarith
  then have "utf8_width b = 2" "second_ok b = between 0x80 0xBF"
    using q by (auto simp: utf8_width_def between_unat word_less_nat_alt byte_eq_unat second_ok_def fun_eq_iff)
  moreover have "unat b mod 32 = c div 64"
    using mod_offset [OF q(2), of 6] by (simp add: ub)
  ultimately show ?thesis
    by (simp add: enc tail_byte_ok unat_tail_byte)
qed

lemma recompose2: "c = 64 * x + m \<Longrightarrow> x = 64 * q + r \<Longrightarrow> (q * 64 + r) * 64 + m = (c :: nat)"
  by simp

lemma recompose3:
  "c = 64 * x + m \<Longrightarrow> x = 64 * y + n \<Longrightarrow> y = 64 * q + r \<Longrightarrow> ((q * 64 + r) * 64 + n) * 64 + m = (c :: nat)"
  by simp

lemma encode_three:
  assumes "0x800 \<le> c" "c < 0x10000" "\<not> (0xD800 \<le> c \<and> c \<le> 0xDFFF)"
  shows "decode1 (encode_char c @ bs) = Scalar c 3"
proof -
  define x q r where x: "x = c div 64" and q: "q = x div 64" and r: "r = x mod 64"
  have c: "c = 64 * x + c mod 64" "c mod 64 < 64" and xq: "x = 64 * q + r" "r < 64"
    by (simp_all add: x q r)
  have qx: "c div 4096 = q"
    by (simp add: q x flip: div_mult2_eq)
  have bounds: "32 \<le> x" "x < 1024" "x < 864 \<or> 896 \<le> x"
    using assms c by linarith+
  have q16: "q < 16"
    using bounds xq by linarith
  define b where "b = (word_of_nat (0xE0 + c div 4096) :: byte)"
  have enc: "encode_char c = [b, tail_byte (c div 64), tail_byte c]"
    using assms by (simp add: encode_char_def b_def)
  have ub: "unat b = 0xE0 + q"
    unfolding b_def qx using q16 by (intro unat_byte) linarith
  have "utf8_width b = 3"
    using q16 ub by (simp add: utf8_width_def between_unat word_less_nat_alt)
  moreover have "second_ok b (tail_byte (c div 64))"
    using bounds xq unfolding second_ok_def byte_eq_unat ub between_unat unat_tail_byte x [symmetric] r [symmetric]
    by auto
  moreover have "unat b mod 16 = q"
    using mod_offset [OF q16, of 14] by (simp add: ub)
  moreover have "(q * 64 + c div 64 mod 64) * 64 + c mod 64 = c"
    unfolding x [symmetric] r [symmetric] by (rule recompose2 [OF c(1) xq(1)])
  ultimately show ?thesis
    by (simp add: enc tail_byte_ok unat_tail_byte)
qed

lemma encode_four:
  assumes "0x10000 \<le> c" "c < 0x110000"
  shows "decode1 (encode_char c @ bs) = Scalar c 4"
proof -
  define x y q r where x: "x = c div 64" and y: "y = x div 64" and q: "q = y div 64" and r: "r = y mod 64"
  have c: "c = 64 * x + c mod 64" "c mod 64 < 64" and xy: "x = 64 * y + x mod 64" "x mod 64 < 64"
    and yq: "y = 64 * q + r" "r < 64"
    by (simp_all add: x y q r)
  have qy: "c div 262144 = q" "c div 4096 = y"
    by (simp_all add: q y x flip: div_mult2_eq)
  have bounds: "16 \<le> y" "y < 272"
    using assms c xy by linarith+
  have q8: "q < 5"
    using bounds yq by linarith
  define b where "b = (word_of_nat (0xF0 + c div 262144) :: byte)"
  have enc: "encode_char c = [b, tail_byte (c div 4096), tail_byte (c div 64), tail_byte c]"
    using assms by (simp add: encode_char_def b_def)
  have ub: "unat b = 0xF0 + q"
    unfolding b_def qy using q8 by (intro unat_byte) linarith
  have "utf8_width b = 4"
    using q8 ub by (simp add: utf8_width_def between_unat word_less_nat_alt)
  moreover have "second_ok b (tail_byte (c div 4096))"
    using bounds yq unfolding second_ok_def byte_eq_unat ub between_unat unat_tail_byte qy r [symmetric]
    by auto
  moreover have "unat b mod 8 = q"
    using mod_offset [of q 8 30] q8 by (simp add: ub)
  moreover have "((q * 64 + c div 4096 mod 64) * 64 + c div 64 mod 64) * 64 + c mod 64 = c"
    unfolding qy x [symmetric] r [symmetric] by (rule recompose3 [OF c(1) xy(1) yq(1)])
  ultimately show ?thesis
    by (simp add: enc tail_byte_ok unat_tail_byte)
qed

lemma decode1_encode:
  "valid_scalar c \<Longrightarrow> decode1 (encode_char c @ bs) = Scalar c (length (encode_char c))"
proof (cases "c < 0x80")
  case True
  then have "unat (word_of_nat c :: byte) = c"
    by (intro unat_byte) simp
  then show ?thesis
    using True by (simp add: encode_char_def utf8_width_def word_less_nat_alt)
next
  case False
  assume "valid_scalar c"
  then show ?thesis
    using False encode_two [of c bs] encode_three [of c bs] encode_four [of c bs]
    by (auto simp: valid_scalar_def not_less) (auto simp: encode_char_def)
qed

lemma encode_utf8_Cons: "encode_utf8 (c # t) = encode_char c @ encode_utf8 t"
  by (simp add: encode_utf8_def)

lemma encode_char_nonempty: "encode_char c \<noteq> []"
  by (simp add: encode_char_def)

lemma lossy_encode:
  "\<forall>c\<in>set t. valid_scalar c \<Longrightarrow> from_utf8_lossy (encode_utf8 t @ bs) = t @ from_utf8_lossy bs"
proof (induction t)
  case (Cons c t)
  then have "decode1 (encode_char c @ encode_utf8 t @ bs) = Scalar c (length (encode_char c))"
    by (intro decode1_encode) simp
  from lossy_step(1) [OF _ this] Cons show ?case
    by (simp add: encode_utf8_Cons encode_char_nonempty)
qed (simp add: encode_utf8_def)

lemma encode_complete: "\<forall>c\<in>set t. valid_scalar c \<Longrightarrow> \<not> ends_incomplete (encode_utf8 t) w"
proof (induction t)
  case Nil
  then show ?case
    using ends_incomplete_suffix by (force simp: encode_utf8_def)
next
  case (Cons c t)
  have d: "decode1 (encode_utf8 (c # t)) = Scalar c (length (encode_char c))"
    using Cons.prems unfolding encode_utf8_Cons by (intro decode1_encode) simp
  show ?case
  proof
    assume "ends_incomplete (encode_utf8 (c # t)) w"
    then show False
      using d Cons by cases (auto simp: encode_utf8_Cons)
  qed
qed

lemma incomplete_at_end:
  "v \<noteq> [] \<Longrightarrow> decode1 v = Incomplete \<Longrightarrow> ends_incomplete (u @ v) v"
proof (induction u rule: length_induct)
  case (1 u)
  have hd: "\<not> continuation (hd v)"
    using incomplete_shape [OF 1(3,2)] by blast
  show ?case
  proof (cases "u = []")
    case False
    show ?thesis
    proof (cases "decode1 u")
      case (Scalar c n)
      then have "0 < n" "n \<le> length u"
        using decode1_length(1) [OF Scalar] by auto
      moreover have "length (drop n u) < length u"
        using calculation by simp
      ultimately have "ends_incomplete (drop n (u @ v)) v"
        using 1 by simp
      then show ?thesis
        using decode1_append(1) [OF Scalar] by (blast intro: ends_incomplete.scalar)
    next
      case (Bad n)
      then have "0 < n" "n \<le> length u"
        using decode1_length(2) [OF Bad] by auto
      moreover have "length (drop n u) < length u"
        using calculation by simp
      ultimately have "ends_incomplete (drop n (u @ v)) v"
        using 1 by simp
      then show ?thesis
        using decode1_append(2) [OF Bad] by (blast intro: ends_incomplete.bad)
    next
      case Incomplete
      have "decode1 (u @ v) = Bad (length u)"
        using decode1_incomplete_append [OF Incomplete False hd, of "tl v"] "1.prems" by simp
      moreover have "ends_incomplete (drop (length u) (u @ v)) v"
        using "1.prems" by (simp add: ends_incomplete.here)
      ultimately show ?thesis
        by (rule ends_incomplete.bad)
    qed
  qed (use 1 ends_incomplete.here in auto)
qed

text \<open>The pieces of a stream, decoded one after the other.\<close>

fun feed_all :: "byte list \<Rightarrow> byte list list \<Rightarrow> unicode \<times> byte list" where
  "feed_all pending [] = ([], pending)"
| "feed_all pending (b # bs) =
     (let (t, pending1) = feed_utf8 pending b; (ts, pending2) = feed_all pending1 bs
      in (t @ ts, pending2))"

lemma feed_utf8_splits:
  assumes "feed_utf8 pending b = (t, pend)"
  shows "\<exists>u. pending @ b = u @ pend" "pend = [] \<or> decode1 pend = Incomplete"
proof -
  show "\<exists>u. pending @ b = u @ pend"
    using assms by (metis append_take_drop_id feed_utf8_def prod.inject)
  show "pend = [] \<or> decode1 pend = Incomplete"
    using assms by (auto simp: feed_utf8_def keep_from_def Let_def split: option.splits if_split_asm)
qed

lemma feed_all_splits:
  assumes "feed_all pending bs = (t, pend)" "pending = [] \<or> decode1 pending = Incomplete"
  shows "\<exists>u. pending @ concat bs = u @ pend" "pend = [] \<or> decode1 pend = Incomplete"
    "from_utf8_lossy (pending @ concat bs) = t @ from_utf8_lossy pend"
  using assms
proof (induction bs arbitrary: pending t)
  case (Cons b bs)
  case 1
  obtain t1 p1 ts where f: "feed_utf8 pending b = (t1, p1)" "feed_all p1 bs = (ts, pend)" "t = t1 @ ts"
    using 1 by (auto simp: Let_def split: prod.splits)
  obtain u where "pending @ b = u @ p1"
    using feed_utf8_splits(1) [OF f(1)] by blast
  with Cons.IH(1) [OF f(2) feed_utf8_splits(2) [OF f(1)]] show ?case
    by (metis append.assoc concat.simps(2))
next
  case (Cons b bs)
  case 2
  obtain t1 p1 ts where f: "feed_utf8 pending b = (t1, p1)" "feed_all p1 bs = (ts, pend)" "t = t1 @ ts"
    using 2 by (auto simp: Let_def split: prod.splits)
  show ?case
    using Cons.IH(2) [OF f(2) feed_utf8_splits(2) [OF f(1)]] .
next
  case (Cons b bs)
  case 3
  obtain t1 p1 ts where f: "feed_utf8 pending b = (t1, p1)" "feed_all p1 bs = (ts, pend)" "t = t1 @ ts"
    using 3 by (auto simp: Let_def split: prod.splits)
  show ?case
    using Cons.IH(3) [OF f(2) feed_utf8_splits(2) [OF f(1)]] feed_utf8_lossy [OF f(1), of "concat bs"] f(3)
    by simp
qed auto

text \<open>
  C9.  Text survives the network: whatever pieces the UTF-8 encoding of a text is cut into, also
  in the middle of characters, decoding the pieces one after the other gives back the text and
  leaves no byte behind.
\<close>

theorem utf8_pieces_round_trip:
  assumes "\<forall>c\<in>set t. valid_scalar c" "concat pieces = encode_utf8 t"
  shows "feed_all [] pieces = (t, [])"
proof -
  obtain t' pend where f: "feed_all [] pieces = (t', pend)" by fastforce
  note splits = feed_all_splits [OF f]
  have "pend = []"
  proof (rule ccontr)
    assume "pend \<noteq> []"
    then have "ends_incomplete (encode_utf8 t) pend"
      using splits(1,2) incomplete_at_end assms(2) by fastforce
    then show False
      using encode_complete [OF assms(1)] by blast
  qed
  then show ?thesis
    using f splits(3) assms(2) lossy_encode [OF assms(1), of "[]"] by simp
qed

theorem utf8_pieces_round_trip_witness:
  "feed_all [] [take 3 (encode_utf8 [97, 0x1F680, 98]), drop 3 (encode_utf8 [97, 0x1F680, 98])]
     = ([97, 0x1F680, 98], [])"
  by (rule utf8_pieces_round_trip) (simp_all add: valid_scalar_def)

end
