(* ===== verification/SSE.thy ===== *)
theory SSE
  imports Utf8
begin

section \<open>Server-sent events of the providers\<close>

text \<open>
  Models \<^verbatim>\<open>src/core/providers/base/sse.rs\<close>: the parser of server-sent events and the stream
  that polls a response body and yields chat chunks.

  The parser is generic in the provider's transformer, a trait whose methods may keep state
  behind \<open>&self\<close>: it is a record of functions on a state \<open>'t\<close>, with chunks \<open>'c\<close> and errors \<open>'e\<close>.
  The texts of errors, and the combination of two errors into one, are fields of that record.  A
  response body is the list of what its successive polls return.
\<close>

subsection \<open>Text\<close>

definition newline :: nat where
  "newline = 10"

definition is_whitespace :: "nat \<Rightarrow> bool" where
  "is_whitespace c \<longleftrightarrow>
     (9 \<le> c \<and> c \<le> 13) \<or> c = 32 \<or> c = 0x85 \<or> c = 0xA0 \<or> c = 0x1680 \<or> (0x2000 \<le> c \<and> c \<le> 0x200A)
     \<or> c = 0x2028 \<or> c = 0x2029 \<or> c = 0x202F \<or> c = 0x205F \<or> c = 0x3000"

definition trim_start :: "unicode \<Rightarrow> unicode" where
  "trim_start = dropWhile is_whitespace"

definition trim_both :: "unicode \<Rightarrow> unicode" where
  "trim_both t = rev (dropWhile is_whitespace (rev (trim_start t)))"

definition ascii :: "string \<Rightarrow> unicode" where
  "ascii = map of_char"

definition strip_cr :: "unicode \<Rightarrow> unicode" where
  "strip_cr l = (if l \<noteq> [] \<and> last l = 13 then butlast l else l)"

function str_lines :: "unicode \<Rightarrow> unicode list" where
  "str_lines t =
     (if t = [] then []
      else case dropWhile (\<lambda>c. c \<noteq> newline) t of
        [] \<Rightarrow> [t]
      | _ # rest \<Rightarrow> strip_cr (takeWhile (\<lambda>c. c \<noteq> newline) t) # str_lines rest)"
  by pat_completeness auto
termination
proof (relation "measure length")
  fix t :: unicode and x rest
  assume "dropWhile (\<lambda>c. c \<noteq> newline) t = x # rest"
  then have "Suc (length rest) \<le> length t"
    using length_dropWhile_le [of "\<lambda>c. c \<noteq> newline" t] by simp
  then show "(rest, t) \<in> measure length"
    by simp
qed simp

declare str_lines.simps [simp del]

definition is_digit :: "nat \<Rightarrow> bool" where
  "is_digit c \<longleftrightarrow> 48 \<le> c \<and> c \<le> 57"

definition parse_u64 :: "unicode \<Rightarrow> u64 option" where
  "parse_u64 t =
     (let ds = (case t of c # cs \<Rightarrow> if c = 43 then cs else t | [] \<Rightarrow> []);
          v = foldl (\<lambda>n d. n * 10 + (d - 48)) 0 ds
      in if ds \<noteq> [] \<and> list_all is_digit ds \<and> v < 2 ^ 64 then Some (word_of_nat v) else None)"

subsection \<open>Events\<close>

record sse_event =
  event_type :: "unicode option"
  event_data :: unicode
  event_id :: "unicode option"
  event_retry :: "u64 option"

definition sse_from_line :: "unicode \<Rightarrow> sse_event option" where
  "sse_from_line line =
     (if line = [] \<or> hd line = 58 then None
      else case dropWhile (\<lambda>c. c \<noteq> 58) line of
        [] \<Rightarrow> None
      | _ # rest \<Rightarrow>
          (let field = takeWhile (\<lambda>c. c \<noteq> 58) line; v = trim_start rest
           in if field = ascii ''data''
              then Some \<lparr>event_type = None, event_data = v, event_id = None, event_retry = None\<rparr>
              else if field = ascii ''event''
              then Some \<lparr>event_type = Some v, event_data = [], event_id = None, event_retry = None\<rparr>
              else if field = ascii ''id''
              then Some \<lparr>event_type = None, event_data = [], event_id = Some v, event_retry = None\<rparr>
              else if field = ascii ''retry''
              then map_option (\<lambda>ms. \<lparr>event_type = None, event_data = [], event_id = None,
                                    event_retry = Some ms\<rparr>) (parse_u64 v)
              else None))"

subsection \<open>Transformers and the parser\<close>

record ('t, 'c, 'e) sse_transformer =
  is_end_marker :: "'t \<Rightarrow> unicode \<Rightarrow> bool"
  transform_chunk :: "'t \<Rightarrow> unicode \<Rightarrow> ('e + 'c option) \<times> 't"
  transform_stream_chunk :: "'t \<Rightarrow> unicode \<Rightarrow> ('e + 'c option) \<times> 't"
  take_stream_error_chunk :: "'t \<Rightarrow> 'c option \<times> 't"
  finish_stream_of :: "'t \<Rightarrow> ('e + 'c option) \<times> 't"
  combine_stream_errors :: "'e \<Rightarrow> 'e \<Rightarrow> 'e"
  network_error :: 'e \<comment> \<open>the body failed\<close>
  overflow_error :: 'e \<comment> \<open>too many chunks at once\<close>

definition done_marker :: "unicode \<Rightarrow> bool" where
  "done_marker d \<longleftrightarrow> trim_both d = ascii ''[DONE]''"

record 't sse_parser =
  transformer :: 't
  buffer :: unicode
  pending_utf8 :: "byte list"
  current_event :: "sse_event option"
  stream_finished :: bool

definition sse_parser_new :: "'t \<Rightarrow> 't sse_parser" where
  "sse_parser_new t =
     \<lparr>transformer = t, buffer = [], pending_utf8 = [], current_event = None, stream_finished = False\<rparr>"

definition process_event ::
  "('t, 'c, 'e) sse_transformer \<Rightarrow> bool \<Rightarrow> sse_event \<Rightarrow> 't sse_parser
    \<Rightarrow> ('e + 'c option) \<times> 't sse_parser" where
  "process_event tr mode ev p =
     (if event_data ev = [] then (Inr None, p)
      else if is_end_marker tr (transformer p) (event_data ev) then
        (let p' = p\<lparr>stream_finished := True\<rparr>
         in if mode
            then (let (r, t) = finish_stream_of tr (transformer p) in (r, p'\<lparr>transformer := t\<rparr>))
            else (Inr None, p'))
      else
        (let (r, t) = (if mode then transform_stream_chunk tr else transform_chunk tr)
                        (transformer p) (event_data ev)
         in (r, p\<lparr>transformer := t\<rparr>)))"

definition merge_event :: "sse_event \<Rightarrow> sse_event option \<Rightarrow> sse_event option" where
  "merge_event ev cur =
     (if event_data ev \<noteq> [] then
        (case cur of
           Some c \<Rightarrow>
             Some (c\<lparr>event_data :=
               (if event_data c \<noteq> [] then event_data c @ [newline] else event_data c) @ event_data ev\<rparr>)
         | None \<Rightarrow> Some ev)
      else if event_type ev \<noteq> None \<or> event_id ev \<noteq> None \<or> event_retry ev \<noteq> None then
        (case cur of
           Some c \<Rightarrow>
             Some (c\<lparr>event_type := if event_type ev \<noteq> None then event_type ev else event_type c,
                    event_id := if event_id ev \<noteq> None then event_id ev else event_id c,
                    event_retry := if event_retry ev \<noteq> None then event_retry ev else event_retry c\<rparr>)
         | None \<Rightarrow> Some ev)
      else cur)"

definition process_line ::
  "('t, 'c, 'e) sse_transformer \<Rightarrow> bool \<Rightarrow> unicode \<Rightarrow> 't sse_parser
    \<Rightarrow> ('e + 'c option) \<times> 't sse_parser" where
  "process_line tr mode line p =
     (if line = [] then
        (case current_event p of
           Some ev \<Rightarrow> process_event tr mode ev (p\<lparr>current_event := None\<rparr>)
         | None \<Rightarrow> (Inr None, p))
      else case sse_from_line line of
        Some ev \<Rightarrow> (Inr None, p\<lparr>current_event := merge_event ev (current_event p)\<rparr>)
      | None \<Rightarrow> (Inr None, p))"

record ('c, 'e) sse_batch =
  batch_chunks :: "'c list"
  batch_error :: "'e option"

definition list_of_option :: "'a option \<Rightarrow> 'a list" where
  "list_of_option x = (case x of Some y \<Rightarrow> [y] | None \<Rightarrow> [])"

text \<open>The loop over the complete lines, with the chunks collected so far.\<close>

fun process_lines ::
  "('t, 'c, 'e) sse_transformer \<Rightarrow> bool \<Rightarrow> unicode list \<Rightarrow> 'c list \<Rightarrow> 't sse_parser
    \<Rightarrow> ('c, 'e) sse_batch \<times> 't sse_parser" where
  "process_lines tr mode [] acc p = (\<lparr>batch_chunks = acc, batch_error = None\<rparr>, p)"
| "process_lines tr mode (l # ls) acc p =
     (case process_line tr mode l p of
        (Inl err, p1) \<Rightarrow>
          (let (c, t) = take_stream_error_chunk tr (transformer p1)
           in (\<lparr>batch_chunks = acc @ list_of_option c, batch_error = Some err\<rparr>, p1\<lparr>transformer := t\<rparr>))
      | (Inr c, p1) \<Rightarrow>
          (let acc' = acc @ list_of_option c
           in if stream_finished p1
              then (\<lparr>batch_chunks = acc', batch_error = None\<rparr>, p1\<lparr>buffer := [], pending_utf8 := []\<rparr>)
              else process_lines tr mode ls acc' p1))"

definition process_bytes_with_mode ::
  "('t, 'c, 'e) sse_transformer \<Rightarrow> bool \<Rightarrow> byte list \<Rightarrow> 't sse_parser
    \<Rightarrow> ('c, 'e) sse_batch \<times> 't sse_parser" where
  "process_bytes_with_mode tr mode bytes p =
     (if stream_finished p then (\<lparr>batch_chunks = [], batch_error = None\<rparr>, p)
      else
        (let (t, pend) = feed_utf8 (pending_utf8 p) bytes;
             buf = buffer p @ t;
             p1 = p\<lparr>pending_utf8 := pend, buffer := buf\<rparr>
         in case rposition (\<lambda>c. c = newline) buf of
              None \<Rightarrow> (\<lparr>batch_chunks = [], batch_error = None\<rparr>, p1)
            | Some pos \<Rightarrow>
                process_lines tr mode (str_lines (take (Suc pos) buf)) []
                  (p1\<lparr>buffer := drop (Suc pos) buf\<rparr>)))"

definition process_bytes ::
  "('t, 'c, 'e) sse_transformer \<Rightarrow> byte list \<Rightarrow> 't sse_parser \<Rightarrow> ('e + 'c list) \<times> 't sse_parser" where
  "process_bytes tr bytes p =
     (let (b, p') = process_bytes_with_mode tr False bytes p
      in (case batch_error b of Some err \<Rightarrow> Inl err | None \<Rightarrow> Inr (batch_chunks b), p'))"

text \<open>
  The end of the body: the last line and the last event are processed, then the transformer is
  finished unless the end marker was met.
\<close>

definition flush_line ::
  "('t, 'c, 'e) sse_transformer \<Rightarrow> 't sse_parser \<Rightarrow> ('e + 'c list) \<times> 't sse_parser" where
  "flush_line tr p =
     (let text = buffer p @ from_utf8_lossy (pending_utf8 p); p1 = p\<lparr>pending_utf8 := [], buffer := []\<rparr>
      in if text = [] then (Inr [], p1)
         else case process_line tr True text p1 of
           (Inl err, p2) \<Rightarrow> (Inl err, p2)
         | (Inr c, p2) \<Rightarrow> (Inr (list_of_option c), p2))"

definition flush_event ::
  "('t, 'c, 'e) sse_transformer \<Rightarrow> 't sse_parser \<Rightarrow> ('e + 'c list) \<times> 't sse_parser" where
  "flush_event tr p =
     (case current_event p of
        None \<Rightarrow> (Inr [], p)
      | Some ev \<Rightarrow>
          (case process_event tr True ev (p\<lparr>current_event := None\<rparr>) of
             (Inl err, p2) \<Rightarrow> (Inl err, p2)
           | (Inr c, p2) \<Rightarrow> (Inr (list_of_option c), p2)))"

definition sse_finish ::
  "('t, 'c, 'e) sse_transformer \<Rightarrow> 't sse_parser \<Rightarrow> ('c, 'e) sse_batch \<times> 't sse_parser" where
  "sse_finish tr p =
     (if stream_finished p then (\<lparr>batch_chunks = [], batch_error = None\<rparr>, p)
      else
        (let (r1, p1) = flush_line tr p;
             cs1 = (case r1 of Inr cs \<Rightarrow> cs | Inl _ \<Rightarrow> []);
             (parsed, cs2, p2) =
               (case r1 of
                  Inl err \<Rightarrow> (Some err, cs1, p1)
                | Inr _ \<Rightarrow>
                    (case flush_event tr p1 of
                       (Inl err, q) \<Rightarrow> (Some err, cs1, q)
                     | (Inr cs, q) \<Rightarrow> (None, cs1 @ cs, q)));
             (cs3, t3) =
               (case parsed of
                  Some _ \<Rightarrow> (let (c, t) = take_stream_error_chunk tr (transformer p2)
                           in (cs2 @ list_of_option c, t))
                | None \<Rightarrow> (cs2, transformer p2));
             (fin, t4) = (if stream_finished p2 then (Inr None, t3) else finish_stream_of tr t3);
             p3 = p2\<lparr>transformer := t4, stream_finished := True\<rparr>
         in (case (parsed, fin) of
               (None, Inr c) \<Rightarrow> (\<lparr>batch_chunks = cs3 @ list_of_option c, batch_error = None\<rparr>, p3)
             | (Some err, Inr _) \<Rightarrow> (\<lparr>batch_chunks = cs3, batch_error = Some err\<rparr>, p3)
             | (None, Inl err) \<Rightarrow> (\<lparr>batch_chunks = cs3, batch_error = Some err\<rparr>, p3)
             | (Some e1, Inl e2) \<Rightarrow>
                 (\<lparr>batch_chunks = cs3, batch_error = Some (combine_stream_errors tr e1 e2)\<rparr>, p3))))"

subsection \<open>The stream\<close>

datatype body_item = BodyBytes "byte list" | BodyError | BodyPending

datatype ('c, 'e) poll = Pending | Yield "('e + 'c)" | Exhausted

record ('t, 'c, 'e) sse_stream =
  inner_body :: "body_item list option"
  stream_parser :: "'t sse_parser"
  chunk_buffer :: "'c list"
  pending_error :: "'e option"
  finished_flag :: bool

definition sse_stream_new :: "body_item list \<Rightarrow> 't \<Rightarrow> ('t, 'c, 'e) sse_stream" where
  "sse_stream_new body t =
     \<lparr>inner_body = Some body, stream_parser = sse_parser_new t, chunk_buffer = [], pending_error = None,
      finished_flag = False\<rparr>"

definition max_chunk_buffer_size :: nat where
  "max_chunk_buffer_size = 10000"

text \<open>Taking one item of the body: the batch, the parser and whether the stream is over.\<close>

definition finalize_transform_error ::
  "('t, 'c, 'e) sse_transformer \<Rightarrow> 'e \<Rightarrow> 't \<Rightarrow> 'e \<times> 't" where
  "finalize_transform_error tr err t =
     (case finish_stream_of tr t of
        (Inr _, t') \<Rightarrow> (err, t')
      | (Inl fin, t') \<Rightarrow> (combine_stream_errors tr err fin, t'))"

definition take_bytes ::
  "('t, 'c, 'e) sse_transformer \<Rightarrow> byte list \<Rightarrow> 't sse_parser
    \<Rightarrow> ('c, 'e) sse_batch \<times> 't sse_parser \<times> bool" where
  "take_bytes tr bytes p =
     (let (b, p1) = process_bytes_with_mode tr True bytes p
      in case batch_error b of
           None \<Rightarrow> (b, p1, stream_finished p1)
         | Some err \<Rightarrow>
             if stream_finished p1 then (b, p1, True)
             else (let (err', t) = finalize_transform_error tr err (transformer p1)
                   in (b\<lparr>batch_error := Some err'\<rparr>, p1\<lparr>transformer := t\<rparr>, True)))"

definition take_error ::
  "('t, 'c, 'e) sse_transformer \<Rightarrow> 't sse_parser \<Rightarrow> ('c, 'e) sse_batch \<times> 't sse_parser" where
  "take_error tr p =
     (let (b, p1) = sse_finish tr p
      in (b\<lparr>batch_error := Some (case batch_error b of
            Some fin \<Rightarrow> combine_stream_errors tr (network_error tr) fin
          | None \<Rightarrow> network_error tr)\<rparr>, p1))"

definition deliver ::
  "('t, 'c, 'e) sse_transformer \<Rightarrow> ('c, 'e) sse_batch \<Rightarrow> ('t, 'c, 'e) sse_stream
    \<Rightarrow> ('c, 'e) poll \<times> ('t, 'c, 'e) sse_stream" where
  "deliver tr b s0 =
     (let s = (if finished_flag s0 then s0\<lparr>inner_body := None\<rparr> else s0)
      in if length (chunk_buffer s) + length (batch_chunks b) > max_chunk_buffer_size
         then (Yield (Inl (overflow_error tr)), s\<lparr>finished_flag := True, inner_body := None\<rparr>)
         else case (chunk_buffer s @ batch_chunks b, batch_error b) of
           (c # cs, err) \<Rightarrow> (Yield (Inr c), s\<lparr>chunk_buffer := cs, pending_error := err\<rparr>)
         | ([], Some err) \<Rightarrow> (Yield (Inl err), s\<lparr>chunk_buffer := [], pending_error := None\<rparr>)
         | ([], None) \<Rightarrow>
             (if finished_flag s then Exhausted else Pending,
              s\<lparr>chunk_buffer := [], pending_error := None\<rparr>))"

definition poll_next ::
  "('t, 'c, 'e) sse_transformer \<Rightarrow> ('t, 'c, 'e) sse_stream
    \<Rightarrow> ('c, 'e) poll \<times> ('t, 'c, 'e) sse_stream" where
  "poll_next tr s =
     (case chunk_buffer s of
        c # cs \<Rightarrow> (Yield (Inr c), s\<lparr>chunk_buffer := cs\<rparr>)
      | [] \<Rightarrow>
        (case pending_error s of
           Some err \<Rightarrow> (Yield (Inl err), s\<lparr>pending_error := None\<rparr>)
         | None \<Rightarrow>
           if finished_flag s then (Exhausted, s)
           else (case inner_body s of
             None \<Rightarrow> (Exhausted, s)
           | Some [] \<Rightarrow>
               (let (b, p) = sse_finish tr (stream_parser s)
                in deliver tr b (s\<lparr>stream_parser := p, finished_flag := True\<rparr>))
           | Some (BodyPending # items) \<Rightarrow> (Pending, s\<lparr>inner_body := Some items\<rparr>)
           | Some (BodyError # items) \<Rightarrow>
               (let (b, p) = take_error tr (stream_parser s)
                in deliver tr b (s\<lparr>inner_body := Some items, stream_parser := p, finished_flag := True\<rparr>))
           | Some (BodyBytes bytes # items) \<Rightarrow>
               (let (b, p, over) = take_bytes tr bytes (stream_parser s)
                in deliver tr b (s\<lparr>inner_body := Some items, stream_parser := p,
                                   finished_flag := finished_flag s \<or> over\<rparr>)))))"

end
