(* ===== verification/SSE_Stream.thy ===== *)
theory SSE_Stream
  imports SSE
begin

section \<open>Event streams do not depend on how the body is cut\<close>

text \<open>
  A response body arrives in pieces that may cut lines, line ends and characters.  The reference
  reads the whole body at once: it decodes it, splits it into lines and processes them in order.
  This theory shows that polling the stream yields exactly what the reference yields.
\<close>

subsection \<open>The reference\<close>

fun cut_lines :: "unicode \<Rightarrow> unicode \<Rightarrow> unicode list \<times> unicode" where
  "cut_lines line [] = ([], line)"
| "cut_lines line (c # cs) =
     (if c = newline then (let (ls, rest) = cut_lines [] cs in (strip_cr line # ls, rest))
      else cut_lines (line @ [c]) cs)"

definition batch_outcome :: "('c, 'e) sse_batch \<Rightarrow> 'c list \<times> 'e option" where
  "batch_outcome b = (batch_chunks b, batch_error b)"

definition end_outcome ::
  "('t, 'c, 'e) sse_transformer \<Rightarrow> bool \<Rightarrow> 't sse_parser \<Rightarrow> 'c list \<times> 'e option" where
  "end_outcome tr failed p = batch_outcome (fst (if failed then take_error tr p else sse_finish tr p))"

definition sse_reference ::
  "('t, 'c, 'e) sse_transformer \<Rightarrow> 't \<Rightarrow> byte list \<Rightarrow> bool \<Rightarrow> 'c list \<times> 'e option" where
  "sse_reference tr t bytes failed =
     (let (ls, rest) = cut_lines [] (from_utf8_lossy bytes);
          (b, p) = process_lines tr True ls [] (sse_parser_new t)
      in case batch_error b of
           Some err \<Rightarrow>
             (batch_chunks b,
              Some (if stream_finished p then err else fst (finalize_transform_error tr err (transformer p))))
         | None \<Rightarrow>
             if stream_finished p then (batch_chunks b, None)
             else (let (cs, err) = end_outcome tr failed (p\<lparr>buffer := rest\<rparr>) in (batch_chunks b @ cs, err)))"

subsection \<open>Lines\<close>

lemma cut_lines_append:
  "cut_lines line (a @ b) =
     (let (l1, r1) = cut_lines line a; (l2, r2) = cut_lines r1 b in (l1 @ l2, r2))"
  by (induction line a rule: cut_lines.induct) (auto simp: Let_def split: prod.splits)

lemma cut_lines_none: "newline \<notin> set t \<Longrightarrow> cut_lines line t = ([], line @ t)"
  by (induction line t rule: cut_lines.induct) auto

lemma cut_lines_rest: "cut_lines line t = (ls, rest) \<Longrightarrow> newline \<notin> set line \<Longrightarrow> newline \<notin> set rest"
  by (induction line t arbitrary: ls rest rule: cut_lines.induct)
    (auto simp: Let_def split: if_split_asm prod.splits)

lemma rposition_None_iff: "rposition P xs = None \<longleftrightarrow> (\<forall>x\<in>set xs. \<not> P x)"
  by (induction xs) (auto split: option.splits)

lemma rposition_split:
  "rposition P xs = Some i \<Longrightarrow> xs = take i xs @ xs ! i # drop (Suc i) xs \<and> P (xs ! i)
     \<and> (\<forall>x\<in>set (drop (Suc i) xs). \<not> P x)"
proof (induction xs arbitrary: i)
  case (Cons x xs)
  show ?case
  proof (cases "rposition P xs")
    case None
    then have "P x" "i = 0"
      using Cons.prems by (simp_all split: if_split_asm)
    then show ?thesis
      using None by (simp add: rposition_None_iff)
  qed (use Cons in auto)
qed simp

lemma line_prefix:
  "newline \<notin> set l \<Longrightarrow> dropWhile (\<lambda>c. c \<noteq> newline) (l @ newline # rest) = newline # rest"
  "newline \<notin> set l \<Longrightarrow> takeWhile (\<lambda>c. c \<noteq> newline) (l @ newline # rest) = l"
  by (induction l) auto

lemma str_lines_line:
  "newline \<notin> set l \<Longrightarrow> str_lines (l @ newline # rest) = strip_cr l # str_lines rest"
  by (subst str_lines.simps) (simp add: line_prefix)

lemma cut_lines_line:
  "newline \<notin> set l \<Longrightarrow> cut_lines [] (l @ newline # rest)
     = (strip_cr l # fst (cut_lines [] rest), snd (cut_lines [] rest))"
  by (simp add: cut_lines_append cut_lines_none split: prod.split)

lemma split_first_newline: "newline \<in> set a \<Longrightarrow> \<exists>l rest. a = l @ newline # rest \<and> newline \<notin> set l"
  by (meson split_list_first)

lemma str_lines_terminated: "str_lines (a @ [newline]) = fst (cut_lines [] (a @ [newline]))"
proof (induction a rule: length_induct)
  case (1 a)
  show ?case
  proof (cases "newline \<in> set a")
    case False
    then show ?thesis
      using str_lines_line [of a "[]"] cut_lines_line [of a "[]"] by (simp add: str_lines.simps)
  next
    case True
    then obtain l rest where a: "a = l @ newline # rest" "newline \<notin> set l"
      using split_first_newline by blast
    then have "str_lines (rest @ [newline]) = fst (cut_lines [] (rest @ [newline]))"
      using "1.IH" by simp
    then show ?thesis
      using a str_lines_line [of l "rest @ [newline]"] cut_lines_line [of l "rest @ [newline]"] by simp
  qed
qed

text \<open>Taking the complete lines off the buffer is cutting it.\<close>

lemma buffer_lines:
  "(case rposition (\<lambda>c. c = newline) buf of
      None \<Rightarrow> ([], buf)
    | Some pos \<Rightarrow> (str_lines (take (Suc pos) buf), drop (Suc pos) buf)) = cut_lines [] buf"
proof (cases "rposition (\<lambda>c. c = newline) buf")
  case None
  then have "newline \<notin> set buf"
    by (auto simp: rposition_None_iff)
  then show ?thesis
    using None by (simp add: cut_lines_none)
next
  case (Some pos)
  note split = rposition_split [OF Some]
  let ?a = "take pos buf" and ?rest = "drop (Suc pos) buf"
  have buf: "buf = (?a @ [newline]) @ ?rest" and take: "take (Suc pos) buf = ?a @ [newline]"
    using split rposition_Some [OF Some] by (auto simp: take_Suc_conv_app_nth)
  have none: "newline \<notin> set ?rest"
    using split by auto
  obtain L where L: "cut_lines [] (?a @ [newline]) = (L, [])"
    by (cases "cut_lines [] ?a") (simp add: cut_lines_append)
  then have "cut_lines [] ((?a @ [newline]) @ ?rest) = (L, ?rest)"
    unfolding cut_lines_append [of "[]" "?a @ [newline]"] L by (simp add: cut_lines_none [OF none])
  then have "cut_lines [] buf = (fst (cut_lines [] (?a @ [newline])), ?rest)"
    using buf L by simp
  then show ?thesis
    using Some take str_lines_terminated [of ?a] by simp
qed

subsection \<open>Processing lines\<close>

definition core :: "'t sse_parser \<Rightarrow> 't sse_parser" where
  "core p = p\<lparr>buffer := [], pending_utf8 := []\<rparr>"

lemma core_simps [simp]:
  "transformer (core p) = transformer p" "current_event (core p) = current_event p"
  "stream_finished (core p) = stream_finished p" "core (p\<lparr>buffer := x\<rparr>) = core p"
  "core (p\<lparr>pending_utf8 := y\<rparr>) = core p" "core (sse_parser_new t) = sse_parser_new t"
  "(core p)\<lparr>transformer := t\<rparr> = core (p\<lparr>transformer := t\<rparr>)"
  "(core p)\<lparr>current_event := e\<rparr> = core (p\<lparr>current_event := e\<rparr>)"
  "(core p)\<lparr>stream_finished := f\<rparr> = core (p\<lparr>stream_finished := f\<rparr>)"
  "(core p)\<lparr>buffer := []\<rparr> = core p" "(core p)\<lparr>pending_utf8 := []\<rparr> = core p"
  "core (core p) = core p"
  by (simp_all add: core_def sse_parser_new_def)

lemma process_event_core:
  "process_event tr m ev (core p) = map_prod id core (process_event tr m ev p)"
  by (simp add: process_event_def Let_def split: prod.split)

lemma process_event_frame:
  "process_event tr m ev p = (r, q) \<Longrightarrow> buffer q = buffer p \<and> pending_utf8 q = pending_utf8 p"
  by (auto simp: process_event_def Let_def split: if_split_asm prod.splits)

lemma process_line_core:
  "process_line tr m l (core p) = map_prod id core (process_line tr m l p)"
  by (simp add: process_line_def process_event_core split: option.split)

lemma process_line_frame:
  "process_line tr m l p = (r, q) \<Longrightarrow> buffer q = buffer p \<and> pending_utf8 q = pending_utf8 p"
  by (auto simp: process_line_def split: if_split_asm option.splits dest: process_event_frame)

lemma process_lines_core:
  "process_lines tr m ls acc (core p) = map_prod id core (process_lines tr m ls acc p)"
proof (induction ls arbitrary: acc p)
  case (Cons l ls)
  show ?case
  proof (cases "process_line tr m l p")
    case (Pair r q)
    then show ?thesis
      using Cons.IH by (cases r) (simp_all add: process_line_core Let_def split: prod.split)
  qed
qed simp

lemma process_lines_frame:
  "process_lines tr m ls acc p = (b, q) \<Longrightarrow> batch_error b = None \<Longrightarrow> \<not> stream_finished q
    \<Longrightarrow> buffer q = buffer p \<and> pending_utf8 q = pending_utf8 p"
proof (induction ls arbitrary: acc p)
  case (Cons l ls)
  obtain r p1 where r: "process_line tr m l p = (r, p1)" by fastforce
  with Cons.prems obtain c where "r = Inr c"
    by (cases r) (auto simp: Let_def split: prod.splits)
  with r Cons.prems have "\<not> stream_finished p1"
    "process_lines tr m ls (acc @ list_of_option c) p1 = (b, q)"
    by (auto simp: Let_def split: if_split_asm)
  then show ?case
    using Cons.IH [of _ p1] Cons.prems(2,3) process_line_frame [OF r] by auto
qed auto

lemma process_lines_acc:
  "process_lines tr m ls (a @ acc) p
     = map_prod (\<lambda>b. b\<lparr>batch_chunks := a @ batch_chunks b\<rparr>) id (process_lines tr m ls acc p)"
proof (induction ls arbitrary: acc p)
  case (Cons l ls)
  show ?case
  proof (cases "process_line tr m l p")
    case (Pair r q)
    then show ?thesis
      using Cons.IH [of "acc @ _"] by (cases r) (simp_all add: Let_def split: prod.split)
  qed
qed simp

lemma process_lines_append:
  assumes "process_lines tr m l1 acc p = (b, q)" "\<not> stream_finished p"
  shows "process_lines tr m (l1 @ l2) acc p =
     (if batch_error b \<noteq> None \<or> stream_finished q then (b, q) else process_lines tr m l2 (batch_chunks b) q)"
  using assms
proof (induction l1 arbitrary: acc p)
  case (Cons l ls)
  obtain r p1 where r: "process_line tr m l p = (r, p1)" by fastforce
  show ?case
  proof (cases r)
    case (Inr c)
    then show ?thesis
      using Cons.IH [of _ p1] Cons.prems r by (auto simp: Let_def)
  qed (use Cons.prems r in \<open>auto simp: Let_def split: prod.splits\<close>)
qed auto

subsection \<open>Pieces of the body\<close>

text \<open>What the polls of a body add up to.\<close>

fun body_outcome ::
  "('t, 'c, 'e) sse_transformer \<Rightarrow> 't sse_parser \<Rightarrow> body_item list \<Rightarrow> 'c list \<times> 'e option" where
  "body_outcome tr p [] = end_outcome tr False p"
| "body_outcome tr p (BodyPending # items) = body_outcome tr p items"
| "body_outcome tr p (BodyError # items) = end_outcome tr True p"
| "body_outcome tr p (BodyBytes bytes # items) =
     (let (b, p1, over) = take_bytes tr bytes p
      in if over then batch_outcome b
         else (let (cs, err) = body_outcome tr p1 items in (batch_chunks b @ cs, err)))"

text \<open>The bytes that arrive, and whether the body then fails.\<close>

fun body_bytes :: "body_item list \<Rightarrow> byte list \<times> bool" where
  "body_bytes [] = ([], False)"
| "body_bytes (BodyPending # items) = body_bytes items"
| "body_bytes (BodyError # items) = ([], True)"
| "body_bytes (BodyBytes bytes # items) =
     (let (bs, failed) = body_bytes items in (bytes @ bs, failed))"

text \<open>
  The parser after the bytes \<open>B\<close>: their text is the text read so far and that of the bytes held
  back; the complete lines of it are processed, the rest is in the buffer.
\<close>

definition parser_at ::
  "('t, 'c, 'e) sse_transformer \<Rightarrow> 't \<Rightarrow> byte list \<Rightarrow> 'c list \<Rightarrow> 't sse_parser \<Rightarrow> bool" where
  "parser_at tr t B acc p \<longleftrightarrow>
     \<not> stream_finished p
     \<and> (pending_utf8 p = [] \<or> decode1 (pending_utf8 p) = Incomplete)
     \<and> (\<exists>T ls. (\<forall>rest. from_utf8_lossy (B @ rest) = T @ from_utf8_lossy (pending_utf8 p @ rest))
          \<and> cut_lines [] T = (ls, buffer p)
          \<and> process_lines tr True ls [] (sse_parser_new t)
              = (\<lparr>batch_chunks = acc, batch_error = None\<rparr>, core p))"

lemma parser_at_start: "parser_at tr t [] [] (sse_parser_new t)"
  unfolding parser_at_def by (auto simp: sse_parser_new_def core_def intro!: exI [of _ "[]"])

lemma process_bytes_lines:
  assumes "\<not> stream_finished p" "feed_utf8 (pending_utf8 p) bytes = (t, pend)"
    and "cut_lines [] (buffer p @ t) = (ls, rest)"
  shows "process_bytes_with_mode tr m bytes p
     = process_lines tr m ls [] (p\<lparr>pending_utf8 := pend, buffer := rest\<rparr>)"
  using assms(1,2) buffer_lines [of "buffer p @ t"] assms(3)
  by (auto simp: process_bytes_with_mode_def Let_def split: option.splits)

lemma core_buffer: "(core p)\<lparr>buffer := x\<rparr> = p\<lparr>buffer := x, pending_utf8 := []\<rparr>"
  by (simp add: core_def)

lemma sse_finish_pending:
  "sse_finish tr (p\<lparr>buffer := buffer p @ from_utf8_lossy (pending_utf8 p), pending_utf8 := []\<rparr>)
     = (if stream_finished p
        then (\<lparr>batch_chunks = [], batch_error = None\<rparr>,
              p\<lparr>buffer := buffer p @ from_utf8_lossy (pending_utf8 p), pending_utf8 := []\<rparr>)
        else sse_finish tr p)"
  by (simp add: sse_finish_def flush_line_def)

lemma end_outcome_pending:
  assumes "\<not> stream_finished p"
  shows "end_outcome tr failed ((core p)\<lparr>buffer := buffer p @ from_utf8_lossy (pending_utf8 p)\<rparr>)
     = end_outcome tr failed p"
  using assms sse_finish_pending [of tr p]
  by (simp add: end_outcome_def core_buffer take_error_def)

lemma reference_end:
  assumes "parser_at tr t B acc p"
  shows "sse_reference tr t B failed = (let (cs, err) = end_outcome tr failed p in (acc @ cs, err))"
proof -
  obtain T ls where T: "\<forall>rest. from_utf8_lossy (B @ rest) = T @ from_utf8_lossy (pending_utf8 p @ rest)"
    "cut_lines [] T = (ls, buffer p)"
    "process_lines tr True ls [] (sse_parser_new t) = (\<lparr>batch_chunks = acc, batch_error = None\<rparr>, core p)"
    and p: "\<not> stream_finished p" "pending_utf8 p = [] \<or> decode1 (pending_utf8 p) = Incomplete"
    using assms by (auto simp: parser_at_def)
  have txt_eq: "from_utf8_lossy B = T @ from_utf8_lossy (pending_utf8 p)"
    using T(1) by (metis append_Nil2)
  have "newline \<notin> set (from_utf8_lossy (pending_utf8 p))"
    using p(2) lossy_step(3) [of "pending_utf8 p"] by (cases "pending_utf8 p = []") (auto simp: newline_def replacement_def)
  then have "cut_lines [] (from_utf8_lossy B) = (ls, buffer p @ from_utf8_lossy (pending_utf8 p))"
    by (simp add: txt_eq cut_lines_append T(2) cut_lines_none)
  then show ?thesis
    using T(3) p(1) end_outcome_pending [OF p(1), of tr failed] by (simp add: sse_reference_def)
qed

lemma reference_piece:
  assumes I: "parser_at tr t B acc p" and r: "take_bytes tr bytes p = (b, p1, over)"
  shows "\<not> over \<Longrightarrow> parser_at tr t (B @ bytes) (acc @ batch_chunks b) p1"
    and "over \<Longrightarrow> sse_reference tr t (B @ bytes @ rest4) failed = (acc @ batch_chunks b, batch_error b)"
proof -
  obtain T ls where T: "\<And>rest. from_utf8_lossy (B @ rest) = T @ from_utf8_lossy (pending_utf8 p @ rest)"
    "cut_lines [] T = (ls, buffer p)"
    "process_lines tr True ls [] (sse_parser_new t) = (\<lparr>batch_chunks = acc, batch_error = None\<rparr>, core p)"
    and p: "\<not> stream_finished p"
    using I by (auto simp: parser_at_def)
  obtain t1 pend where feed: "feed_utf8 (pending_utf8 p) bytes = (t1, pend)" by fastforce
  obtain ls2 rest2 where cut: "cut_lines [] (buffer p @ t1) = (ls2, rest2)" by fastforce
  have txt_eq: "from_utf8_lossy (B @ bytes @ rest) = (T @ t1) @ from_utf8_lossy (pend @ rest)" for rest
    using T(1) [of "bytes @ rest"] feed_utf8_lossy [OF feed, of rest] by simp
  have "newline \<notin> set (buffer p)"
    using cut_lines_rest [OF T(2)] by simp
  then have "cut_lines (buffer p) t1 = (ls2, rest2)"
    using cut by (simp add: cut_lines_append cut_lines_none split: prod.splits)
  then have lines: "cut_lines [] (T @ t1) = (ls @ ls2, rest2)"
    by (simp add: cut_lines_append T(2))
  obtain b2 q where q: "process_lines tr True ls2 [] (p\<lparr>pending_utf8 := pend, buffer := rest2\<rparr>) = (b2, q)"
    by fastforce
  have acc: "process_lines tr True ls2 acc (core p)
      = (b2\<lparr>batch_chunks := acc @ batch_chunks b2\<rparr>, core q)"
    using process_lines_core [of tr True ls2 "[]" "p\<lparr>pending_utf8 := pend, buffer := rest2\<rparr>"] q
      process_lines_acc [of tr True ls2 acc "[]" "core p"] by simp
  have all: "process_lines tr True (ls @ ls2) [] (sse_parser_new t)
      = (b2\<lparr>batch_chunks := acc @ batch_chunks b2\<rparr>, core q)"
    using process_lines_append [OF T(3), of ls2] acc p by (simp add: sse_parser_new_def)
  have b2: "process_bytes_with_mode tr True bytes p = (b2, q)"
    using process_bytes_lines [OF p feed cut, of tr True] q by (rule trans)
  show "parser_at tr t (B @ bytes) (acc @ batch_chunks b) p1" if "\<not> over"
  proof -
    have "batch_error b2 = None" "\<not> stream_finished q" "b = b2" "p1 = q"
      using r that b2 by (auto simp: take_bytes_def Let_def split: option.splits if_split_asm prod.splits)
    moreover have "buffer q = rest2" "pending_utf8 q = pend"
      using process_lines_frame [OF q] calculation by simp_all
    ultimately show ?thesis
      using txt_eq lines all feed_utf8_splits(2) [OF feed] unfolding parser_at_def
      by (intro conjI exI [of _ "T @ t1"] exI [of _ "ls @ ls2"]) auto
  qed
  show "sse_reference tr t (B @ bytes @ rest4) failed = (acc @ batch_chunks b, batch_error b)" if over
  proof -
    have over: "batch_error b2 \<noteq> None \<or> stream_finished q"
      using r that b2 by (auto simp: take_bytes_def Let_def split: option.splits if_split_asm prod.splits)
    obtain ls3 rest3 where "cut_lines [] (from_utf8_lossy (B @ bytes @ rest4)) = ((ls @ ls2) @ ls3, rest3)"
      unfolding txt_eq cut_lines_append [of "[]" "T @ t1"] lines
      by (cases "cut_lines rest2 (from_utf8_lossy (pend @ rest4))") simp
    moreover have "process_lines tr True ((ls @ ls2) @ ls3) [] (sse_parser_new t)
        = (b2\<lparr>batch_chunks := acc @ batch_chunks b2\<rparr>, core q)"
      using process_lines_append [OF all, of ls3] over by (simp add: sse_parser_new_def)
    ultimately show ?thesis
      using r b2 over
      by (auto simp: sse_reference_def take_bytes_def Let_def split: option.splits if_split_asm prod.splits)
  qed
qed

lemma body_reference:
  assumes "parser_at tr t B acc p" "body_bytes items = (bs, failed)"
  shows "sse_reference tr t (B @ bs) failed
     = (let (cs, err) = body_outcome tr p items in (acc @ cs, err))"
  using assms
proof (induction items arbitrary: B acc p bs)
  case Nil
  then show ?case
    using reference_end [OF Nil.prems(1)] by simp
next
  case (Cons item items)
  show ?case
  proof (cases item)
    case (BodyBytes bytes)
    obtain bs' where bs': "body_bytes items = (bs', failed)" "bs = bytes @ bs'"
      using Cons.prems(2) BodyBytes by (auto split: prod.splits)
    obtain b p1 over where r: "take_bytes tr bytes p = (b, p1, over)"
      by (metis prod_cases3)
    note piece = reference_piece [OF Cons.prems(1) r]
    show ?thesis
    proof (cases over)
      case True
      then show ?thesis
        using piece(2) [OF True, of bs' failed] BodyBytes bs' r by (simp add: batch_outcome_def)
    next
      case False
      show ?thesis
        using Cons.IH [OF piece(1) [OF False] bs'(1)] BodyBytes bs' r False by (simp split: prod.splits)
    qed
  next
    case BodyError
    then show ?thesis
      using reference_end [OF Cons.prems(1)] Cons.prems(2) by simp
  next
    case BodyPending
    then show ?thesis
      using Cons by simp
  qed
qed

subsection \<open>Polling\<close>

definition yields :: "'c list \<times> 'e option \<Rightarrow> ('e + 'c) list" where
  "yields out = map Inr (fst out) @ map Inl (list_of_option (snd out))"

text \<open>What \<open>n\<close> polls yield, if the stream ends within them.\<close>

fun poll_all ::
  "('t, 'c, 'e) sse_transformer \<Rightarrow> nat \<Rightarrow> ('t, 'c, 'e) sse_stream \<Rightarrow> ('e + 'c) list option" where
  "poll_all tr 0 s = None"
| "poll_all tr (Suc n) s =
     (case poll_next tr s of
        (Exhausted, _) \<Rightarrow> Some []
      | (Yield x, s') \<Rightarrow> map_option ((#) x) (poll_all tr n s')
      | (Pending, s') \<Rightarrow> poll_all tr n s')"

definition body_left :: "('t, 'c, 'e) sse_stream \<Rightarrow> body_item list option" where
  "body_left s = (if finished_flag s then None else inner_body s)"

definition body_rest ::
  "('t, 'c, 'e) sse_transformer \<Rightarrow> ('t, 'c, 'e) sse_stream \<Rightarrow> 'c list \<times> 'e option" where
  "body_rest tr s =
     (case body_left s of None \<Rightarrow> ([], None) | Some items \<Rightarrow> body_outcome tr (stream_parser s) items)"

definition stream_rest ::
  "('t, 'c, 'e) sse_transformer \<Rightarrow> ('t, 'c, 'e) sse_stream \<Rightarrow> ('e + 'c) list" where
  "stream_rest tr s = yields (chunk_buffer s, pending_error s) @ yields (body_rest tr s)"

definition polls_left :: "('t, 'c, 'e) sse_transformer \<Rightarrow> ('t, 'c, 'e) sse_stream \<Rightarrow> nat" where
  "polls_left tr s =
     length (stream_rest tr s) + (case body_left s of None \<Rightarrow> 0 | Some items \<Rightarrow> Suc (length items))"

definition chunks_fit :: "('t, 'c, 'e) sse_transformer \<Rightarrow> ('t, 'c, 'e) sse_stream \<Rightarrow> bool" where
  "chunks_fit tr s \<longleftrightarrow> length (fst (body_rest tr s)) \<le> max_chunk_buffer_size"

lemma yields_simps [simp]:
  "yields (c # cs, err) = Inr c # yields (cs, err)" "yields ([], Some e) = [Inl e]" "yields ([], None) = []"
  "yields (cs @ ds, err) = map Inr cs @ yields (ds, err)"
  by (simp_all add: yields_def list_of_option_def)

definition poll_ok ::
  "('t, 'c, 'e) sse_transformer \<Rightarrow> ('t, 'c, 'e) sse_stream \<Rightarrow> ('c, 'e) poll \<times> ('t, 'c, 'e) sse_stream \<Rightarrow> bool" where
  "poll_ok tr s rs \<longleftrightarrow>
     (case rs of
        (Exhausted, s') \<Rightarrow> stream_rest tr s = []
      | (Yield x, s') \<Rightarrow> stream_rest tr s = x # stream_rest tr s' \<and> chunks_fit tr s'
           \<and> polls_left tr s' < polls_left tr s
      | (Pending, s') \<Rightarrow> stream_rest tr s = stream_rest tr s' \<and> chunks_fit tr s'
           \<and> polls_left tr s' < polls_left tr s)"

text \<open>Delivering a batch, which the rest of the body follows unless the stream is over.\<close>

lemma deliver_ok:
  assumes out: "stream_rest tr s = yields (batch_outcome b) @ stream_rest tr s1"
    and s1: "chunk_buffer s1 = []" "pending_error s1 = None" "chunks_fit tr s1"
    and small: "length (batch_chunks b) \<le> max_chunk_buffer_size"
    and over: "batch_error b \<noteq> None \<Longrightarrow> finished_flag s1"
    and left: "body_left s = Some items" "body_left s1 = None \<or> (\<exists>rest. body_left s1 = Some rest \<and> length rest < length items)"
  shows "poll_ok tr s (deliver tr b s1)"
proof -
  define s2 where "s2 = (if finished_flag s1 then s1\<lparr>inner_body := None\<rparr> else s1)"
  have s2: "chunk_buffer s2 = []" "pending_error s2 = None" "finished_flag s2 = finished_flag s1"
    "stream_parser s2 = stream_parser s1" "body_left s2 = body_left s1"
    using s1 by (simp_all add: s2_def body_left_def)
  have rest: "body_rest tr (s2\<lparr>chunk_buffer := cs, pending_error := err\<rparr>) = body_rest tr s1"
    "body_left (s2\<lparr>chunk_buffer := cs, pending_error := err\<rparr>) = body_left s1" for cs err
    by (simp_all add: s2_def body_rest_def body_left_def split: option.split)
  have out': "stream_rest tr s = yields (batch_outcome b) @ yields (body_rest tr s1)"
    using out s1 by (simp add: stream_rest_def)
  have fit: "chunks_fit tr (s2\<lparr>chunk_buffer := cs, pending_error := err\<rparr>)" for cs err
    using s1(3) by (simp add: chunks_fit_def rest)
  have d: "deliver tr b s1 =
     (case (batch_chunks b, batch_error b) of
        (c # cs, err) \<Rightarrow> (Yield (Inr c), s2\<lparr>chunk_buffer := cs, pending_error := err\<rparr>)
      | ([], Some err) \<Rightarrow> (Yield (Inl err), s2\<lparr>chunk_buffer := [], pending_error := None\<rparr>)
      | ([], None) \<Rightarrow> (if finished_flag s2 then Exhausted else Pending,
                     s2\<lparr>chunk_buffer := [], pending_error := None\<rparr>))"
    using small s2(1) by (simp add: deliver_def s2_def [symmetric] Let_def)
  have fewer: "(case body_left s1 of None \<Rightarrow> 0 | Some rest \<Rightarrow> Suc (length rest)) < Suc (length items)"
    using left(2) by auto
  have ended: "body_rest tr s1 = ([], None)" if "finished_flag s1"
    using that by (simp add: body_rest_def body_left_def)
  show ?thesis
  proof (cases "batch_chunks b")
    case Nil
    then show ?thesis
      using out' left(1) fit fewer ended
      by (cases "batch_error b")
        (auto simp: d poll_ok_def batch_outcome_def stream_rest_def polls_left_def rest s2)
  next
    case (Cons c cs)
    then show ?thesis
      using out' left(1) fit fewer
      by (simp add: d poll_ok_def batch_outcome_def stream_rest_def polls_left_def rest s2)
  qed
qed

lemma poll_buffered:
  assumes "chunk_buffer s \<noteq> [] \<or> pending_error s \<noteq> None" "chunks_fit tr s"
  shows "poll_ok tr s (poll_next tr s)"
proof -
  have frame: "body_left (s\<lparr>chunk_buffer := cs\<rparr>) = body_left s" "body_left (s\<lparr>pending_error := err\<rparr>) = body_left s"
    "body_rest tr (s\<lparr>chunk_buffer := cs\<rparr>) = body_rest tr s" "body_rest tr (s\<lparr>pending_error := err\<rparr>) = body_rest tr s"
    for cs err
    by (simp_all add: body_left_def body_rest_def split: option.split)
  show ?thesis
    using assms
    by (cases "chunk_buffer s")
      (auto simp: poll_next_def poll_ok_def stream_rest_def polls_left_def chunks_fit_def frame)
qed

lemma take_bytes_over: "take_bytes tr bytes p = (b, p1, over) \<Longrightarrow> batch_error b \<noteq> None \<Longrightarrow> over"
  by (auto simp: take_bytes_def Let_def split: option.splits if_split_asm prod.splits)

lemma poll_body:
  assumes buf: "chunk_buffer s = []" "pending_error s = None" and fit: "chunks_fit tr s"
    and left: "body_left s = Some items"
  shows "poll_ok tr s (poll_next tr s)"
proof -
  have live: "\<not> finished_flag s" "inner_body s = Some items"
    using left by (simp_all add: body_left_def split: if_split_asm)
  have rest: "stream_rest tr s = yields (body_outcome tr (stream_parser s) items)"
    and small: "length (fst (body_outcome tr (stream_parser s) items)) \<le> max_chunk_buffer_size"
    using buf fit left by (simp_all add: stream_rest_def body_rest_def chunks_fit_def)
  have last: "poll_ok tr s (deliver tr b (s\<lparr>inner_body := i, stream_parser := p, finished_flag := True\<rparr>))"
    if "body_outcome tr (stream_parser s) items = batch_outcome b" for b p i
    using that rest small buf left
    by (intro deliver_ok [where items = items])
      (simp_all add: stream_rest_def body_rest_def body_left_def chunks_fit_def batch_outcome_def)
  show ?thesis
  proof (cases items)
    case Nil
    have same: "s\<lparr>inner_body := Some [], stream_parser := p, finished_flag := True\<rparr>
        = s\<lparr>stream_parser := p, finished_flag := True\<rparr>" for p
      using live Nil by (cases s) simp
    obtain b p where f: "sse_finish tr (stream_parser s) = (b, p)" by fastforce
    have "poll_ok tr s (deliver tr b (s\<lparr>inner_body := Some [], stream_parser := p, finished_flag := True\<rparr>))"
      by (rule last) (simp add: Nil end_outcome_def f)
    then show ?thesis
      unfolding same using live buf Nil f by (simp add: poll_next_def)
  next
    case (Cons item rest_items)
    show ?thesis
    proof (cases item)
      case BodyError
      then show ?thesis
        using last live buf Cons
        by (cases "take_error tr (stream_parser s)") (simp add: poll_next_def end_outcome_def)
    next
      case BodyPending
      then show ?thesis
        using live buf Cons fit
        by (simp add: poll_next_def poll_ok_def stream_rest_def body_rest_def body_left_def
            polls_left_def chunks_fit_def)
    next
      case (BodyBytes bytes)
      obtain b p over where r: "take_bytes tr bytes (stream_parser s) = (b, p, over)"
        by (metis prod_cases3)
      show ?thesis
      proof (cases over)
        case True
        then show ?thesis
          using last live buf Cons BodyBytes r by (simp add: poll_next_def)
      next
        case False
        obtain cs err where o: "body_outcome tr p rest_items = (cs, err)" by fastforce
        let ?s1 = "s\<lparr>inner_body := Some rest_items, stream_parser := p, finished_flag := False\<rparr>"
        have "batch_error b = None"
          using take_bytes_over [OF r] False by blast
        moreover have "body_outcome tr (stream_parser s) items = (batch_chunks b @ cs, err)"
          using Cons BodyBytes r False o by simp
        ultimately have "poll_ok tr s (deliver tr b ?s1)"
          using rest small buf left o Cons
          by (intro deliver_ok [where items = items])
            (simp_all add: stream_rest_def body_rest_def body_left_def chunks_fit_def batch_outcome_def
              yields_def list_of_option_def)
        then show ?thesis
          using live buf Cons BodyBytes r False by (simp add: poll_next_def)
      qed
    qed
  qed
qed

lemma poll_next_ok: "chunks_fit tr s \<Longrightarrow> poll_ok tr s (poll_next tr s)"
proof (cases "chunk_buffer s \<noteq> [] \<or> pending_error s \<noteq> None")
  case False
  then have buf: "chunk_buffer s = []" "pending_error s = None" by simp_all
  assume fit: "chunks_fit tr s"
  show ?thesis
  proof (cases "body_left s")
    case None
    then show ?thesis
      using buf by (auto simp: poll_next_def poll_ok_def stream_rest_def body_rest_def body_left_def
          split: if_split_asm)
  qed (use poll_body buf fit in blast)
qed (rule poll_buffered)

lemma poll_all_rest:
  "chunks_fit tr s \<Longrightarrow> polls_left tr s < n \<Longrightarrow> poll_all tr n s = Some (stream_rest tr s)"
proof (induction n arbitrary: s)
  case (Suc n)
  obtain r s' where r: "poll_next tr s = (r, s')" by fastforce
  with poll_next_ok [OF Suc.prems(1)] Suc show ?case
    by (cases r) (auto simp: poll_ok_def)
qed simp

text \<open>
  C8.  A response body is read the same however the network cuts it.  For any list of polls of
  the body (pieces of bytes, polls that are not ready, an end or a failure), polling the stream
  ends, after at most as many polls as the body takes and chunks are yielded and three more, and
  yields exactly the chunks, followed by the error if there is one, of the reference, which
  decodes and splits the bytes as a whole: no character, line or event is lost, doubled or cut
  at a boundary.  (The limit of 10000 chunks from a single read is not exceeded when the whole
  body has no more.)
\<close>

theorem sse_stream_reads_whole_body:
  fixes tr :: "('t, 'c, 'e) sse_transformer"
  assumes "body_bytes body = (bytes, failed)"
    and "sse_reference tr t bytes failed = (chunks, err)"
    and "length chunks \<le> 10000" "length body + length chunks + 3 \<le> n"
  shows "poll_all tr n (sse_stream_new body t) = Some (map Inr chunks @ (case err of Some e \<Rightarrow> [Inl e] | None \<Rightarrow> []))"
proof -
  let ?s = "sse_stream_new body t :: ('t, 'c, 'e) sse_stream"
  have "body_outcome tr (sse_parser_new t) body = (chunks, err)"
    using body_reference [OF parser_at_start assms(1), of tr t] assms(2) by (simp split: prod.splits)
  then have rest: "body_left ?s = Some body" "body_rest tr ?s = (chunks, err)"
    "stream_rest tr ?s = yields (chunks, err)"
    by (simp_all add: sse_stream_new_def body_left_def body_rest_def stream_rest_def)
  then have "poll_all tr n ?s = Some (yields (chunks, err))"
    using assms(3,4) poll_all_rest [of tr ?s n]
    by (cases err) (simp_all add: chunks_fit_def polls_left_def max_chunk_buffer_size_def yields_def list_of_option_def)
  then show ?thesis
    by (cases err) (simp_all add: yields_def list_of_option_def)
qed

text \<open>
  A transformer that passes the data on, and a body that cuts the two bytes of a character apart
  and has bytes after the end marker.
\<close>

definition echo_transformer :: "(unit, unicode, string) sse_transformer" where
  "echo_transformer =
     \<lparr>is_end_marker = (\<lambda>_. done_marker), transform_chunk = (\<lambda>t d. (Inr (Some d), t)),
      transform_stream_chunk = (\<lambda>t d. (Inr (Some d), t)), take_stream_error_chunk = (\<lambda>t. (None, t)),
      finish_stream_of = (\<lambda>t. (Inr None, t)), combine_stream_errors = (\<lambda>a b. a @ b),
      network_error = ''network'', overflow_error = ''overflow''\<rparr>"

definition event_text :: unicode where
  "event_text = ascii ''data: '' @ [0xE9, 13, 10] @ ascii ''data:b'' @ [10, 10] @ ascii ''data: [DONE]'' @ [10, 10]
     @ ascii ''data:c'' @ [10, 10]"

definition cut_body :: "body_item list" where
  "cut_body =
     (let bytes = encode_utf8 event_text
      in [BodyBytes (take 7 bytes), BodyPending, BodyBytes (take 22 (drop 7 bytes)), BodyBytes (drop 29 bytes)])"

lemma cut_body_bytes: "body_bytes cut_body = (encode_utf8 event_text, False)"
proof -
  have "take 7 bs @ take 22 (drop 7 bs) @ drop 29 bs = bs" for bs :: "byte list"
    using append_take_drop_id [of 7 bs] append_take_drop_id [of 22 "drop 7 bs"] by simp
  then show ?thesis
    by (simp add: cut_body_def Let_def)
qed

lemma event_text_codes:
  "ascii ''data'' = [100, 97, 116, 97]" "ascii ''[DONE]'' = [91, 68, 79, 78, 69, 93]"
  "event_text = [100, 97, 116, 97, 58, 32, 233, 13, 10, 100, 97, 116, 97, 58, 98, 10, 10,
     100, 97, 116, 97, 58, 32, 91, 68, 79, 78, 69, 93, 10, 10, 100, 97, 116, 97, 58, 99, 10, 10]"
  by code_simp+

lemma event_text_lines:
  "cut_lines [] event_text = ([[100, 97, 116, 97, 58, 32, 233], [100, 97, 116, 97, 58, 98], [],
     [100, 97, 116, 97, 58, 32, 91, 68, 79, 78, 69, 93], [], [100, 97, 116, 97, 58, 99], []], [])"
  by (simp add: event_text_codes newline_def strip_cr_def)

lemma event_text_outcome:
  "process_lines echo_transformer True (fst (cut_lines [] event_text)) [] (sse_parser_new ())
     = (\<lparr>batch_chunks = [[233, 10, 98]], batch_error = None\<rparr>, (sse_parser_new ())\<lparr>stream_finished := True\<rparr>)"
  unfolding event_text_lines fst_conv
  by (simp add: process_line_def sse_from_line_def event_text_codes(1,2) trim_start_def Let_def
      is_whitespace_def merge_event_def process_event_def echo_transformer_def sse_parser_new_def
      done_marker_def trim_both_def newline_def list_of_option_def)

lemma event_text_reference:
  "sse_reference echo_transformer () (encode_utf8 event_text) False = ([[233, 10, 98]], None)"
proof -
  have "\<forall>c\<in>set event_text. valid_scalar c"
    by (simp add: event_text_codes valid_scalar_def)
  then have "from_utf8_lossy (encode_utf8 event_text) = event_text"
    using lossy_encode [of event_text "[]"] by simp
  then show ?thesis
    using event_text_outcome by (simp add: sse_reference_def event_text_lines)
qed

theorem sse_stream_reads_whole_body_witness:
  "poll_all echo_transformer 8 (sse_stream_new cut_body ()) = Some [Inr [233, 10, 98]]"
  using sse_stream_reads_whole_body [OF cut_body_bytes event_text_reference, of 8]
  by (simp add: cut_body_def Let_def)

end
