(* ===== verification/Anthropic_State.thy ===== *)
theory Anthropic_State
  imports SSE
begin

section \<open>The life cycle of a streamed message\<close>

text \<open>
  Models \<^verbatim>\<open>src/core/providers/base/sse/anthropic_state.rs\<close> and the block types of
  \<^verbatim>\<open>src/core/types/anthropic_continuation.rs\<close>: which content blocks of a streamed message are open,
  what has been received of its thinking blocks, and which events the protocol allows next.  A
  \<open>BTreeMap\<close> is a list of pairs in the order of its keys.  A life-cycle error holds the index and the
  values its message is made of.
\<close>

subsection \<open>Ordered maps\<close>

definition bt_insert :: "'k::linorder \<Rightarrow> 'v \<Rightarrow> ('k \<times> 'v) list \<Rightarrow> ('k \<times> 'v) list" where
  "bt_insert k v m = filter (\<lambda>p. fst p < k) m @ (k, v) # filter (\<lambda>p. k < fst p) m"

definition bt_remove :: "'k \<Rightarrow> ('k \<times> 'v) list \<Rightarrow> ('k \<times> 'v) list" where
  "bt_remove k m = filter (\<lambda>p. fst p \<noteq> k) m"

definition first_key_value :: "('k \<times> 'v) list \<Rightarrow> ('k \<times> 'v) option" where
  "first_key_value m = (case m of [] \<Rightarrow> None | p # _ \<Rightarrow> Some p)"

definition bt_wf :: "('k::linorder \<times> 'v) list \<Rightarrow> bool" where
  "bt_wf m \<longleftrightarrow> sorted_wrt (<) (map fst m)"

lemma map_of_filter_key: "map_of (filter (\<lambda>p. P (fst p)) m) k = (if P k then map_of m k else None)"
  by (induction m) auto

lemma map_of_bt_insert [simp]: "map_of (bt_insert k v m) = (map_of m)(k \<mapsto> v)"
  using map_of_filter_key [of "\<lambda>x. x < k" m] map_of_filter_key [of "\<lambda>x. k < x" m]
  by (auto simp: bt_insert_def map_add_def fun_eq_iff split: option.splits)

lemma map_of_bt_remove [simp]: "map_of (bt_remove k m) = (map_of m)(k := None)"
  using map_of_filter_key [of "\<lambda>x. x \<noteq> k" m] by (simp add: bt_remove_def fun_eq_iff)

lemma sorted_wrt_filter_key: "bt_wf m \<Longrightarrow> bt_wf (filter P m)"
  by (induction m) (auto simp: bt_wf_def)

lemma bt_wf_insert [simp]: "bt_wf m \<Longrightarrow> bt_wf (bt_insert k v m)"
  using sorted_wrt_filter_key [of m "\<lambda>p. fst p < k"] sorted_wrt_filter_key [of m "\<lambda>p. k < fst p"]
  by (auto simp: bt_insert_def bt_wf_def sorted_wrt_append)

lemma bt_wf_remove [simp]: "bt_wf m \<Longrightarrow> bt_wf (bt_remove k m)"
  by (simp add: bt_remove_def sorted_wrt_filter_key)

lemma bt_wf_Nil [simp]: "bt_wf []"
  by (simp add: bt_wf_def)

lemma first_key_value_None [simp]: "first_key_value m = None \<longleftrightarrow> m = []"
  by (cases m) (simp_all add: first_key_value_def)

lemma first_key_value_Nil [simp]: "first_key_value [] = None"
  by simp

lemma first_key_value_least:
  assumes "bt_wf m" and "first_key_value m = Some (k, v)"
  shows "map_of m k = Some v \<and> (\<forall>k' \<in> dom (map_of m). k \<le> k')"
  using assms by (cases m) (auto simp: first_key_value_def bt_wf_def dom_map_of_conv_image_fst)

subsection \<open>Blocks and phases\<close>

datatype active_thinking_block = ActiveThinking unicode unicode | ActiveRedacted unicode

datatype active_content_block = TextBlock | ToolUseBlock | IgnoredBlock

datatype delta_disposition = Emit | Ignore

datatype message_phase = PhaseOpen | PendingStop | Stopped

datatype anthropic_thinking_block = Thinking unicode unicode | RedactedThinking unicode

definition content_kind :: "active_content_block \<Rightarrow> string" where
  "content_kind b =
     (case b of TextBlock \<Rightarrow> ''text'' | ToolUseBlock \<Rightarrow> ''tool_use'' | IgnoredBlock \<Rightarrow> ''future'')"

definition accepts :: "active_content_block \<Rightarrow> unicode \<Rightarrow> bool" where
  "accepts b delta_type =
     (case b of
        TextBlock \<Rightarrow> delta_type = ascii ''text_delta'' \<or> delta_type = ascii ''citations_delta''
      | ToolUseBlock \<Rightarrow> delta_type = ascii ''input_json_delta''
      | IgnoredBlock \<Rightarrow> True)"

definition thinking_kind :: "active_thinking_block \<Rightarrow> string" where
  "thinking_kind b = (case b of ActiveThinking _ _ \<Rightarrow> ''thinking'' | ActiveRedacted _ \<Rightarrow> ''redacted_thinking'')"

datatype lifecycle_fault =
    StartAfterTerminalDelta
  | StopAfterStop
  | EmptyRedactedData
  | ThinkingAfterSignature
  | ThinkingDeltaFor string
  | ThinkingDeltaInactive
  | EmptySignatureDelta
  | SignatureDeltaFor string
  | SignatureDeltaInactive
  | BlockStopFor string
  | MissingSignature
  | DuplicateActive string
  | AlreadyCompleted
  | InvalidDelta unicode string
  | DeltaAfterCompletion unicode
  | DeltaInactive unicode
  | AfterTerminalDelta string
  | AfterMessageStop string
  | IncompleteAt string string string
  | EndWithoutMessageStop

datatype anthropic_error =
    LifecycleError u32 lifecycle_fault
  | ResponseParsing string
  | StreamingError unicode

record thinking_state =
  active :: "(u32 \<times> active_thinking_block) list"
  active_content :: "(u32 \<times> active_content_block) list"
  completed :: "(u32 \<times> anthropic_thinking_block) list"
  completed_indexes :: "u32 list"
  message_phase :: message_phase

definition thinking_state_default :: thinking_state where
  "thinking_state_default =
     \<lparr>active = [], active_content = [], completed = [], completed_indexes = [], message_phase = PhaseOpen\<rparr>"

subsection \<open>Checks\<close>

definition ensure_message_open :: "u32 \<Rightarrow> string \<Rightarrow> thinking_state \<Rightarrow> anthropic_error + unit" where
  "ensure_message_open index event s =
     (case message_phase s of
        PhaseOpen \<Rightarrow> Inr ()
      | PendingStop \<Rightarrow> Inl (LifecycleError index (AfterTerminalDelta event))
      | Stopped \<Rightarrow> Inl (LifecycleError index (AfterMessageStop event)))"

definition ensure_complete :: "string \<Rightarrow> thinking_state \<Rightarrow> anthropic_error + unit" where
  "ensure_complete boundary s =
     (case first_key_value (active_content s) of
        Some (index, block) \<Rightarrow>
          Inl (LifecycleError index (IncompleteAt (content_kind block) boundary ''missing content_block_stop''))
      | None \<Rightarrow>
          (case first_key_value (active s) of
             None \<Rightarrow> Inr ()
           | Some (index, block) \<Rightarrow>
               (let detail = (case block of
                    ActiveThinking _ signature \<Rightarrow>
                      (if signature = [] then ''missing its signature'' else ''missing content_block_stop'')
                  | ActiveRedacted _ \<Rightarrow> ''missing content_block_stop'')
                in Inl (LifecycleError index (IncompleteAt (thinking_kind block) boundary detail)))))"

definition ensure_stream_complete :: "thinking_state \<Rightarrow> anthropic_error + unit" where
  "ensure_stream_complete s =
     (case ensure_complete ''stream termination'' s of
        Inl e \<Rightarrow> Inl e
      | Inr _ \<Rightarrow>
          (if message_phase s = PendingStop then Inl (LifecycleError 0 EndWithoutMessageStop) else Inr ()))"

definition ensure_index_available :: "u32 \<Rightarrow> thinking_state \<Rightarrow> anthropic_error + unit" where
  "ensure_index_available index s =
     (case map_of (active s) index of
        Some existing \<Rightarrow> Inl (LifecycleError index (DuplicateActive (thinking_kind existing)))
      | None \<Rightarrow>
          (case map_of (active_content s) index of
             Some existing \<Rightarrow> Inl (LifecycleError index (DuplicateActive (content_kind existing)))
           | None \<Rightarrow>
               (if index \<in> set (completed_indexes s) then Inl (LifecycleError index AlreadyCompleted)
                else Inr ())))"

definition validate_delta_kind ::
  "u32 \<Rightarrow> unicode \<Rightarrow> thinking_state \<Rightarrow> anthropic_error + delta_disposition" where
  "validate_delta_kind index delta_type s =
     (case ensure_message_open index ''content_block_delta'' s of
        Inl e \<Rightarrow> Inl e
      | Inr _ \<Rightarrow>
          (case map_of (active s) index of
             Some block \<Rightarrow>
               (if (case block of ActiveThinking _ _ \<Rightarrow> True | _ \<Rightarrow> False) \<and>
                   (delta_type = ascii ''thinking_delta'' \<or> delta_type = ascii ''signature_delta'')
                then Inr Emit
                else Inl (LifecycleError index (InvalidDelta delta_type (thinking_kind block))))
           | None \<Rightarrow>
               (case map_of (active_content s) index of
                  Some block \<Rightarrow>
                    (if accepts block delta_type
                     then Inr (if block = IgnoredBlock then Ignore else Emit)
                     else Inl (LifecycleError index (InvalidDelta delta_type (content_kind block))))
                | None \<Rightarrow>
                    (if index \<in> set (completed_indexes s)
                     then Inl (LifecycleError index (DeltaAfterCompletion delta_type))
                     else Inl (LifecycleError index (DeltaInactive delta_type))))))"

subsection \<open>Transitions\<close>

text \<open>Each returns the result and the state; an error leaves the state as it was.\<close>

definition begin_message :: "thinking_state \<Rightarrow> (anthropic_error + unit) \<times> thinking_state" where
  "begin_message s =
     (if message_phase s = PendingStop then (Inl (LifecycleError 0 StartAfterTerminalDelta), s)
      else case ensure_complete ''message_start'' s of
        Inl e \<Rightarrow> (Inl e, s)
      | Inr _ \<Rightarrow>
          (Inr (), s\<lparr>active_content := [], completed := [], completed_indexes := [], message_phase := PhaseOpen\<rparr>))"

definition end_message :: "thinking_state \<Rightarrow> (anthropic_error + unit) \<times> thinking_state" where
  "end_message s =
     (if message_phase s = Stopped then (Inl (LifecycleError 0 StopAfterStop), s)
      else case ensure_complete ''message_stop'' s of
        Inl e \<Rightarrow> (Inl e, s)
      | Inr _ \<Rightarrow> (Inr (), s\<lparr>message_phase := Stopped\<rparr>))"

definition begin_pending_stop :: "thinking_state \<Rightarrow> (anthropic_error + unit) \<times> thinking_state" where
  "begin_pending_stop s =
     (case ensure_message_open 0 ''message_delta'' s of
        Inl e \<Rightarrow> (Inl e, s)
      | Inr _ \<Rightarrow>
          (case ensure_complete ''message_delta stop_reason'' s of
             Inl e \<Rightarrow> (Inl e, s)
           | Inr _ \<Rightarrow> (Inr (), s\<lparr>message_phase := PendingStop\<rparr>)))"

definition begin_content ::
  "u32 \<Rightarrow> active_content_block \<Rightarrow> thinking_state \<Rightarrow> (anthropic_error + unit) \<times> thinking_state" where
  "begin_content index block s =
     (case ensure_message_open index ''content_block_start'' s of
        Inl e \<Rightarrow> (Inl e, s)
      | Inr _ \<Rightarrow>
          (case ensure_index_available index s of
             Inl e \<Rightarrow> (Inl e, s)
           | Inr _ \<Rightarrow> (Inr (), s\<lparr>active_content := bt_insert index block (active_content s)\<rparr>)))"

definition insert_thinking ::
  "u32 \<Rightarrow> active_thinking_block \<Rightarrow> thinking_state \<Rightarrow> (anthropic_error + unit) \<times> thinking_state" where
  "insert_thinking index block s =
     (case ensure_message_open index ''content_block_start'' s of
        Inl e \<Rightarrow> (Inl e, s)
      | Inr _ \<Rightarrow>
          (case ensure_index_available index s of
             Inl e \<Rightarrow> (Inl e, s)
           | Inr _ \<Rightarrow> (Inr (), s\<lparr>active := bt_insert index block (active s)\<rparr>)))"

definition begin_thinking ::
  "u32 \<Rightarrow> unicode \<Rightarrow> unicode \<Rightarrow> thinking_state \<Rightarrow> (anthropic_error + unit) \<times> thinking_state" where
  "begin_thinking index thinking signature s = insert_thinking index (ActiveThinking thinking signature) s"

definition begin_redacted ::
  "u32 \<Rightarrow> unicode \<Rightarrow> thinking_state \<Rightarrow> (anthropic_error + unit) \<times> thinking_state" where
  "begin_redacted index data s =
     (if data = [] then (Inl (LifecycleError index EmptyRedactedData), s)
      else insert_thinking index (ActiveRedacted data) s)"

definition append_thinking ::
  "u32 \<Rightarrow> unicode \<Rightarrow> thinking_state \<Rightarrow> (anthropic_error + unit) \<times> thinking_state" where
  "append_thinking index fragment s =
     (case map_of (active s) index of
        Some (ActiveThinking thinking signature) \<Rightarrow>
          (if signature = []
           then (Inr (), s\<lparr>active := bt_insert index (ActiveThinking (thinking @ fragment) signature) (active s)\<rparr>)
           else (Inl (LifecycleError index ThinkingAfterSignature), s))
      | Some block \<Rightarrow> (Inl (LifecycleError index (ThinkingDeltaFor (thinking_kind block))), s)
      | None \<Rightarrow> (Inl (LifecycleError index ThinkingDeltaInactive), s))"

definition append_signature ::
  "u32 \<Rightarrow> unicode \<Rightarrow> thinking_state \<Rightarrow> (anthropic_error + unit) \<times> thinking_state" where
  "append_signature index fragment s =
     (if fragment = [] then (Inl (LifecycleError index EmptySignatureDelta), s)
      else case map_of (active s) index of
        Some (ActiveThinking thinking signature) \<Rightarrow>
          (Inr (), s\<lparr>active := bt_insert index (ActiveThinking thinking (signature @ fragment)) (active s)\<rparr>)
      | Some block \<Rightarrow> (Inl (LifecycleError index (SignatureDeltaFor (thinking_kind block))), s)
      | None \<Rightarrow> (Inl (LifecycleError index SignatureDeltaInactive), s))"

definition set_insert :: "'a \<Rightarrow> 'a list \<Rightarrow> 'a list" where
  "set_insert x xs = (if x \<in> set xs then xs else x # xs)"

definition complete :: "u32 \<Rightarrow> thinking_state \<Rightarrow> (anthropic_error + bool) \<times> thinking_state" where
  "complete index s =
     (case ensure_message_open index ''content_block_stop'' s of
        Inl e \<Rightarrow> (Inl e, s)
      | Inr _ \<Rightarrow>
          (case map_of (active s) index of
             None \<Rightarrow>
               (if map_of (active_content s) index \<noteq> None
                then (Inr False,
                      s\<lparr>active_content := bt_remove index (active_content s),
                        completed_indexes := set_insert index (completed_indexes s)\<rparr>)
                else (Inl (LifecycleError index (BlockStopFor
                        (if index \<in> set (completed_indexes s) then ''completed'' else ''inactive''))), s))
           | Some block \<Rightarrow>
               (let finish = (\<lambda>b. (Inr True,
                      s\<lparr>active := bt_remove index (active s), completed := completed s @ [(index, b)],
                        completed_indexes := set_insert index (completed_indexes s)\<rparr>))
                in case block of
                     ActiveThinking thinking signature \<Rightarrow>
                       (if signature = [] then (Inl (LifecycleError index MissingSignature), s)
                        else finish (Thinking thinking signature))
                   | ActiveRedacted data \<Rightarrow> finish (RedactedThinking data))))"

subsection \<open>The invariant\<close>

text \<open>Every index is open at most once, or completed, and the completed thinking blocks are complete: they
  carry a signature or redacted data.  A message that has a stop reason has no open block.\<close>

definition finished_block :: "anthropic_thinking_block \<Rightarrow> bool" where
  "finished_block b \<longleftrightarrow> (case b of Thinking _ signature \<Rightarrow> signature \<noteq> [] | RedactedThinking data \<Rightarrow> data \<noteq> [])"

definition wf_at :: "u32 \<Rightarrow> thinking_state \<Rightarrow> bool" where
  "wf_at i s \<longleftrightarrow>
     (map_of (active s) i \<noteq> None \<longrightarrow> map_of (active_content s) i = None \<and> i \<notin> set (completed_indexes s)) \<and>
     (map_of (active_content s) i \<noteq> None \<longrightarrow> i \<notin> set (completed_indexes s)) \<and>
     (\<forall>b. (i, b) \<in> set (completed s) \<longrightarrow> i \<in> set (completed_indexes s) \<and> finished_block b) \<and>
     map_of (active s) i \<noteq> Some (ActiveRedacted [])"

definition thinking_wf :: "thinking_state \<Rightarrow> bool" where
  "thinking_wf s \<longleftrightarrow>
     (\<forall>i. wf_at i s) \<and> bt_wf (active s) \<and> bt_wf (active_content s) \<and>
     distinct (completed_indexes s) \<and> distinct (map fst (completed s)) \<and>
     (message_phase s \<noteq> PhaseOpen \<longrightarrow> active s = [] \<and> active_content s = [])"

lemmas thinking_checks =
  ensure_message_open_def ensure_complete_def ensure_index_available_def

lemmas thinking_steps =
  begin_message_def end_message_def begin_pending_stop_def begin_content_def insert_thinking_def
  begin_thinking_def begin_redacted_def append_thinking_def append_signature_def complete_def

lemma ensure_complete_iff: "ensure_complete b s = Inr () \<longleftrightarrow> active s = [] \<and> active_content s = []"
  by (auto simp: ensure_complete_def Let_def split: option.splits)

lemma ensure_message_open_iff: "ensure_message_open i e s = Inr () \<longleftrightarrow> message_phase s = PhaseOpen"
  by (simp add: ensure_message_open_def split: message_phase.splits)

lemma ensure_index_available_iff:
  "ensure_index_available i s = Inr () \<longleftrightarrow>
   map_of (active s) i = None \<and> map_of (active_content s) i = None \<and> i \<notin> set (completed_indexes s)"
  by (simp add: ensure_index_available_def split: option.splits)

lemma case_unit_sum: "(case r of Inl e \<Rightarrow> f e | Inr _ \<Rightarrow> x) = (if r = Inr () then x else f (projl r))"
  by (cases r) auto

lemmas thinking_iffs = ensure_complete_iff ensure_message_open_iff ensure_index_available_iff case_unit_sum

text \<open>The transitions as one datatype, and the history of a message.\<close>

datatype thinking_op =
    OpMessage
  | OpStopReason
  | OpMessageStop
  | OpOpen u32 active_content_block
  | OpThink u32 unicode unicode
  | OpRedact u32 unicode
  | OpThinkingDelta u32 unicode
  | OpSignatureDelta u32 unicode
  | OpClose u32

definition run_op :: "thinking_op \<Rightarrow> thinking_state \<Rightarrow> (anthropic_error + unit) \<times> thinking_state" where
  "run_op op s =
     (case op of
        OpMessage \<Rightarrow> begin_message s
      | OpStopReason \<Rightarrow> begin_pending_stop s
      | OpMessageStop \<Rightarrow> end_message s
      | OpOpen i b \<Rightarrow> begin_content i b s
      | OpThink i t g \<Rightarrow> begin_thinking i t g s
      | OpRedact i d \<Rightarrow> begin_redacted i d s
      | OpThinkingDelta i f \<Rightarrow> append_thinking i f s
      | OpSignatureDelta i f \<Rightarrow> append_signature i f s
      | OpClose i \<Rightarrow> (let (r, s') = complete i s in (map_sum id (\<lambda>_. ()) r, s')))"

definition known :: "thinking_state \<Rightarrow> u32 set" where
  "known s = dom (map_of (active s)) \<union> dom (map_of (active_content s)) \<union> set (completed_indexes s)"

text \<open>A transition concerns one index and leaves the others alone.\<close>

definition same_at :: "u32 \<Rightarrow> thinking_state \<Rightarrow> thinking_state \<Rightarrow> bool" where
  "same_at i s s' \<longleftrightarrow>
     map_of (active s') i = map_of (active s) i \<and> map_of (active_content s') i = map_of (active_content s) i \<and>
     (i \<in> set (completed_indexes s') \<longleftrightarrow> i \<in> set (completed_indexes s)) \<and>
     (\<forall>b. (i, b) \<in> set (completed s') \<longleftrightarrow> (i, b) \<in> set (completed s))"

fun op_index :: "thinking_op \<Rightarrow> u32 option" where
  "op_index (OpOpen i _) = Some i"
| "op_index (OpThink i _ _) = Some i"
| "op_index (OpRedact i _) = Some i"
| "op_index (OpThinkingDelta i _) = Some i"
| "op_index (OpSignatureDelta i _) = Some i"
| "op_index (OpClose i) = Some i"
| "op_index _ = None"

fun op_block :: "thinking_op \<Rightarrow> active_thinking_block option" where
  "op_block (OpThink _ t g) = Some (ActiveThinking t g)"
| "op_block (OpRedact _ d) = Some (ActiveRedacted d)"
| "op_block _ = None"

definition opens :: "u32 \<Rightarrow> thinking_op \<Rightarrow> bool" where
  "opens i op = (case op of OpOpen j _ \<Rightarrow> j = i | OpThink j _ _ \<Rightarrow> j = i | OpRedact j _ \<Rightarrow> j = i | _ \<Rightarrow> False)"

lemma open_effect:
  assumes "run_op op s = (Inr (), s')" and "opens i op"
  shows "message_phase s = PhaseOpen" "i \<notin> known s" "\<And>j. j \<noteq> i \<Longrightarrow> same_at j s s'" "i \<in> known s'"
    "i \<notin> set (completed_indexes s')" "map_of (active s') i = op_block op"
    "op_block op \<noteq> None \<longleftrightarrow> map_of (active_content s') i = None" "op_block op \<noteq> Some (ActiveRedacted [])"
    "completed s' = completed s" "completed_indexes s' = completed_indexes s" "message_phase s' = PhaseOpen"
    "bt_wf (active s) \<Longrightarrow> bt_wf (active s')" "bt_wf (active_content s) \<Longrightarrow> bt_wf (active_content s')"
  using assms
  by (cases op; auto simp: run_op_def begin_content_def begin_thinking_def begin_redacted_def insert_thinking_def
      thinking_iffs known_def same_at_def opens_def split: if_splits)+

lemma delta_effect:
  assumes "run_op op s = (Inr (), s')" and "op = OpThinkingDelta i f \<or> op = OpSignatureDelta i f"
  obtains t g where "map_of (active s) i = Some (ActiveThinking t g)"
    and "s' = s\<lparr>active := bt_insert i (if op = OpThinkingDelta i f then ActiveThinking (t @ f) g
                                       else ActiveThinking t (g @ f)) (active s)\<rparr>"
  using assms
  by (auto simp: run_op_def append_thinking_def append_signature_def
      split: option.splits active_thinking_block.splits if_splits)

definition closed_block :: "active_thinking_block \<Rightarrow> anthropic_thinking_block" where
  "closed_block b = (case b of ActiveThinking t g \<Rightarrow> Thinking t g | ActiveRedacted d \<Rightarrow> RedactedThinking d)"

lemma close_effect:
  assumes "run_op (OpClose i) s = (Inr (), s')"
  shows "message_phase s = PhaseOpen"
    "s' = (case map_of (active s) i of
             None \<Rightarrow> s\<lparr>active_content := bt_remove i (active_content s), completed_indexes := set_insert i (completed_indexes s)\<rparr>
           | Some b \<Rightarrow> s\<lparr>active := bt_remove i (active s), completed := completed s @ [(i, closed_block b)],
                         completed_indexes := set_insert i (completed_indexes s)\<rparr>)"
    "map_of (active s) i = None \<Longrightarrow> map_of (active_content s) i \<noteq> None"
    "map_of (active s) i = Some b \<Longrightarrow> b \<noteq> ActiveRedacted [] \<Longrightarrow> finished_block (closed_block b)"
  using assms
  by (auto simp: run_op_def complete_def thinking_iffs closed_block_def finished_block_def Let_def
      split: option.splits active_thinking_block.splits if_splits prod.splits)

lemma phase_effect:
  assumes "run_op op s = (Inr (), s')"
  shows "op = OpStopReason \<Longrightarrow> s' = s\<lparr>message_phase := PendingStop\<rparr> \<and> active s = [] \<and> active_content s = [] \<and> message_phase s = PhaseOpen"
    "op = OpMessageStop \<Longrightarrow> s' = s\<lparr>message_phase := Stopped\<rparr> \<and> active s = [] \<and> active_content s = [] \<and> message_phase s \<noteq> Stopped"
    "op = OpMessage \<Longrightarrow>
       s' = s\<lparr>active := [], active_content := [], completed := [], completed_indexes := [], message_phase := PhaseOpen\<rparr>"
  using assms
  by (auto simp: run_op_def begin_pending_stop_def end_message_def begin_message_def thinking_iffs split: if_splits)

lemma op_kinds:
  obtains (starting) i where "opens i op"
  | (delta) i f where "op = OpThinkingDelta i f \<or> op = OpSignatureDelta i f"
  | (closing) i where "op = OpClose i"
  | (phase) "op \<in> {OpMessage, OpStopReason, OpMessageStop}"
  by (cases op) (auto simp: opens_def)

lemma wf_at_same: "same_at i s s' \<Longrightarrow> wf_at i s' \<longleftrightarrow> wf_at i s"
  by (simp add: wf_at_def same_at_def)

lemma close_wf:
  assumes wf: "thinking_wf s" and run: "run_op (OpClose i) s = (Inr (), s')"
  shows "thinking_wf s'"
proof -
  note e = close_effect [OF run]
  have i: "wf_at i s" using wf by (simp add: thinking_wf_def)
  then have new: "i \<notin> set (completed_indexes s)"
    using e(3) by (auto simp: wf_at_def)
  have fresh: "i \<notin> fst ` set (completed s)" using i new by (auto simp: wf_at_def)
  have "wf_at j s'" for j
  proof (cases "j = i")
    case True
    have "finished_block (closed_block b)" if "map_of (active s) i = Some b" for b
      using e(4) [OF that] i that by (auto simp: wf_at_def)
    then show ?thesis using True e(2) i fresh
      by (cases "map_of (active s) i") (auto simp: wf_at_def set_insert_def intro: rev_image_eqI)
  next
    case False
    then have "same_at j s s'"
      using e(2) by (cases "map_of (active s) i") (auto simp: same_at_def set_insert_def)
    then show ?thesis using wf_at_same wf by (auto simp: thinking_wf_def)
  qed
  then show ?thesis using wf e(1,2) new fresh
    by (cases "map_of (active s) i") (auto simp: thinking_wf_def set_insert_def)
qed

lemma run_op_wf:
  assumes wf: "thinking_wf s" and run: "run_op op s = (Inr (), s')"
  shows "thinking_wf s'"
proof (cases op rule: op_kinds)
  case (starting i)
  note e = open_effect [OF run starting]
  have "wf_at j s'" for j
  proof (cases "j = i")
    case True
    have "(i, b) \<notin> set (completed s)" for b
      using wf e(2) by (auto simp: thinking_wf_def wf_at_def known_def)
    then show ?thesis using e True by (auto simp: wf_at_def)
  next
    case False
    then show ?thesis using wf wf_at_same [OF e(3)] by (simp add: thinking_wf_def)
  qed
  then show ?thesis using wf e by (simp add: thinking_wf_def)
next
  case (delta i f)
  obtain t g where d: "map_of (active s) i = Some (ActiveThinking t g)"
    "s' = s\<lparr>active := bt_insert i (if op = OpThinkingDelta i f then ActiveThinking (t @ f) g
                                   else ActiveThinking t (g @ f)) (active s)\<rparr>"
    using delta_effect [OF run delta] .
  have "wf_at i s" using wf by (simp add: thinking_wf_def)
  then have here: "wf_at i s'" using d by (auto simp: wf_at_def)
  have "same_at j s s'" if "j \<noteq> i" for j using that d(2) by (simp add: same_at_def)
  then have "wf_at j s'" for j
    using here wf_at_same [of j s s'] wf by (cases "j = i") (auto simp: thinking_wf_def)
  moreover have "message_phase s = PhaseOpen" using wf d(1) by (auto simp: thinking_wf_def)
  ultimately show ?thesis using wf d by (simp add: thinking_wf_def)
next
  case (closing i)
  then show ?thesis using close_wf wf run by blast
next
  case phase
  then show ?thesis using wf phase_effect [OF run] by (auto simp: thinking_wf_def wf_at_def)
qed

subsection \<open>What the state keeps of the history\<close>

definition thinking_part :: "u32 \<Rightarrow> thinking_op \<Rightarrow> unicode" where
  "thinking_part i op =
     (case op of OpThink j t _ \<Rightarrow> if j = i then t else [] | OpThinkingDelta j f \<Rightarrow> if j = i then f else [] | _ \<Rightarrow> [])"

definition signature_part :: "u32 \<Rightarrow> thinking_op \<Rightarrow> unicode" where
  "signature_part i op =
     (case op of OpThink j _ g \<Rightarrow> if j = i then g else [] | OpSignatureDelta j f \<Rightarrow> if j = i then f else [] | _ \<Rightarrow> [])"

definition redacted_part :: "u32 \<Rightarrow> thinking_op \<Rightarrow> unicode" where
  "redacted_part i op = (case op of OpRedact j d \<Rightarrow> if j = i then d else [] | _ \<Rightarrow> [])"

definition collected :: "(thinking_op \<Rightarrow> unicode) \<Rightarrow> thinking_op list \<Rightarrow> unicode" where
  "collected part h = concat (map part h)"

definition times :: "(thinking_op \<Rightarrow> bool) \<Rightarrow> thinking_op list \<Rightarrow> nat" where
  "times p h = length (filter p h)"

lemma history_snoc [simp]:
  "collected part (h @ [op]) = collected part h @ part op"
  "times p (h @ [op]) = times p h + (if p op then 1 else 0)"
  "collected part [] = []" "times p [] = 0"
  by (simp_all add: collected_def times_def)

definition complete_parts :: "thinking_op list \<Rightarrow> u32 \<Rightarrow> anthropic_thinking_block \<Rightarrow> bool" where
  "complete_parts h i b =
     (case b of
        Thinking t g \<Rightarrow> t = collected (thinking_part i) h \<and> g = collected (signature_part i) h
      | RedactedThinking d \<Rightarrow> d = collected (redacted_part i) h)"

definition traced_at :: "u32 \<Rightarrow> thinking_op list \<Rightarrow> thinking_state \<Rightarrow> bool" where
  "traced_at i h s \<longleftrightarrow>
     times (opens i) h = (if i \<in> known s then 1 else 0) \<and>
     times (\<lambda>op. op = OpClose i) h = (if i \<in> set (completed_indexes s) then 1 else 0) \<and>
     (i \<notin> known s \<longrightarrow>
        collected (thinking_part i) h = [] \<and> collected (signature_part i) h = [] \<and> collected (redacted_part i) h = []) \<and>
     (\<forall>b. map_of (active s) i = Some b \<longrightarrow> complete_parts h i (closed_block b)) \<and>
     (\<forall>b. (i, b) \<in> set (completed s) \<longrightarrow> complete_parts h i b)"

definition traced :: "thinking_op list \<Rightarrow> thinking_state \<Rightarrow> bool" where
  "traced h s \<longleftrightarrow>
     (\<forall>i. traced_at i h s) \<and>
     (message_phase s = PhaseOpen \<longleftrightarrow> OpStopReason \<notin> set h \<and> OpMessageStop \<notin> set h) \<and>
     (message_phase s = Stopped \<longleftrightarrow> OpMessageStop \<in> set h)"

lemmas parts_defs = opens_def thinking_part_def signature_part_def redacted_part_def complete_parts_def closed_block_def

lemma traced_fresh: "active s = [] \<Longrightarrow> active_content s = [] \<Longrightarrow> completed s = [] \<Longrightarrow> completed_indexes s = []
    \<Longrightarrow> message_phase s = PhaseOpen \<Longrightarrow> traced [] s"
  by (simp add: traced_def traced_at_def known_def)

lemma traced_at_other:
  assumes "same_at j s s'" and "op_index op \<noteq> Some j"
  shows "traced_at j (h @ [op]) s' \<longleftrightarrow> traced_at j h s"
proof -
  have parts: "\<not> opens j op" "op \<noteq> OpClose j" "thinking_part j op = []" "signature_part j op = []" "redacted_part j op = []"
    using assms(2) by (cases op; auto simp: parts_defs)+
  then have "complete_parts (h @ [op]) j b = complete_parts h j b" for b
    by (simp add: complete_parts_def split: anthropic_thinking_block.split)
  moreover have "j \<in> known s' \<longleftrightarrow> j \<in> known s"
    using assms(1) by (simp add: known_def same_at_def domIff)
  ultimately show ?thesis using assms(1) parts by (simp add: traced_at_def same_at_def)
qed

lemma traced_start:
  assumes "thinking_wf s" and "traced h s" and "run_op op s = (Inr (), s')" and "opens i op"
  shows "traced (h @ [op]) s'"
proof -
  note e = open_effect [OF assms(3,4)]
  have at: "traced_at i h s" "wf_at i s" using assms(1,2) by (simp_all add: traced_def thinking_wf_def)
  have "(i, b) \<notin> set (completed s)" for b using at(2) e(2) by (auto simp: wf_at_def known_def)
  moreover have "complete_parts (h @ [op]) i (closed_block b)" if "op_block op = Some b" for b
    using that at(1) e(2) assms(4) by (cases op) (auto simp: traced_at_def parts_defs)
  moreover have "op \<noteq> OpClose i" "i \<notin> set (completed_indexes s)"
    using assms(4) e(2) by (auto simp: opens_def known_def)
  ultimately have here: "traced_at i (h @ [op]) s'"
    using at(1) e assms(4) by (simp add: traced_at_def)
  have "op_index op = Some i" "op \<noteq> OpStopReason" "op \<noteq> OpMessageStop" using assms(4) by (cases op; auto simp: opens_def)+
  then have "traced_at j (h @ [op]) s'" for j
    using here traced_at_other [OF e(3)] assms(2) by (cases "j = i") (auto simp: traced_def)
  then show ?thesis using assms(2) e(1,11) \<open>op \<noteq> OpStopReason\<close> \<open>op \<noteq> OpMessageStop\<close> by (auto simp: traced_def)
qed

lemma traced_delta:
  assumes "thinking_wf s" and "traced h s" and "run_op op s = (Inr (), s')"
    and "op = OpThinkingDelta i f \<or> op = OpSignatureDelta i f"
  shows "traced (h @ [op]) s'"
proof -
  obtain t g where e: "map_of (active s) i = Some (ActiveThinking t g)"
    "s' = s\<lparr>active := bt_insert i (if op = OpThinkingDelta i f then ActiveThinking (t @ f) g
                                   else ActiveThinking t (g @ f)) (active s)\<rparr>"
    using delta_effect [OF assms(3,4)] .
  have at: "traced_at i h s" "wf_at i s" using assms(1,2) by (simp_all add: traced_def thinking_wf_def)
  have "(i, b) \<notin> set (completed s)" for b using at(2) e(1) by (auto simp: wf_at_def)
  moreover have "i \<in> known s" "i \<in> known s'" using e by (auto simp: known_def)
  ultimately have here: "traced_at i (h @ [op]) s'"
    using at(1) e assms(4) by (auto simp: traced_at_def parts_defs)
  have "same_at j s s'" if "j \<noteq> i" for j using that e(2) by (simp add: same_at_def)
  then have "traced_at j (h @ [op]) s'" for j
    using here traced_at_other [of j s s' op h] assms(2,4) by (cases "j = i") (auto simp: traced_def)
  then show ?thesis using assms(2,4) e(2) by (auto simp: traced_def)
qed

text \<open>A delta of a block of unknown kind is accepted without an effect.\<close>

lemma traced_ignored:
  assumes "thinking_wf s" and "traced h s" and "map_of (active_content s) i \<noteq> None"
    and "op = OpThinkingDelta i f \<or> op = OpSignatureDelta i f"
  shows "traced (h @ [op]) s"
proof -
  have at: "traced_at i h s" "wf_at i s" using assms(1,2) by (simp_all add: traced_def thinking_wf_def)
  have "i \<in> known s" using assms(3) by (auto simp: known_def)
  then have here: "traced_at i (h @ [op]) s"
    using at assms(3,4) by (auto simp: traced_at_def wf_at_def opens_def)
  have "traced_at j (h @ [op]) s" for j
    using here traced_at_other [of j s s op h] assms(2,4) by (cases "j = i") (auto simp: traced_def same_at_def)
  then show ?thesis using assms(2,4) by (auto simp: traced_def)
qed

lemma traced_close:
  assumes "thinking_wf s" and "traced h s" and "run_op (OpClose i) s = (Inr (), s')"
  shows "traced (h @ [OpClose i]) s'"
proof -
  note e = close_effect [OF assms(3)]
  have at: "traced_at i h s" "wf_at i s" using assms(1,2) by (simp_all add: traced_def thinking_wf_def)
  have new: "i \<notin> set (completed_indexes s)" "i \<in> known s" "\<And>b. (i, b) \<notin> set (completed s)"
    using at(2) e(3) by (auto simp: wf_at_def known_def)
  have parts: "complete_parts (h @ [OpClose i]) i b = complete_parts h i b" for b
    by (simp add: parts_defs split: anthropic_thinking_block.split)
  have here: "traced_at i (h @ [OpClose i]) s'"
    using at e(2) new by (cases "map_of (active s) i") (auto simp: traced_at_def known_def set_insert_def opens_def parts)
  have "same_at j s s'" if "j \<noteq> i" for j
    using that e(2) by (cases "map_of (active s) i") (auto simp: same_at_def set_insert_def)
  then have "traced_at j (h @ [OpClose i]) s'" for j
    using here traced_at_other [of j s s' "OpClose i" h] assms(2) by (cases "j = i") (auto simp: traced_def)
  moreover have "message_phase s' = message_phase s" using e(2) by (cases "map_of (active s) i") auto
  ultimately show ?thesis using assms(2) by (auto simp: traced_def)
qed

lemma traced_phase:
  assumes "traced h s" and "run_op op s = (Inr (), s')" and "op = OpStopReason \<or> op = OpMessageStop"
  shows "traced (h @ [op]) s'"
proof -
  obtain p where e: "s' = s\<lparr>message_phase := p\<rparr>" using phase_effect(1,2) [OF assms(2)] assms(3) by blast
  have "traced_at j (h @ [op]) s'" for j
    using traced_at_other [of j s s' op h] assms(1,3) by (auto simp: traced_def same_at_def e)
  then show ?thesis using assms(1,3) phase_effect(1,2) [OF assms(2)] by (auto simp: traced_def)
qed

text \<open>The history since the last message began.\<close>

definition current_message :: "thinking_op list \<Rightarrow> thinking_op list" where
  "current_message h = rev (takeWhile (\<lambda>op. op \<noteq> OpMessage) (rev h))"

lemma current_message_snoc [simp]:
  "current_message (h @ [op]) = (if op = OpMessage then [] else current_message h @ [op])"
  by (simp add: current_message_def)

definition accepts_op :: "thinking_op \<Rightarrow> thinking_state \<Rightarrow> thinking_state \<Rightarrow> bool" where
  "accepts_op op s s' \<longleftrightarrow>
     run_op op s = (Inr (), s') \<or>
     (\<exists>i f. (op = OpThinkingDelta i f \<or> op = OpSignatureDelta i f) \<and> map_of (active_content s) i \<noteq> None \<and> s' = s)"

lemma accepts_op_invariant:
  assumes "thinking_wf s" and "traced (current_message h) s" and "accepts_op op s s'"
  shows "thinking_wf s'" and "traced (current_message (h @ [op])) s'"
proof -
  show "thinking_wf s'" using assms(1,3) run_op_wf by (auto simp: accepts_op_def)
  show "traced (current_message (h @ [op])) s'"
  proof (cases "run_op op s = (Inr (), s')")
    case True
    show ?thesis
    proof (cases op rule: op_kinds)
      case (starting i)
      then show ?thesis using traced_start [OF assms(1,2) True] by (auto simp: opens_def)
    next
      case (delta i f)
      then show ?thesis using traced_delta [OF assms(1,2) True] by auto
    next
      case (closing i)
      then show ?thesis using traced_close [OF assms(1,2)] True by simp
    next
      case phase
      then show ?thesis using traced_phase [OF assms(2) True] phase_effect(3) [OF True]
        by (auto intro: traced_fresh)
    qed
  next
    case False
    then show ?thesis using traced_ignored [OF assms(1,2)] assms(3) by (auto simp: accepts_op_def)
  qed
qed

lemma initial_invariant: "thinking_wf thinking_state_default" "traced [] thinking_state_default"
  by (simp_all add: thinking_wf_def wf_at_def thinking_state_default_def traced_fresh)

end
