(* ===== verification/Anthropic_Stream.thy ===== *)
theory Anthropic_Stream
  imports Anthropic_State
begin

section \<open>The transformer of Anthropic event streams\<close>

text \<open>
  Models \<^verbatim>\<open>src/core/providers/base/sse/anthropic.rs\<close>, \<^verbatim>\<open>anthropic_usage.rs\<close>,
  \<^verbatim>\<open>src/core/providers/anthropic/client/usage.rs\<close> and the chunk types of \<^verbatim>\<open>src/core/types\<close> it fills.
  Every event of the stream is a JSON value that is checked against the life cycle of the message and
  turned into at most one chunk.  The parser and the printer of JSON, which are those of a library, are
  arguments; so is the reading of the clock.  A field that no event of this format fills (audio, function
  calls, log probabilities, completion details, thinking usage, cost) is left out of the chunk types.
\<close>

subsection \<open>JSON values\<close>

datatype json_number = PosInt u64 | NegInt u64 | Float real

datatype json =
    JNull
  | JBool bool
  | JNumber json_number
  | JString unicode
  | JArray "json list"
  | JObject "(unicode \<times> json) list"

definition json_get :: "string \<Rightarrow> json \<Rightarrow> json option" where
  "json_get k v = (case v of JObject kvs \<Rightarrow> map_of kvs (ascii k) | _ \<Rightarrow> None)"

definition as_str :: "json \<Rightarrow> unicode option" where
  "as_str v = (case v of JString t \<Rightarrow> Some t | _ \<Rightarrow> None)"

definition as_u64 :: "json \<Rightarrow> u64 option" where
  "as_u64 v = (case v of JNumber (PosInt n) \<Rightarrow> Some n | _ \<Rightarrow> None)"

definition is_object :: "json \<Rightarrow> bool" where
  "is_object v \<longleftrightarrow> (case v of JObject _ \<Rightarrow> True | _ \<Rightarrow> False)"

definition get_str :: "string \<Rightarrow> json \<Rightarrow> unicode option" where
  "get_str k v = Option.bind (json_get k v) as_str"

definition unwrap_or :: "'a \<Rightarrow> 'a option \<Rightarrow> 'a" where
  "unwrap_or d x = (case x of Some y \<Rightarrow> y | None \<Rightarrow> d)"

subsection \<open>Usage\<close>

record prompt_tokens_details =
  cached_tokens :: "u32 option"
  cache_creation_tokens :: "u32 option"
  cache_read_tokens :: "u32 option"

record usage =
  prompt_tokens :: u32
  completion_tokens :: u32
  total_tokens :: u32
  prompt_details :: "prompt_tokens_details option"

definition saturate_u32 :: "u64 \<Rightarrow> u32" where
  "saturate_u32 v = (if unat v < 2 ^ 32 then ucast v else max_value)"

definition build_usage_from_parts ::
  "u64 option \<Rightarrow> u64 option \<Rightarrow> u64 option \<Rightarrow> u64 option \<Rightarrow> usage" where
  "build_usage_from_parts input output creation read =
     (let prompt = saturating_add (saturating_add (unwrap_or 0 input) (unwrap_or 0 creation)) (unwrap_or 0 read);
          completion = unwrap_or 0 output
      in \<lparr>prompt_tokens = saturate_u32 prompt, completion_tokens = saturate_u32 completion,
          total_tokens = saturate_u32 (saturating_add prompt completion),
          prompt_details =
            (if creation \<noteq> None \<or> read \<noteq> None
             then Some \<lparr>cached_tokens = map_option saturate_u32 read,
                        cache_creation_tokens = map_option saturate_u32 creation,
                        cache_read_tokens = map_option saturate_u32 read\<rparr>
             else None)\<rparr>)"

record anthropic_usage_state =
  input_tokens :: "u64 option"
  output_tokens :: "u64 option"
  cache_creation_input_tokens :: "u64 option"
  cache_read_input_tokens :: "u64 option"
  invalid :: bool

definition usage_state_default :: anthropic_usage_state where
  "usage_state_default =
     \<lparr>input_tokens = None, output_tokens = None, cache_creation_input_tokens = None,
      cache_read_input_tokens = None, invalid = False\<rparr>"

text \<open>One counter: the new value and whether the field was malformed.\<close>

definition merge_counter :: "string \<Rightarrow> json \<Rightarrow> u64 option \<Rightarrow> u64 option \<times> bool" where
  "merge_counter field u previous =
     (case json_get field u of
        None \<Rightarrow> (previous, False)
      | Some v \<Rightarrow>
          (case as_u64 v of
             Some n \<Rightarrow> if unat n < 2 ^ 32 then (Some n, False) else (None, True)
           | None \<Rightarrow> (None, True)))"

definition merge_usage :: "json \<Rightarrow> anthropic_usage_state \<Rightarrow> anthropic_usage_state" where
  "merge_usage u st =
     (if \<not> is_object u then st\<lparr>invalid := True\<rparr>
      else
        let (i, bad_i) = merge_counter ''input_tokens'' u (input_tokens st);
            (out, bad_o) = merge_counter ''output_tokens'' u (output_tokens st);
            (c, bad_c) = merge_counter ''cache_creation_input_tokens'' u (cache_creation_input_tokens st);
            (r, bad_r) = merge_counter ''cache_read_input_tokens'' u (cache_read_input_tokens st)
        in \<lparr>input_tokens = i, output_tokens = out, cache_creation_input_tokens = c,
            cache_read_input_tokens = r, invalid = invalid st \<or> bad_i \<or> bad_o \<or> bad_c \<or> bad_r\<rparr>)"

definition checked_add64 :: "u64 \<Rightarrow> u64 \<Rightarrow> u64 option" where
  "checked_add64 a b = (if unat a + unat b < 2 ^ 64 then Some (a + b) else None)"

definition terminal_usage :: "json \<Rightarrow> anthropic_usage_state \<Rightarrow> usage option" where
  "terminal_usage terminal st =
     (if invalid st \<or> Option.bind (json_get ''output_tokens'' terminal) as_u64 = None then None
      else
        do {
          i \<leftarrow> input_tokens st;
          a \<leftarrow> checked_add64 i (unwrap_or 0 (cache_creation_input_tokens st));
          b \<leftarrow> checked_add64 a (unwrap_or 0 (cache_read_input_tokens st));
          out \<leftarrow> output_tokens st;
          total \<leftarrow> checked_add64 b out;
          if unat total < 2 ^ 32
          then Some (build_usage_from_parts (input_tokens st) (output_tokens st)
                       (cache_creation_input_tokens st) (cache_read_input_tokens st))
          else None
        })"

subsection \<open>Chunks\<close>

datatype finish_reason =
  FinishStop | FinishLength | FinishToolCalls | FinishContentFilter | FinishFunctionCall
  | FinishStopSequence | FinishRefusal | FinishPauseTurn

record thinking_delta =
  td_content :: "unicode option"
  td_signature :: "unicode option"
  td_is_start :: "bool option"
  td_is_complete :: "bool option"

record tool_call_delta =
  tc_index :: u32
  tc_id :: "unicode option"
  tc_type :: "unicode option"
  tc_name :: "unicode option"
  tc_arguments :: "unicode option"

record chat_delta =
  cd_assistant_role :: bool
  cd_content :: "unicode option"
  cd_thinking :: "thinking_delta option"
  cd_tool_calls :: "tool_call_delta list option"

record chat_choice =
  choice_delta :: chat_delta
  choice_finish :: "finish_reason option"

record chat_chunk =
  chunk_id :: unicode
  chunk_created :: i64
  chunk_model :: unicode
  chunk_choices :: "chat_choice list"
  chunk_usage :: "usage option"

definition thinking_new :: "unicode \<Rightarrow> thinking_delta" where
  "thinking_new t = \<lparr>td_content = Some t, td_signature = None, td_is_start = None, td_is_complete = None\<rparr>"

definition thinking_start :: thinking_delta where
  "thinking_start = \<lparr>td_content = None, td_signature = None, td_is_start = Some True, td_is_complete = None\<rparr>"

definition thinking_complete :: thinking_delta where
  "thinking_complete = \<lparr>td_content = None, td_signature = None, td_is_start = None, td_is_complete = Some True\<rparr>"

definition thinking_signature :: "unicode \<Rightarrow> thinking_delta" where
  "thinking_signature t = \<lparr>td_content = None, td_signature = Some t, td_is_start = None, td_is_complete = None\<rparr>"

definition empty_delta :: chat_delta where
  "empty_delta = \<lparr>cd_assistant_role = False, cd_content = None, cd_thinking = None, cd_tool_calls = None\<rparr>"

subsection \<open>The transformer\<close>

record anthropic_transformer =
  at_model :: unicode
  tool_name_map :: "unicode \<rightharpoonup> unicode"
  message_id :: "unicode option"
  thinking :: thinking_state
  usage_state :: anthropic_usage_state

definition anthropic_new :: "unicode \<Rightarrow> anthropic_transformer" where
  "anthropic_new m =
     \<lparr>at_model = m, tool_name_map = Map.empty, message_id = None, thinking = thinking_state_default,
      usage_state = usage_state_default\<rparr>"

definition anthropic_clone :: "anthropic_transformer \<Rightarrow> anthropic_transformer" where
  "anthropic_clone t =
     t\<lparr>message_id := None, thinking := thinking_state_default, usage_state := usage_state_default\<rparr>"

definition with_tool_name_map :: "anthropic_transformer \<Rightarrow> (unicode \<rightharpoonup> unicode) \<Rightarrow> anthropic_transformer" where
  "with_tool_name_map t m = t\<lparr>tool_name_map := m\<rparr>"

definition restore_tool_name :: "anthropic_transformer \<Rightarrow> unicode \<Rightarrow> unicode" where
  "restore_tool_name t name = unwrap_or name (tool_name_map t name)"

definition current_message_id :: "anthropic_transformer \<Rightarrow> unicode" where
  "current_message_id t = unwrap_or (ascii ''anthropic-stream'') (message_id t)"

definition required_index :: "json \<Rightarrow> string \<Rightarrow> anthropic_error + u32" where
  "required_index v event =
     (case Option.bind (json_get ''index'' v) as_u64 of
        None \<Rightarrow> Inl (ResponseParsing (''No content index in Anthropic '' @ event))
      | Some n \<Rightarrow>
          (if unat n < 2 ^ 32 then Inr (ucast n)
           else Inl (ResponseParsing (''Anthropic '' @ event @ '' content index '' @ decimal (unat n) @ '' exceeds u32''))))"

definition parse_anthropic_finish_reason :: "unicode \<Rightarrow> finish_reason" where
  "parse_anthropic_finish_reason r =
     (if r = ascii ''end_turn'' then FinishStop
      else if r = ascii ''max_tokens'' then FinishLength
      else if r = ascii ''tool_use'' then FinishToolCalls
      else if r = ascii ''stop_sequence'' then FinishStopSequence
      else if r = ascii ''refusal'' then FinishRefusal
      else if r = ascii ''pause_turn'' then FinishPauseTurn
      else FinishStop)"

definition chunk_with_choice ::
  "anthropic_transformer \<Rightarrow> i64 \<Rightarrow> chat_delta \<Rightarrow> finish_reason option \<Rightarrow> usage option \<Rightarrow> chat_chunk" where
  "chunk_with_choice t created d fin u =
     \<lparr>chunk_id = current_message_id t, chunk_created = created, chunk_model = at_model t,
      chunk_choices = [\<lparr>choice_delta = d, choice_finish = fin\<rparr>], chunk_usage = u\<rparr>"

type_synonym transform_result = "(anthropic_error + chat_chunk option) \<times> anthropic_transformer"

text \<open>An operation on the life cycle, and what follows if it succeeds.\<close>

definition with_thinking_state ::
  "(thinking_state \<Rightarrow> (anthropic_error + 'a) \<times> thinking_state) \<Rightarrow> anthropic_transformer
     \<Rightarrow> ('a \<Rightarrow> anthropic_transformer \<Rightarrow> transform_result) \<Rightarrow> transform_result" where
  "with_thinking_state f t k =
     (case f (thinking t) of
        (Inl e, s) \<Rightarrow> (Inl e, t\<lparr>thinking := s\<rparr>)
      | (Inr x, s) \<Rightarrow> k x (t\<lparr>thinking := s\<rparr>))"

definition read_only :: "(thinking_state \<Rightarrow> anthropic_error + 'a) \<Rightarrow> thinking_state \<Rightarrow> (anthropic_error + 'a) \<times> thinking_state" where
  "read_only f s = (f s, s)"

definition on_message_start :: "i64 \<Rightarrow> json \<Rightarrow> anthropic_transformer \<Rightarrow> transform_result" where
  "on_message_start created v t =
     with_thinking_state begin_message t (\<lambda>_ t.
       let u = (case Option.bind (json_get ''message'' v) (json_get ''usage'') of
                  Some u \<Rightarrow> merge_usage u usage_state_default
                | None \<Rightarrow> usage_state_default);
           mid = unwrap_or (ascii ''anthropic-stream'') (Option.bind (json_get ''message'' v) (get_str ''id''))
       in (Inr (Some \<lparr>chunk_id = mid, chunk_created = created, chunk_model = at_model t,
                      chunk_choices = [\<lparr>choice_delta = empty_delta\<lparr>cd_assistant_role := True\<rparr>, choice_finish = None\<rparr>],
                      chunk_usage = None\<rparr>),
           t\<lparr>usage_state := u, message_id := Some mid\<rparr>))"

definition tool_arguments :: "(json \<Rightarrow> unicode) \<Rightarrow> json \<Rightarrow> unicode option" where
  "tool_arguments render block =
     (case json_get ''input'' block of
        None \<Rightarrow> None
      | Some input \<Rightarrow> if input = JNull \<or> input = JObject [] then None else Some (render input))"

definition on_block_start :: "(json \<Rightarrow> unicode) \<Rightarrow> i64 \<Rightarrow> json \<Rightarrow> anthropic_transformer \<Rightarrow> transform_result" where
  "on_block_start render created v t =
     (case required_index v ''content block start'' of
        Inl e \<Rightarrow> (Inl e, t)
      | Inr index \<Rightarrow>
          (case json_get ''content_block'' v of
             None \<Rightarrow> (Inl (ResponseParsing ''No content_block in content_block_start''), t)
           | Some block \<Rightarrow>
               (let block_type = unwrap_or [] (get_str ''type'' block)
                in if block_type = ascii ''tool_use'' then
                     with_thinking_state (begin_content index ToolUseBlock) t (\<lambda>_ t.
                       (Inr (Some (chunk_with_choice t created (empty_delta\<lparr>cd_tool_calls := Some
                          [\<lparr>tc_index = index, tc_id = get_str ''id'' block, tc_type = Some (ascii ''function''),
                            tc_name = map_option (restore_tool_name t) (get_str ''name'' block),
                            tc_arguments = tool_arguments render block\<rparr>]\<rparr>) None None)), t))
                   else if block_type = ascii ''thinking'' then
                     with_thinking_state (begin_thinking index (unwrap_or [] (get_str ''thinking'' block))
                         (unwrap_or [] (get_str ''signature'' block))) t (\<lambda>_ t.
                       (Inr (Some (chunk_with_choice t created (empty_delta\<lparr>cd_thinking := Some thinking_start\<rparr>) None None)), t))
                   else if block_type = ascii ''redacted_thinking'' then
                     with_thinking_state (begin_redacted index (unwrap_or [] (get_str ''data'' block))) t (\<lambda>_ t.
                       (Inr (Some (chunk_with_choice t created (empty_delta\<lparr>cd_thinking := Some thinking_start\<rparr>) None None)), t))
                   else if block_type = ascii ''text'' then
                     with_thinking_state (begin_content index TextBlock) t (\<lambda>_ t. (Inr None, t))
                   else
                     with_thinking_state (begin_content index IgnoredBlock) t (\<lambda>_ t. (Inr None, t)))))"

definition on_block_delta :: "i64 \<Rightarrow> json \<Rightarrow> anthropic_transformer \<Rightarrow> transform_result" where
  "on_block_delta created v t =
     (case required_index v ''content block delta'' of
        Inl e \<Rightarrow> (Inl e, t)
      | Inr index \<Rightarrow>
          (case json_get ''delta'' v of
             None \<Rightarrow> (Inl (ResponseParsing ''No delta in content_block_delta''), t)
           | Some d \<Rightarrow>
               (let delta_type = unwrap_or [] (get_str ''type'' d)
                in with_thinking_state (read_only (validate_delta_kind index delta_type)) t (\<lambda>disposition t.
                  if disposition = Ignore then (Inr None, t)
                  else if delta_type = ascii ''text_delta'' then
                    (Inr (Some (chunk_with_choice t created
                       (empty_delta\<lparr>cd_content := Some (unwrap_or [] (get_str ''text'' d))\<rparr>) None None)), t)
                  else if delta_type = ascii ''input_json_delta'' then
                    (Inr (Some (chunk_with_choice t created (empty_delta\<lparr>cd_tool_calls := Some
                       [\<lparr>tc_index = index, tc_id = None, tc_type = Some (ascii ''function''), tc_name = None,
                         tc_arguments = Some (unwrap_or [] (get_str ''partial_json'' d))\<rparr>]\<rparr>) None None)), t)
                  else if delta_type = ascii ''citations_delta'' then
                    (if json_get ''citation'' d = None
                     then (Inl (ResponseParsing ''No citation in Anthropic citations_delta''), t)
                     else (Inr None, t))
                  else if delta_type = ascii ''thinking_delta'' then
                    (let fragment = unwrap_or [] (get_str ''thinking'' d)
                     in with_thinking_state (append_thinking index fragment) t (\<lambda>_ t.
                          (Inr (Some (chunk_with_choice t created
                             (empty_delta\<lparr>cd_thinking := Some (thinking_new fragment)\<rparr>) None None)), t)))
                  else if delta_type = ascii ''signature_delta'' then
                    (let fragment = unwrap_or [] (get_str ''signature'' d)
                     in with_thinking_state (append_signature index fragment) t (\<lambda>_ t.
                          (Inr (Some (chunk_with_choice t created
                             (empty_delta\<lparr>cd_thinking := Some (thinking_signature fragment)\<rparr>) None None)), t)))
                  else (Inr None, t)))))"

definition on_message_delta :: "i64 \<Rightarrow> json \<Rightarrow> anthropic_transformer \<Rightarrow> transform_result" where
  "on_message_delta created v t =
     (let fin = map_option parse_anthropic_finish_reason (Option.bind (json_get ''delta'' v) (get_str ''stop_reason''))
      in with_thinking_state
           (if fin \<noteq> None then begin_pending_stop else read_only (ensure_message_open 0 ''message_delta'')) t
           (\<lambda>_ t.
             (case json_get ''usage'' v of
                None \<Rightarrow> (Inr (Some (chunk_with_choice t created empty_delta fin None)), t)
              | Some u \<Rightarrow>
                  (let st = merge_usage u (usage_state t);
                       t = t\<lparr>usage_state := st\<rparr>
                   in (Inr (Some (chunk_with_choice t created empty_delta fin
                             (if fin \<noteq> None then terminal_usage u st else None))), t)))))"

definition on_message_stop :: "i64 \<Rightarrow> anthropic_transformer \<Rightarrow> transform_result" where
  "on_message_stop created t =
     with_thinking_state end_message t (\<lambda>_ t.
       (Inr (Some \<lparr>chunk_id = current_message_id t, chunk_created = created, chunk_model = at_model t,
                   chunk_choices = [], chunk_usage = None\<rparr>),
        t\<lparr>message_id := None, usage_state := usage_state_default\<rparr>))"

definition on_block_stop :: "i64 \<Rightarrow> json \<Rightarrow> anthropic_transformer \<Rightarrow> transform_result" where
  "on_block_stop created v t =
     (case required_index v ''content block stop'' of
        Inl e \<Rightarrow> (Inl e, t)
      | Inr index \<Rightarrow>
          with_thinking_state (complete index) t (\<lambda>done_thinking t.
            if done_thinking
            then (Inr (Some (chunk_with_choice t created (empty_delta\<lparr>cd_thinking := Some thinking_complete\<rparr>) None None)), t)
            else (Inr None, t)))"

definition on_event :: "(json \<Rightarrow> unicode) \<Rightarrow> i64 \<Rightarrow> json \<Rightarrow> anthropic_transformer \<Rightarrow> transform_result" where
  "on_event render created v t =
     (let event_type = unwrap_or [] (get_str ''type'' v)
      in if event_type = ascii ''message_start'' then on_message_start created v t
         else if event_type = ascii ''content_block_start'' then on_block_start render created v t
         else if event_type = ascii ''content_block_delta'' then on_block_delta created v t
         else if event_type = ascii ''message_delta'' then on_message_delta created v t
         else if event_type = ascii ''message_stop'' then on_message_stop created t
         else if event_type = ascii ''error'' then
           (Inl (StreamingError (unwrap_or (ascii ''Unknown streaming error'')
              (Option.bind (json_get ''error'' v) (get_str ''message'')))), t)
         else if event_type = ascii ''content_block_stop'' then on_block_stop created v t
         else (Inr None, t))"

definition anthropic_transform_chunk ::
  "(unicode \<Rightarrow> string + json) \<Rightarrow> (json \<Rightarrow> unicode) \<Rightarrow> i64 \<Rightarrow> anthropic_transformer \<Rightarrow> unicode \<Rightarrow> transform_result" where
  "anthropic_transform_chunk parse render created t data =
     (case parse data of
        Inl e \<Rightarrow> (Inl (ResponseParsing (''Failed to parse Anthropic SSE: '' @ e)), t)
      | Inr v \<Rightarrow> on_event render created v t)"

definition anthropic_finish_stream :: "anthropic_transformer \<Rightarrow> transform_result" where
  "anthropic_finish_stream t =
     with_thinking_state (read_only ensure_stream_complete) t (\<lambda>_ t. (Inr None, t))"

text \<open>The transformer as the stream uses it, beside the number of clock readings so far.\<close>

definition anthropic_sse ::
  "(unicode \<Rightarrow> string + json) \<Rightarrow> (json \<Rightarrow> unicode) \<Rightarrow> (nat \<Rightarrow> i64)
     \<Rightarrow> (anthropic_error \<Rightarrow> anthropic_error \<Rightarrow> anthropic_error) \<Rightarrow> anthropic_error \<Rightarrow> anthropic_error
     \<Rightarrow> (anthropic_transformer \<times> nat, chat_chunk, anthropic_error) sse_transformer" where
  "anthropic_sse parse render clk combine net overflow =
     (let step = (\<lambda>(t, n) data.
            let (r, t') = anthropic_transform_chunk parse render (clk n) t data in (r, t', Suc n))
      in \<lparr>is_end_marker = \<lambda>_. done_marker, transform_chunk = step, transform_stream_chunk = step,
          take_stream_error_chunk = \<lambda>s. (None, s),
          finish_stream_of = \<lambda>(t, n). let (r, t') = anthropic_finish_stream t in (r, t', n),
          combine_stream_errors = combine, network_error = net, overflow_error = overflow\<rparr>)"

subsection \<open>Events as transitions of the life cycle\<close>

definition block_op :: "u32 \<Rightarrow> json \<Rightarrow> thinking_op" where
  "block_op i block =
     (let ty = unwrap_or [] (get_str ''type'' block)
      in if ty = ascii ''tool_use'' then OpOpen i ToolUseBlock
         else if ty = ascii ''thinking''
         then OpThink i (unwrap_or [] (get_str ''thinking'' block)) (unwrap_or [] (get_str ''signature'' block))
         else if ty = ascii ''redacted_thinking'' then OpRedact i (unwrap_or [] (get_str ''data'' block))
         else if ty = ascii ''text'' then OpOpen i TextBlock
         else OpOpen i IgnoredBlock)"

definition delta_op :: "u32 \<Rightarrow> json \<Rightarrow> thinking_op option" where
  "delta_op i d =
     (let ty = unwrap_or [] (get_str ''type'' d)
      in if ty = ascii ''thinking_delta'' then Some (OpThinkingDelta i (unwrap_or [] (get_str ''thinking'' d)))
         else if ty = ascii ''signature_delta'' then Some (OpSignatureDelta i (unwrap_or [] (get_str ''signature'' d)))
         else None)"

definition indexed :: "(u32 \<Rightarrow> json \<Rightarrow> thinking_op option) \<Rightarrow> string \<Rightarrow> json \<Rightarrow> thinking_op option" where
  "indexed f key v =
     (case required_index v ''event'' of
        Inl _ \<Rightarrow> None
      | Inr i \<Rightarrow> (case json_get key v of None \<Rightarrow> None | Some x \<Rightarrow> f i x))"

definition event_op :: "json \<Rightarrow> thinking_op option" where
  "event_op v =
     (let ty = unwrap_or [] (get_str ''type'' v)
      in if ty = ascii ''message_start'' then Some OpMessage
         else if ty = ascii ''content_block_start'' then indexed (\<lambda>i b. Some (block_op i b)) ''content_block'' v
         else if ty = ascii ''content_block_delta'' then indexed delta_op ''delta'' v
         else if ty = ascii ''message_delta''
         then (if Option.bind (json_get ''delta'' v) (get_str ''stop_reason'') \<noteq> None then Some OpStopReason else None)
         else if ty = ascii ''message_stop'' then Some OpMessageStop
         else if ty = ascii ''content_block_stop''
         then (case required_index v ''event'' of Inl _ \<Rightarrow> None | Inr i \<Rightarrow> Some (OpClose i))
         else None)"

definition follows :: "thinking_op option \<Rightarrow> thinking_state \<Rightarrow> thinking_state \<Rightarrow> bool" where
  "follows op s s' = (case op of None \<Rightarrow> s' = s | Some op \<Rightarrow> accepts_op op s s')"

lemma ascii_eq [simp]: "ascii a = ascii b \<longleftrightarrow> a = b"
proof -
  have "inj (of_char :: char \<Rightarrow> nat)" by (rule injI) (simp only: of_char_eq_iff)
  then show ?thesis by (simp add: ascii_def inj_map_eq_map)
qed

lemma required_index_name: "required_index v e = Inr i \<Longrightarrow> required_index v e' = Inr i"
  by (auto simp: required_index_def split: option.splits if_splits)

lemma with_thinking_stateD:
  assumes "with_thinking_state f t k = (Inr c, t')"
  obtains x s where "f (thinking t) = (Inr x, s)" and "k x (t\<lparr>thinking := s\<rparr>) = (Inr c, t')"
  using assms by (auto simp: with_thinking_state_def split: prod.splits sum.splits)

lemma on_message_start_op: "on_message_start created v t = (Inr c, t') \<Longrightarrow> accepts_op OpMessage (thinking t) (thinking t')"
  by (auto simp: on_message_start_def accepts_op_def run_op_def Let_def elim!: with_thinking_stateD)

lemma on_message_stop_op: "on_message_stop created t = (Inr c, t') \<Longrightarrow> accepts_op OpMessageStop (thinking t) (thinking t')"
  by (auto simp: on_message_stop_def accepts_op_def run_op_def elim!: with_thinking_stateD)

lemma on_message_delta_op:
  assumes "on_message_delta created v t = (Inr c, t')"
  shows "follows (if Option.bind (json_get ''delta'' v) (get_str ''stop_reason'') \<noteq> None then Some OpStopReason else None)
    (thinking t) (thinking t')"
  using assms
  by (auto simp: on_message_delta_def Let_def follows_def accepts_op_def run_op_def read_only_def
      elim!: with_thinking_stateD split: if_splits option.splits)

lemma on_block_stop_op:
  assumes "on_block_stop created v t = (Inr c, t')"
  shows "\<exists>i. required_index v ''event'' = Inr i \<and> accepts_op (OpClose i) (thinking t) (thinking t')"
proof -
  obtain i where i: "required_index v ''event'' = Inr i" "required_index v ''content block stop'' = Inr i"
    using assms by (auto simp: on_block_stop_def dest: required_index_name split: sum.splits)
  then have "run_op (OpClose i) (thinking t) = (Inr (), thinking t')"
    using assms by (auto simp: on_block_stop_def run_op_def elim!: with_thinking_stateD split: if_splits)
  then show ?thesis using i by (auto simp: accepts_op_def)
qed

lemma on_block_start_op:
  assumes "on_block_start render created v t = (Inr c, t')"
  shows "\<exists>i b. required_index v ''event'' = Inr i \<and> json_get ''content_block'' v = Some b \<and>
    accepts_op (block_op i b) (thinking t) (thinking t')"
proof -
  obtain i b where ib: "required_index v ''event'' = Inr i" "json_get ''content_block'' v = Some b"
    "required_index v ''content block start'' = Inr i"
    using assms by (auto simp: on_block_start_def dest: required_index_name split: sum.splits option.splits)
  have "run_op (block_op i b) (thinking t) = (Inr (), thinking t')"
    using assms ib(2,3)
    by (auto simp: on_block_start_def block_op_def run_op_def Let_def elim!: with_thinking_stateD split: if_splits)
  then show ?thesis using ib by (auto simp: accepts_op_def)
qed

lemma on_block_delta_op:
  assumes "on_block_delta created v t = (Inr c, t')"
  shows "\<exists>i d. required_index v ''event'' = Inr i \<and> json_get ''delta'' v = Some d \<and>
    follows (delta_op i d) (thinking t) (thinking t')"
proof -
  obtain i d where id: "required_index v ''event'' = Inr i" "json_get ''delta'' v = Some d"
    "required_index v ''content block delta'' = Inr i"
    using assms by (auto simp: on_block_delta_def dest: required_index_name split: sum.splits option.splits)
  have ignored: "\<exists>b. map_of (active_content s) i = Some b" if "validate_delta_kind i ty s = Inr Ignore" for s ty
    using that by (auto simp: validate_delta_kind_def split: sum.splits option.splits if_splits)
  have "follows (delta_op i d) (thinking t) (thinking t')"
    using assms id(2,3)
    by (auto simp: on_block_delta_def delta_op_def follows_def accepts_op_def run_op_def read_only_def Let_def
        dest: ignored elim!: with_thinking_stateD split: if_splits)
  then show ?thesis using id by blast
qed

lemma on_event_op:
  assumes "on_event render created v t = (Inr c, t')"
  shows "follows (event_op v) (thinking t) (thinking t')"
  using assms
  by (auto simp: on_event_def event_op_def indexed_def Let_def follows_def [of "Some op" for op] follows_def [of None]
      dest!: on_message_start_op on_message_stop_op on_message_delta_op on_block_stop_op on_block_start_op
        on_block_delta_op split: if_splits)

subsection \<open>Runs of a stream\<close>

text \<open>The events of a stream, each with the reading of the clock at its arrival, up to the first error.\<close>

fun transform_all ::
  "(unicode \<Rightarrow> string + json) \<Rightarrow> (json \<Rightarrow> unicode) \<Rightarrow> anthropic_transformer \<Rightarrow> (i64 \<times> unicode) list
     \<Rightarrow> (anthropic_error + chat_chunk list) \<times> anthropic_transformer" where
  "transform_all parse render t [] = (Inr [], t)"
| "transform_all parse render t ((created, data) # es) =
     (case anthropic_transform_chunk parse render created t data of
        (Inl e, t') \<Rightarrow> (Inl e, t')
      | (Inr c, t') \<Rightarrow>
          (case transform_all parse render t' es of
             (Inl e, t'') \<Rightarrow> (Inl e, t'')
           | (Inr cs, t'') \<Rightarrow> (Inr (list_of_option c @ cs), t'')))"

definition history :: "(unicode \<Rightarrow> string + json) \<Rightarrow> (i64 \<times> unicode) list \<Rightarrow> thinking_op list" where
  "history parse es =
     List.map_filter (\<lambda>(_, data). case parse data of Inl _ \<Rightarrow> None | Inr v \<Rightarrow> event_op v) es"

lemma transform_chunk_invariant:
  assumes "anthropic_transform_chunk parse render created t data = (Inr c, t')"
    and "thinking_wf (thinking t)" and "traced (current_message h) (thinking t)"
  shows "thinking_wf (thinking t')" and "traced (current_message (h @ history parse [(created, data)])) (thinking t')"
proof -
  obtain v where v: "parse data = Inr v" "follows (event_op v) (thinking t) (thinking t')"
    using assms(1) on_event_op by (auto simp: anthropic_transform_chunk_def split: sum.splits)
  then show "thinking_wf (thinking t')" "traced (current_message (h @ history parse [(created, data)])) (thinking t')"
    using accepts_op_invariant [OF assms(2,3)] assms(2,3)
    by (cases "event_op v"; simp add: follows_def history_def map_filter_def)+
qed

lemma transform_all_invariant:
  assumes "transform_all parse render t es = (Inr cs, t')"
    and "thinking_wf (thinking t)" and "traced (current_message h) (thinking t)"
  shows "thinking_wf (thinking t') \<and> traced (current_message (h @ history parse es)) (thinking t')"
  using assms
proof (induction es arbitrary: t h cs)
  case Nil
  then show ?case by (simp add: history_def map_filter_def)
next
  case (Cons e es)
  obtain created data where e: "e = (created, data)" by fastforce
  obtain c t1 cs' where run: "anthropic_transform_chunk parse render created t data = (Inr c, t1)"
    "transform_all parse render t1 es = (Inr cs', t')"
    using Cons.prems(1) by (auto simp: e split: prod.splits sum.splits)
  have "history parse (e # es) = history parse [e] @ history parse es"
    by (simp add: history_def map_filter_def)
  then show ?case
    using Cons.IH [OF run(2) transform_chunk_invariant [OF run(1) Cons.prems(2,3)]] by (simp add: e)
qed

lemma stream_invariant:
  assumes "transform_all parse render (anthropic_new m) es = (Inr cs, t)"
  shows "thinking_wf (thinking t)" and "traced (current_message (history parse es)) (thinking t)"
  using transform_all_invariant [OF assms, of "[]"] initial_invariant
  by (simp_all add: anthropic_new_def current_message_def)

text \<open>C10. Thinking blocks survive the stream unchanged.  After any events that were accepted, every
  completed thinking block of the current message has the text it started with followed by all its
  thinking fragments in order, and likewise its signature; a redacted block has its data.  A block is
  completed at most once, and never without a signature or data, which a later request must send back
  to the provider.\<close>

theorem thinking_blocks_lossless:
  assumes "transform_all parse render (anthropic_new m) es = (Inr cs, t)"
    and "h = current_message (history parse es)"
  shows "distinct (map fst (completed (thinking t))) \<and>
    (\<forall>i text signature. (i, Thinking text signature) \<in> set (completed (thinking t)) \<longrightarrow>
       text = concat (map (thinking_part i) h) \<and> signature = concat (map (signature_part i) h) \<and> signature \<noteq> []) \<and>
    (\<forall>i data. (i, RedactedThinking data) \<in> set (completed (thinking t)) \<longrightarrow>
       data = concat (map (redacted_part i) h) \<and> data \<noteq> [])"
proof -
  note inv = stream_invariant [OF assms(1), folded assms(2)]
  have "complete_parts h i b \<and> finished_block b" if "(i, b) \<in> set (completed (thinking t))" for i b
    using that inv by (auto simp: thinking_wf_def wf_at_def traced_def traced_at_def)
  moreover have "distinct (map fst (completed (thinking t)))" using inv(1) by (simp add: thinking_wf_def)
  ultimately show ?thesis by (fastforce simp: complete_parts_def finished_block_def collected_def)
qed


text \<open>A parser of six events, numbered, and the stream that sends them in order.\<close>

definition example_event :: "string \<Rightarrow> (string \<times> json) list \<Rightarrow> json" where
  "example_event ty fs = JObject ((ascii ''type'', JString (ascii ty)) # map (\<lambda>(k, v). (ascii k, v)) fs)"

definition example_events :: "json list" where
  "example_events =
     (let index = (''index'', JNumber (PosInt 0));
          delta = (\<lambda>ty k v. example_event ''content_block_delta'' [index, (''delta'', example_event ty [(k, JString (ascii v))])])
      in [example_event ''content_block_start'' [index, (''content_block'', example_event ''thinking'' [])],
          delta ''thinking_delta'' ''thinking'' ''so'',
          delta ''thinking_delta'' ''thinking'' '' on'',
          delta ''signature_delta'' ''signature'' ''sig'',
          example_event ''content_block_stop'' [index],
          example_event ''message_stop'' []])"

definition example_parse :: "unicode \<Rightarrow> string + json" where
  "example_parse data = (case data of [n] \<Rightarrow> if n < 6 then Inr (example_events ! n) else Inl ''end'' | _ \<Rightarrow> Inl ''text'')"

definition example_stream :: "(i64 \<times> unicode) list" where
  "example_stream = map (\<lambda>n. (0, [n])) [0, 1, 2, 3, 4, 5]"

lemmas example_simps =
  example_events_def example_event_def json_get_def get_str_def as_str_def as_u64_def unwrap_or_def
  required_index_def Let_def

lemma example_transitions:
  "map (map_option event_op) (map (\<lambda>n. Some (example_events ! n)) [0, 1, 2, 3, 4, 5]) =
     map Some [Some (OpThink 0 [] []), Some (OpThinkingDelta 0 (ascii ''so'')), Some (OpThinkingDelta 0 (ascii '' on'')),
      Some (OpSignatureDelta 0 (ascii ''sig'')), Some (OpClose 0), Some OpMessageStop]"
  by (simp add: event_op_def indexed_def block_op_def delta_op_def example_simps)

lemma example_history:
  "current_message (history example_parse example_stream) =
     [OpThink 0 [] [], OpThinkingDelta 0 (ascii ''so''), OpThinkingDelta 0 (ascii '' on''),
      OpSignatureDelta 0 (ascii ''sig''), OpClose 0, OpMessageStop]"
  using example_transitions
  by (simp add: current_message_def history_def example_stream_def example_parse_def map_filter_def)

lemma example_run:
  "\<exists>cs t t'. transform_all example_parse (\<lambda>_. []) (anthropic_new []) example_stream = (Inr cs, t) \<and>
    completed (thinking t) = [(0, Thinking (ascii ''so'' @ ascii '' on'') (ascii ''sig''))] \<and>
    anthropic_finish_stream t = (Inr None, t')"
  by (simp add: example_stream_def example_parse_def anthropic_transform_chunk_def on_event_def on_block_start_def
      on_block_delta_def on_block_stop_def on_message_stop_def with_thinking_state_def read_only_def
      anthropic_finish_stream_def ensure_stream_complete_def thinking_iffs validate_delta_kind_def ensure_message_open_def
      begin_thinking_def insert_thinking_def append_thinking_def append_signature_def complete_def end_message_def
      anthropic_new_def thinking_state_default_def bt_insert_def bt_remove_def set_insert_def example_simps)
    (simp add: ascii_def)?

lemma thinking_blocks_lossless_witness:
  "concat (map (thinking_part 0) (current_message (history example_parse example_stream))) = ascii ''so'' @ ascii '' on'' \<and>
   concat (map (signature_part 0) (current_message (history example_parse example_stream))) \<noteq> []"
  using example_run thinking_blocks_lossless [OF _ refl, of example_parse "\<lambda>_. []" "[]" example_stream]
  by (metis list.set_intros(1))


subsection \<open>Token usage\<close>

text \<open>What the usage objects of a message say: the values reported for a counter, whether they are all
  counters, and the last of them.\<close>

definition reported :: "string \<Rightarrow> json list \<Rightarrow> json list" where
  "reported field us = List.map_filter (json_get field) us"

definition valid_counter :: "json \<Rightarrow> bool" where
  "valid_counter v \<longleftrightarrow> (case as_u64 v of Some n \<Rightarrow> unat n < 2 ^ 32 | None \<Rightarrow> False)"

definition counter :: "string \<Rightarrow> json list \<Rightarrow> u64 option" where
  "counter field us = (if reported field us = [] then None else as_u64 (last (reported field us)))"

definition usage_fields :: "string list" where
  "usage_fields = [''input_tokens'', ''output_tokens'', ''cache_creation_input_tokens'', ''cache_read_input_tokens'']"

definition well_reported :: "json list \<Rightarrow> bool" where
  "well_reported us \<longleftrightarrow> list_all is_object us \<and> list_all (\<lambda>f. list_all valid_counter (reported f us)) usage_fields"

lemma reported_snoc: "reported f (us @ [u]) = reported f us @ list_of_option (json_get f u)"
  by (cases "json_get f u") (simp_all add: reported_def map_filter_def list_of_option_def)

lemma merge_counter_spec:
  "snd (merge_counter f u p) \<longleftrightarrow> \<not> list_all valid_counter (list_of_option (json_get f u))"
  "list_all valid_counter (list_of_option (json_get f u)) \<Longrightarrow> p = counter f us \<Longrightarrow>
     fst (merge_counter f u p) = counter f (us @ [u])"
  by (auto simp: merge_counter_def counter_def reported_snoc valid_counter_def list_of_option_def
      split: option.splits if_splits)

lemma merge_usage_fields:
  assumes "is_object u"
  shows "input_tokens (merge_usage u st) = fst (merge_counter ''input_tokens'' u (input_tokens st))"
    "output_tokens (merge_usage u st) = fst (merge_counter ''output_tokens'' u (output_tokens st))"
    "cache_creation_input_tokens (merge_usage u st) =
       fst (merge_counter ''cache_creation_input_tokens'' u (cache_creation_input_tokens st))"
    "cache_read_input_tokens (merge_usage u st) =
       fst (merge_counter ''cache_read_input_tokens'' u (cache_read_input_tokens st))"
    "invalid (merge_usage u st) \<longleftrightarrow> invalid st \<or> list_ex (\<lambda>f. \<not> list_all valid_counter (list_of_option (json_get f u))) usage_fields"
  using assms merge_counter_spec(1)
  by (auto simp: merge_usage_def usage_fields_def Let_def split: prod.splits) (metis snd_conv)+

lemma merged_usage:
  "(invalid (fold merge_usage us usage_state_default) \<longleftrightarrow> \<not> well_reported us) \<and>
   (well_reported us \<longrightarrow>
      input_tokens (fold merge_usage us usage_state_default) = counter ''input_tokens'' us \<and>
      output_tokens (fold merge_usage us usage_state_default) = counter ''output_tokens'' us \<and>
      cache_creation_input_tokens (fold merge_usage us usage_state_default) = counter ''cache_creation_input_tokens'' us \<and>
      cache_read_input_tokens (fold merge_usage us usage_state_default) = counter ''cache_read_input_tokens'' us)"
proof (induction us rule: rev_induct)
  case Nil
  then show ?case by (simp add: usage_state_default_def well_reported_def usage_fields_def reported_def map_filter_def counter_def)
next
  case (snoc u us)
  let ?st = "fold merge_usage us usage_state_default"
  have fold: "fold merge_usage (us @ [u]) usage_state_default = merge_usage u ?st" by simp
  have well: "well_reported (us @ [u]) \<longleftrightarrow> well_reported us \<and> is_object u \<and>
      list_all (\<lambda>f. list_all valid_counter (list_of_option (json_get f u))) usage_fields"
    by (auto simp: well_reported_def reported_snoc usage_fields_def)
  show ?case
  proof (cases "is_object u")
    case True
    note f = merge_usage_fields [OF True, of ?st]
    have "invalid (merge_usage u ?st) \<longleftrightarrow> \<not> well_reported (us @ [u])"
      using snoc f(5) True by (auto simp: well list_all_iff list_ex_iff)
    moreover have "fst (merge_counter g u (counter g us)) = counter g (us @ [u])"
      if "well_reported (us @ [u])" "g \<in> set usage_fields" for g
      using that merge_counter_spec(2) by (auto simp: well list_all_iff)
    ultimately show ?thesis
      unfolding fold using snoc f(1-4) well by (auto simp: usage_fields_def)
  next
    case False
    then show ?thesis unfolding fold using well by (simp add: merge_usage_def)
  qed
qed

lemma sum64:
  assumes "unat a + unat b < 2 ^ 64"
  shows "checked_add64 a b = Some (a + b)" "saturating_add a b = a + b" "unat (a + b) = unat a + unat b"
proof -
  show "unat (a + b) = unat a + unat b"
    using assms by (simp add: unat_plus_if')
  show "checked_add64 a b = Some (a + b)" "saturating_add a b = a + b"
    using assms by (simp_all add: checked_add64_def saturating_add_def)
qed

lemma saturate_u32_small: "unat v < 2 ^ 32 \<Longrightarrow> saturate_u32 v = word_of_nat (unat v)"
  by (simp add: saturate_u32_def)

lemma counter_bound:
  assumes "well_reported us" and "f \<in> set usage_fields" and "counter f us = Some v"
  shows "unat v < 2 ^ 32"
proof -
  have v: "reported f us \<noteq> []" "as_u64 (last (reported f us)) = Some v"
    using assms(3) by (auto simp: counter_def split: if_splits)
  then have "valid_counter (last (reported f us))"
    using assms(1,2) last_in_set by (auto simp: well_reported_def list_all_iff)
  then show ?thesis by (simp add: valid_counter_def v(2))
qed

definition tokens_of :: "string \<Rightarrow> json list \<Rightarrow> nat" where
  "tokens_of f us = (case counter f us of Some v \<Rightarrow> unat v | None \<Rightarrow> 0)"

lemma tokens_of_bound: "well_reported us \<Longrightarrow> f \<in> set usage_fields \<Longrightarrow> tokens_of f us < 2 ^ 32"
  using counter_bound by (auto simp: tokens_of_def split: option.split)

lemma tokens_of_word: "unat (unwrap_or 0 (counter f us)) = tokens_of f us"
  by (simp add: tokens_of_def unwrap_or_def split: option.split)

lemma build_usage_exact:
  assumes "unat (unwrap_or 0 i) + unat (unwrap_or 0 c) + unat (unwrap_or 0 r) + unat (unwrap_or 0 out) < 2 ^ 32"
  shows "build_usage_from_parts i out c r =
    \<lparr>prompt_tokens = word_of_nat (unat (unwrap_or 0 i) + unat (unwrap_or 0 c) + unat (unwrap_or 0 r)),
     completion_tokens = word_of_nat (unat (unwrap_or 0 out)),
     total_tokens = word_of_nat (unat (unwrap_or 0 i) + unat (unwrap_or 0 c) + unat (unwrap_or 0 r) + unat (unwrap_or 0 out)),
     prompt_details =
       (if c \<noteq> None \<or> r \<noteq> None
        then Some \<lparr>cached_tokens = map_option ucast r, cache_creation_tokens = map_option ucast c,
                   cache_read_tokens = map_option ucast r\<rparr>
        else None)\<rparr>"
proof -
  let ?i = "unwrap_or 0 i" and ?c = "unwrap_or 0 c" and ?r = "unwrap_or 0 r" and ?o = "unwrap_or 0 out"
  have 1: "saturating_add ?i ?c = ?i + ?c" "unat (?i + ?c) = unat ?i + unat ?c" using assms by (simp_all add: sum64)
  have 2: "saturating_add (?i + ?c) ?r = ?i + ?c + ?r" "unat (?i + ?c + ?r) = unat ?i + unat ?c + unat ?r"
    using assms by (simp_all add: sum64 1)
  have 3: "saturating_add (?i + ?c + ?r) ?o = ?i + ?c + ?r + ?o"
    "unat (?i + ?c + ?r + ?o) = unat ?i + unat ?c + unat ?r + unat ?o"
    using assms by (simp_all add: sum64 1 2)
  have details: "map_option saturate_u32 x = map_option ucast x" if "unat (unwrap_or 0 x) < 2 ^ 32" for x
    using that by (cases x) (simp_all add: saturate_u32_def unwrap_or_def)
  show ?thesis
    using assms details [of c] details [of r]
    by (simp add: build_usage_from_parts_def Let_def 1 2 3 saturate_u32_small del: of_nat_add)
qed

text \<open>C12. The token count a stream settles with is the provider's last word, or nothing.  Whatever
  usage objects the events of a message carry, the usage of its terminal event is present exactly if
  every reported counter is a 32-bit number, the terminal event itself reports the output, the input is
  known and the total fits 32 bits; then each counter is the last value reported for it, the
  prompt counts the input with both cache counters, the total is the exact sum, and no
  addition saturates or wraps.\<close>

theorem terminal_usage_exact:
  "terminal_usage terminal (fold merge_usage us usage_state_default) =
    (let n = (\<lambda>f. tokens_of f us);
         prompt = n ''input_tokens'' + n ''cache_creation_input_tokens'' + n ''cache_read_input_tokens'';
         creation = counter ''cache_creation_input_tokens'' us;
         read = counter ''cache_read_input_tokens'' us
     in if well_reported us \<and> Option.bind (json_get ''output_tokens'' terminal) as_u64 \<noteq> None \<and>
           counter ''input_tokens'' us \<noteq> None \<and> counter ''output_tokens'' us \<noteq> None \<and>
           prompt + n ''output_tokens'' < 2 ^ 32
        then Some \<lparr>prompt_tokens = word_of_nat prompt, completion_tokens = word_of_nat (n ''output_tokens''),
                   total_tokens = word_of_nat (prompt + n ''output_tokens''),
                   prompt_details =
                     (if creation \<noteq> None \<or> read \<noteq> None
                      then Some \<lparr>cached_tokens = map_option ucast read, cache_creation_tokens = map_option ucast creation,
                                 cache_read_tokens = map_option ucast read\<rparr>
                      else None)\<rparr>
        else None)"
proof (cases "well_reported us \<and> Option.bind (json_get ''output_tokens'' terminal) as_u64 \<noteq> None \<and>
    counter ''input_tokens'' us \<noteq> None \<and> counter ''output_tokens'' us \<noteq> None")
  case False
  let ?st = "fold merge_usage us usage_state_default"
  show ?thesis using False merged_usage [of us] by (auto simp: terminal_usage_def Let_def bind_eq_None_conv)
next
  case True
  let ?st = "fold merge_usage us usage_state_default"
  define i c r out where parts: "i = unwrap_or 0 (counter ''input_tokens'' us)"
    "c = unwrap_or 0 (counter ''cache_creation_input_tokens'' us)"
    "r = unwrap_or 0 (counter ''cache_read_input_tokens'' us)" "out = unwrap_or 0 (counter ''output_tokens'' us)"
  have u: "unat i = tokens_of ''input_tokens'' us" "unat c = tokens_of ''cache_creation_input_tokens'' us"
    "unat r = tokens_of ''cache_read_input_tokens'' us" "unat out = tokens_of ''output_tokens'' us"
    by (simp_all add: parts tokens_of_word)
  have small: "unat i < 2 ^ 32" "unat c < 2 ^ 32" "unat r < 2 ^ 32" "unat out < 2 ^ 32"
    unfolding u using True tokens_of_bound [of us "''input_tokens''"] tokens_of_bound [of us "''cache_creation_input_tokens''"]
      tokens_of_bound [of us "''cache_read_input_tokens''"] tokens_of_bound [of us "''output_tokens''"]
    by (simp_all add: usage_fields_def)
  have 1: "checked_add64 i c = Some (i + c)" "unat (i + c) = unat i + unat c" using small by (simp_all add: sum64)
  have 2: "checked_add64 (i + c) r = Some (i + c + r)" "unat (i + c + r) = unat i + unat c + unat r"
    using small by (simp_all add: sum64 1)
  have 3: "checked_add64 (i + c + r) out = Some (i + c + r + out)"
    "unat (i + c + r + out) = unat i + unat c + unat r + unat out"
    using small by (simp_all add: sum64 1 2)
  have st: "\<not> invalid ?st" "input_tokens ?st = Some i" "output_tokens ?st = Some out"
    "unwrap_or 0 (cache_creation_input_tokens ?st) = c" "unwrap_or 0 (cache_read_input_tokens ?st) = r"
    "cache_creation_input_tokens ?st = counter ''cache_creation_input_tokens'' us"
    "cache_read_input_tokens ?st = counter ''cache_read_input_tokens'' us"
    using True merged_usage [of us] by (auto simp: parts unwrap_or_def)
  have build: "build_usage_from_parts (Some i) (Some out) (counter ''cache_creation_input_tokens'' us) (counter ''cache_read_input_tokens'' us) = w"
    if "unat i + unat c + unat r + unat out < 2 ^ 32"
      "w = \<lparr>prompt_tokens = word_of_nat (unat i + unat c + unat r), completion_tokens = word_of_nat (unat out),
        total_tokens = word_of_nat (unat i + unat c + unat r + unat out),
        prompt_details =
          (if counter ''cache_creation_input_tokens'' us \<noteq> None \<or> counter ''cache_read_input_tokens'' us \<noteq> None
           then Some \<lparr>cached_tokens = map_option ucast (counter ''cache_read_input_tokens'' us),
                      cache_creation_tokens = map_option ucast (counter ''cache_creation_input_tokens'' us),
                      cache_read_tokens = map_option ucast (counter ''cache_read_input_tokens'' us)\<rparr>
           else None)\<rparr>" for w
    using build_usage_exact [of "Some i" "counter ''cache_creation_input_tokens'' us" "counter ''cache_read_input_tokens'' us" "Some out"] that
    by (simp add: parts unwrap_or_def [of 0 "Some x" for x] del: of_nat_add)
  have "terminal_usage terminal ?st =
      (if unat (i + c + r + out) < 2 ^ 32
       then Some (build_usage_from_parts (Some i) (Some out) (counter ''cache_creation_input_tokens'' us)
                    (counter ''cache_read_input_tokens'' us))
       else None)"
    using True unfolding terminal_usage_def st(4,5) unfolding st(2,3,6,7) by (auto simp: st(1) 1(1) 2(1) 3(1))
  then show ?thesis
    using True build [OF _ refl] unfolding 3(2) u by (simp add: Let_def del: of_nat_add)
qed

definition example_usages :: "json list" where
  "example_usages =
     [JObject [(ascii ''input_tokens'', JNumber (PosInt 5)), (ascii ''output_tokens'', JNumber (PosInt 1))],
      JObject [(ascii ''output_tokens'', JNumber (PosInt 7))]]"

lemma terminal_usage_exact_witness:
  "map_option total_tokens (terminal_usage (example_usages ! 1) (fold merge_usage example_usages usage_state_default)) = Some 12"
proof -
  have "well_reported example_usages" "tokens_of ''input_tokens'' example_usages = 5"
    "tokens_of ''output_tokens'' example_usages = 7" "tokens_of ''cache_creation_input_tokens'' example_usages = 0"
    "tokens_of ''cache_read_input_tokens'' example_usages = 0"
    "counter ''input_tokens'' example_usages \<noteq> None" "counter ''output_tokens'' example_usages \<noteq> None"
    "Option.bind (json_get ''output_tokens'' (example_usages ! 1)) as_u64 \<noteq> None"
    by (simp_all add: example_usages_def well_reported_def usage_fields_def reported_def map_filter_def json_get_def
        valid_counter_def as_u64_def counter_def tokens_of_def is_object_def)
  then show ?thesis using terminal_usage_exact [of "example_usages ! 1" example_usages] by (simp add: Let_def)
qed

end
