(* ===== verification/Ip_Address.thy ===== *)
theory Ip_Address
  imports Prelude
begin

section \<open>IP addresses\<close>

text \<open>
  What the program uses of the standard library's \<open>std::net\<close>: IPv4 and IPv6 addresses as 32 and
  128 bit words, their octets and segments, the classifications the SSRF guard asks for, and the
  parser of addresses, which reads dotted decimal quads without leading zeros and the groups of
  hexadecimal digits of IPv6 with one optional \<open>::\<close> and an optional embedded quad at the end.
\<close>

unbundle bit_operations_syntax

type_synonym ipv4 = "32 word"
type_synonym ipv6 = "128 word"

datatype ip_addr = V4 ipv4 | V6 ipv6

definition octet :: "nat \<Rightarrow> ipv4 \<Rightarrow> u8" where
  "octet i a = ucast (drop_bit (24 - 8 * i) a)"

definition octets :: "ipv4 \<Rightarrow> u8 list" where
  "octets a = map (\<lambda>i. octet i a) [0, 1, 2, 3]"

definition segment :: "nat \<Rightarrow> ipv6 \<Rightarrow> u16" where
  "segment i a = ucast (drop_bit (112 - 16 * i) a)"

definition segments :: "ipv6 \<Rightarrow> u16 list" where
  "segments a = map (\<lambda>i. segment i a) [0, 1, 2, 3, 4, 5, 6, 7]"

definition ipv4_of_octets :: "u8 \<Rightarrow> u8 \<Rightarrow> u8 \<Rightarrow> u8 \<Rightarrow> ipv4" where
  "ipv4_of_octets a b c d =
     ((ucast a * 256 + ucast b) * 256 + ucast c) * 256 + ucast d"

definition ipv6_of_segments :: "u16 list \<Rightarrow> ipv6" where
  "ipv6_of_segments gs = foldl (\<lambda>n g. n * 65536 + ucast g) 0 gs"

definition v4_is_loopback :: "ipv4 \<Rightarrow> bool" where
  "v4_is_loopback a \<longleftrightarrow> octet 0 a = 127"

definition v4_is_broadcast :: "ipv4 \<Rightarrow> bool" where
  "v4_is_broadcast a \<longleftrightarrow> a = max_value"

definition v4_is_multicast :: "ipv4 \<Rightarrow> bool" where
  "v4_is_multicast a \<longleftrightarrow> 224 \<le> octet 0 a \<and> octet 0 a \<le> 239"

definition v6_is_loopback :: "ipv6 \<Rightarrow> bool" where
  "v6_is_loopback a \<longleftrightarrow> a = 1"

definition v6_is_unspecified :: "ipv6 \<Rightarrow> bool" where
  "v6_is_unspecified a \<longleftrightarrow> a = 0"

definition v6_is_multicast :: "ipv6 \<Rightarrow> bool" where
  "v6_is_multicast a \<longleftrightarrow> drop_bit 8 (segment 0 a) = 0xFF"

definition to_ipv4_mapped :: "ipv6 \<Rightarrow> ipv4 option" where
  "to_ipv4_mapped a =
     (if take 6 (segments a) = [0, 0, 0, 0, 0, 0xFFFF] then Some (ucast a) else None)"

subsection \<open>Parsing\<close>

type_synonym 'a reader = "string \<Rightarrow> ('a \<times> string) option"

definition digit_of :: "nat \<Rightarrow> char \<Rightarrow> nat option" where
  "digit_of radix c =
     (let n = (of_char c :: nat);
          v = (if 48 \<le> n \<and> n \<le> 57 then Some (n - 48)
               else if 97 \<le> n \<and> n \<le> 122 then Some (n - 87)
               else if 65 \<le> n \<and> n \<le> 90 then Some (n - 55) else None)
      in case v of Some d \<Rightarrow> if d < radix then Some d else None | None \<Rightarrow> None)"

fun read_digits :: "nat \<Rightarrow> nat \<Rightarrow> nat \<Rightarrow> nat \<Rightarrow> string \<Rightarrow> (nat \<times> nat \<times> string) option" where
  "read_digits radix max_digits v n [] = Some (v, n, [])"
| "read_digits radix max_digits v n (c # cs) =
     (case digit_of radix c of
        None \<Rightarrow> Some (v, n, c # cs)
      | Some d \<Rightarrow>
          if Suc n > max_digits then None
          else read_digits radix max_digits (v * radix + d) (Suc n) cs)"

definition read_number :: "nat \<Rightarrow> nat \<Rightarrow> bool \<Rightarrow> nat \<Rightarrow> nat reader" where
  "read_number radix max_digits allow_zero_prefix bound s =
     (case read_digits radix max_digits 0 0 s of
        None \<Rightarrow> None
      | Some (v, n, rest) \<Rightarrow>
          if n = 0 then None
          else if \<not> allow_zero_prefix \<and> hd s = CHR ''0'' \<and> n > 1 then None
          else if v < bound then Some (v, rest) else None)"

definition read_given_char :: "char \<Rightarrow> unit reader" where
  "read_given_char c s = (case s of x # xs \<Rightarrow> if x = c then Some ((), xs) else None | [] \<Rightarrow> None)"

definition read_separator :: "char \<Rightarrow> nat \<Rightarrow> 'a reader \<Rightarrow> 'a reader" where
  "read_separator sep index inner s =
     (if index > 0
      then (case read_given_char sep s of Some (_, s') \<Rightarrow> inner s' | None \<Rightarrow> None)
      else inner s)"

fun read_quad :: "nat \<Rightarrow> nat \<Rightarrow> u8 list reader" where
  "read_quad 0 index s = Some ([], s)"
| "read_quad (Suc k) index s =
     (case read_separator CHR ''.'' index (read_number 10 3 False 256) s of
        None \<Rightarrow> None
      | Some (v, s') \<Rightarrow>
          (case read_quad k (Suc index) s' of
             None \<Rightarrow> None
           | Some (vs, s'') \<Rightarrow> Some (word_of_nat v # vs, s'')))"

definition read_ipv4_addr :: "ipv4 reader" where
  "read_ipv4_addr s =
     (case read_quad 4 0 s of
        Some ([a, b, c, d], rest) \<Rightarrow> Some (ipv4_of_octets a b c d, rest)
      | _ \<Rightarrow> None)"

text \<open>Up to \<open>k\<close> groups from index \<open>i\<close>; the flag says that they end in an embedded quad.\<close>

fun read_groups :: "nat \<Rightarrow> nat \<Rightarrow> string \<Rightarrow> u16 list \<times> bool \<times> string" where
  "read_groups 0 i s = ([], False, s)"
| "read_groups (Suc k) i s =
     (case (if k > 0 then read_separator CHR '':'' i read_ipv4_addr s else None) of
        Some (a, rest) \<Rightarrow> ([ucast (drop_bit 16 a), ucast a], True, rest)
      | None \<Rightarrow>
          (case read_separator CHR '':'' i (read_number 16 4 True 65536) s of
             None \<Rightarrow> ([], False, s)
           | Some (g, s') \<Rightarrow>
               (let (gs, quad, rest) = read_groups k (Suc i) s' in (word_of_nat g # gs, quad, rest))))"

definition read_ipv6_addr :: "ipv6 reader" where
  "read_ipv6_addr s =
     (let (head, head_ipv4, s1) = read_groups 8 0 s
      in if length head = 8 then Some (ipv6_of_segments head, s1)
         else if head_ipv4 then None
         else case read_given_char CHR '':'' s1 of
           None \<Rightarrow> None
         | Some (_, s2) \<Rightarrow>
             (case read_given_char CHR '':'' s2 of
                None \<Rightarrow> None
              | Some (_, s3) \<Rightarrow>
                  (let (tail, _, s4) = read_groups (8 - (length head + 1)) 0 s3
                   in Some (ipv6_of_segments
                        (head @ replicate (8 - length head - length tail) 0 @ tail), s4))))"

definition parse_ip_addr :: "string \<Rightarrow> ip_addr option" where
  "parse_ip_addr s =
     (case read_ipv4_addr s of
        Some (a, rest) \<Rightarrow> if rest = [] then Some (V4 a) else None
      | None \<Rightarrow>
          (case read_ipv6_addr s of
             Some (a, rest) \<Rightarrow> if rest = [] then Some (V6 a) else None
           | None \<Rightarrow> None))"

end
