(* ===== verification/Ip_Access.thy ===== *)
theory Ip_Access
  imports Ip_Address
begin

section \<open>IP access control\<close>

text \<open>
  Models \<^verbatim>\<open>src/core/ip_access\<close>: rules made of single addresses and CIDR ranges, the controller
  with its allow, block and always-allow lists, which change at run time, and the extraction of
  the client's address behind trusted proxies.  A lock is held for the whole of an operation, so
  an operation is a function of the controller's state.  Logging is not modelled.  Characters
  are code points below 256.
\<close>

subsection \<open>Rules\<close>

datatype ip_access_error = Config string | InvalidIp string | InvalidCidr string | AccessDenied string

datatype ip_access_mode = Allowlist | Blocklist | DisabledMode

record cidr_range =
  network :: ip_addr
  prefix_len :: u8
  mask_v4 :: "ipv4 option"
  mask_v6 :: "ipv6 option"

definition prefix_mask :: "nat \<Rightarrow> 'a::len word" where
  "prefix_mask p = (if p = 0 then 0 else push_bit (LENGTH('a) - p) (- 1))"

definition cidr_new :: "ip_addr \<Rightarrow> u8 \<Rightarrow> ip_access_error + cidr_range" where
  "cidr_new net p =
     (case net of
        V4 _ \<Rightarrow>
          (if p > 32 then Inl (InvalidCidr (''IPv4 prefix length '' @ decimal (unat p) @ '' exceeds 32''))
           else Inr \<lparr>network = net, prefix_len = p, mask_v4 = Some (prefix_mask (unat p)), mask_v6 = None\<rparr>)
      | V6 _ \<Rightarrow>
          (if p > 128 then Inl (InvalidCidr (''IPv6 prefix length '' @ decimal (unat p) @ '' exceeds 128''))
           else Inr \<lparr>network = net, prefix_len = p, mask_v4 = None, mask_v6 = Some (prefix_mask (unat p))\<rparr>))"

definition cidr_contains :: "cidr_range \<Rightarrow> ip_addr \<Rightarrow> bool" where
  "cidr_contains c ip =
     (case (network c, ip) of
        (V4 net, V4 a) \<Rightarrow> (case mask_v4 c of Some m \<Rightarrow> net AND m = a AND m | None \<Rightarrow> False)
      | (V6 net, V6 a) \<Rightarrow> (case mask_v6 c of Some m \<Rightarrow> net AND m = a AND m | None \<Rightarrow> False)
      | _ \<Rightarrow> False)"

fun split_on :: "char \<Rightarrow> string \<Rightarrow> string list" where
  "split_on sep [] = [[]]"
| "split_on sep (c # cs) =
     (if c = sep then [] # split_on sep cs
      else case split_on sep cs of part # parts \<Rightarrow> (c # part) # parts | [] \<Rightarrow> [[c]])"

definition white :: "char \<Rightarrow> bool" where
  "white c \<longleftrightarrow> (let n = (of_char c :: nat) in (9 \<le> n \<and> n \<le> 13) \<or> n = 32 \<or> n = 0x85 \<or> n = 0xA0)"

definition trim :: "string \<Rightarrow> string" where
  "trim s = rev (dropWhile white (rev (dropWhile white s)))"

definition parse_u8 :: "string \<Rightarrow> u8 option" where
  "parse_u8 s =
     (let ds = (case s of c # cs \<Rightarrow> if c = CHR ''+'' then cs else s | [] \<Rightarrow> []);
          v = foldl (\<lambda>n d. n * 10 + (of_char d - 48)) (0 :: nat) ds
      in if ds \<noteq> [] \<and> list_all (\<lambda>c. digit_of 10 c \<noteq> None) ds \<and> v < 256 then Some (word_of_nat v) else None)"

definition cidr_from_str :: "string \<Rightarrow> ip_access_error + cidr_range" where
  "cidr_from_str s =
     (case split_on CHR ''/'' s of
        [net, len] \<Rightarrow>
          (case parse_ip_addr net of
             None \<Rightarrow> Inl (InvalidCidr (''Invalid network address: '' @ net))
           | Some a \<Rightarrow>
               (case parse_u8 len of
                  None \<Rightarrow> Inl (InvalidCidr (''Invalid prefix length: '' @ len))
                | Some p \<Rightarrow> cidr_new a p))
      | _ \<Rightarrow> Inl (InvalidCidr (''Invalid CIDR format: '' @ s)))"

record ip_rule =
  rule_value :: string
  rule_ip :: "ip_addr option"
  rule_cidr :: "cidr_range option"
  rule_description :: "string option"
  rule_enabled :: bool

definition rule_parse :: "string \<Rightarrow> ip_access_error + (ip_addr option \<times> cidr_range option)" where
  "rule_parse v0 =
     (let v = trim v0
      in if CHR ''/'' \<in> set v then
           (case cidr_from_str v of Inl e \<Rightarrow> Inl e | Inr c \<Rightarrow> Inr (None, Some c))
         else
           (case parse_ip_addr v of None \<Rightarrow> Inl (InvalidIp v) | Some a \<Rightarrow> Inr (Some a, None)))"

definition rule_new :: "string \<Rightarrow> ip_access_error + ip_rule" where
  "rule_new v =
     (case rule_parse v of
        Inl e \<Rightarrow> Inl e
      | Inr (ip, cidr) \<Rightarrow>
          Inr \<lparr>rule_value = v, rule_ip = ip, rule_cidr = cidr, rule_description = None, rule_enabled = True\<rparr>)"

definition rule_with_description :: "ip_rule \<Rightarrow> string \<Rightarrow> ip_rule" where
  "rule_with_description r d = r\<lparr>rule_description := Some d\<rparr>"

definition rule_matches :: "ip_rule \<Rightarrow> ip_addr \<Rightarrow> bool" where
  "rule_matches r ip =
     (if \<not> rule_enabled r then False
      else case rule_ip r of
        Some a \<Rightarrow> a = ip
      | None \<Rightarrow> (case rule_cidr r of Some c \<Rightarrow> cidr_contains c ip | None \<Rightarrow> False))"

subsection \<open>Configuration\<close>

record ip_rule_config =
  cfg_value :: string
  cfg_description :: "string option"
  cfg_enabled :: bool

record ip_access_config =
  ia_enabled :: bool
  ia_mode :: ip_access_mode
  ia_allowlist :: "ip_rule_config list"
  ia_blocklist :: "ip_rule_config list"
  ia_always_allow :: "string list"
  exclude_paths :: "string list"
  trust_proxy :: bool
  max_proxy_hops :: nat
  blocked_message :: string
  blocked_status :: u16
  log_blocked :: bool

definition ip_access_config_default :: ip_access_config where
  "ip_access_config_default =
     \<lparr>ia_enabled = False, ia_mode = Blocklist, ia_allowlist = [], ia_blocklist = [], ia_always_allow = [],
      exclude_paths = [''/health'', ''/ready'', ''/live''], trust_proxy = False, max_proxy_hops = 1,
      blocked_message = ''Access denied'', blocked_status = 403, log_blocked = True\<rparr>"

definition starts_with :: "string \<Rightarrow> string \<Rightarrow> bool" where
  "starts_with s p \<longleftrightarrow> take (length p) s = p"

definition is_path_excluded :: "ip_access_config \<Rightarrow> string \<Rightarrow> bool" where
  "is_path_excluded cfg path = list_ex (\<lambda>p. starts_with path p) (exclude_paths cfg)"

fun collect_rules :: "('a \<Rightarrow> ip_access_error + ip_rule) \<Rightarrow> 'a list \<Rightarrow> ip_access_error + ip_rule list" where
  "collect_rules f [] = Inr []"
| "collect_rules f (x # xs) =
     (case f x of
        Inl e \<Rightarrow> Inl e
      | Inr r \<Rightarrow> (case collect_rules f xs of Inl e \<Rightarrow> Inl e | Inr rs \<Rightarrow> Inr (r # rs)))"

definition configured_rule :: "ip_rule_config \<Rightarrow> ip_access_error + ip_rule" where
  "configured_rule c =
     (case rule_new (cfg_value c) of
        Inl e \<Rightarrow> Inl e
      | Inr r \<Rightarrow> Inr (case cfg_description c of Some d \<Rightarrow> rule_with_description r d | None \<Rightarrow> r))"

definition build_allowlist_rules :: "ip_access_config \<Rightarrow> ip_access_error + ip_rule list" where
  "build_allowlist_rules cfg = collect_rules configured_rule (filter cfg_enabled (ia_allowlist cfg))"

definition build_blocklist_rules :: "ip_access_config \<Rightarrow> ip_access_error + ip_rule list" where
  "build_blocklist_rules cfg = collect_rules configured_rule (filter cfg_enabled (ia_blocklist cfg))"

definition build_always_allow_rules :: "ip_access_config \<Rightarrow> ip_access_error + ip_rule list" where
  "build_always_allow_rules cfg = collect_rules rule_new (ia_always_allow cfg)"

definition ip_access_validate :: "ip_access_config \<Rightarrow> string + unit" where
  "ip_access_validate cfg =
     (if ia_enabled cfg \<and> ia_mode cfg = Allowlist \<and> ia_allowlist cfg = []
      then Inl ''Allowlist mode enabled but no IPs in allowlist'' else Inr ())"

subsection \<open>The controller\<close>

record ip_access_control =
  ia_config :: ip_access_config
  allowlist :: "ip_rule list"
  blocklist :: "ip_rule list"
  always_allow :: "ip_rule list"

definition ip_access_new :: "ip_access_config \<Rightarrow> ip_access_error + ip_access_control" where
  "ip_access_new cfg =
     (case build_allowlist_rules cfg of
        Inl e \<Rightarrow> Inl e
      | Inr allow \<Rightarrow>
          (case build_blocklist_rules cfg of
             Inl e \<Rightarrow> Inl e
           | Inr block \<Rightarrow>
               (case build_always_allow_rules cfg of
                  Inl e \<Rightarrow> Inl e
                | Inr always \<Rightarrow>
                    Inr \<lparr>ia_config = cfg, allowlist = allow, blocklist = block, always_allow = always\<rparr>)))"

definition ip_access_disabled :: ip_access_control where
  "ip_access_disabled =
     \<lparr>ia_config = ip_access_config_default, allowlist = [], blocklist = [], always_allow = []\<rparr>"

definition is_enabled :: "ip_access_control \<Rightarrow> bool" where
  "is_enabled s \<longleftrightarrow> ia_enabled (ia_config s) \<and> ia_mode (ia_config s) \<noteq> DisabledMode"

fun any_match :: "ip_rule list \<Rightarrow> ip_addr \<Rightarrow> bool" where
  "any_match [] ip = False"
| "any_match (r # rs) ip = (if rule_matches r ip then True else any_match rs ip)"

definition check_allowlist :: "ip_access_control \<Rightarrow> ip_addr \<Rightarrow> bool" where
  "check_allowlist s ip = any_match (allowlist s) ip"

definition check_blocklist :: "ip_access_control \<Rightarrow> ip_addr \<Rightarrow> bool" where
  "check_blocklist s ip = (\<not> any_match (blocklist s) ip)"

definition is_ip_allowed :: "ip_access_control \<Rightarrow> ip_addr \<Rightarrow> bool" where
  "is_ip_allowed s ip =
     (if \<not> is_enabled s then True
      else if any_match (always_allow s) ip then True
      else case ia_mode (ia_config s) of
        Allowlist \<Rightarrow> check_allowlist s ip
      | Blocklist \<Rightarrow> check_blocklist s ip
      | DisabledMode \<Rightarrow> True)"

definition is_allowed :: "ip_access_control \<Rightarrow> string \<Rightarrow> bool" where
  "is_allowed s text =
     (if \<not> is_enabled s then True
      else case parse_ip_addr text of Some ip \<Rightarrow> is_ip_allowed s ip | None \<Rightarrow> False)"

definition check_access :: "ip_access_control \<Rightarrow> string \<Rightarrow> ip_access_error + unit" where
  "check_access s text = (if is_allowed s text then Inr () else Inl (AccessDenied text))"

definition add_to_allowlist :: "ip_access_control \<Rightarrow> string \<Rightarrow> ip_access_error + ip_access_control" where
  "add_to_allowlist s v =
     (case rule_new v of Inl e \<Rightarrow> Inl e | Inr r \<Rightarrow> Inr (s\<lparr>allowlist := allowlist s @ [r]\<rparr>))"

definition add_to_blocklist :: "ip_access_control \<Rightarrow> string \<Rightarrow> ip_access_error + ip_access_control" where
  "add_to_blocklist s v =
     (case rule_new v of Inl e \<Rightarrow> Inl e | Inr r \<Rightarrow> Inr (s\<lparr>blocklist := blocklist s @ [r]\<rparr>))"

definition remove_from_allowlist :: "ip_access_control \<Rightarrow> string \<Rightarrow> bool \<times> ip_access_control" where
  "remove_from_allowlist s v =
     (let kept = filter (\<lambda>r. rule_value r \<noteq> v) (allowlist s)
      in (length kept < length (allowlist s), s\<lparr>allowlist := kept\<rparr>))"

definition remove_from_blocklist :: "ip_access_control \<Rightarrow> string \<Rightarrow> bool \<times> ip_access_control" where
  "remove_from_blocklist s v =
     (let kept = filter (\<lambda>r. rule_value r \<noteq> v) (blocklist s)
      in (length kept < length (blocklist s), s\<lparr>blocklist := kept\<rparr>))"

definition extract_client_ip :: "ip_access_control \<Rightarrow> string \<Rightarrow> string option \<Rightarrow> string" where
  "extract_client_ip s remote forwarded =
     (if \<not> trust_proxy (ia_config s) then remote
      else case forwarded of
        None \<Rightarrow> remote
      | Some xff \<Rightarrow>
          (let ips = map trim (split_on CHR '','' xff);
               hop = length ips - max_proxy_hops (ia_config s)
           in if hop < length ips then ips ! hop else remote))"

definition get_allowlist :: "ip_access_control \<Rightarrow> string list" where
  "get_allowlist s = map rule_value (allowlist s)"

definition get_blocklist :: "ip_access_control \<Rightarrow> string list" where
  "get_blocklist s = map rule_value (blocklist s)"

text \<open>The request filter: a path that is excluded, or a controller that is not enabled, lets
  every request through to the service (\<open>None\<close>); a refused request is answered with the configured
  status, 403 if that is not a status code, and the configured message.\<close>

definition refusal_status :: "ip_access_config \<Rightarrow> u16" where
  "refusal_status cfg =
     (if 100 \<le> blocked_status cfg \<and> blocked_status cfg \<le> 999 then blocked_status cfg else 403)"

definition middleware_call ::
  "ip_access_control \<Rightarrow> string \<Rightarrow> string option \<Rightarrow> string option \<Rightarrow> (u16 \<times> string) option" where
  "middleware_call s path peer forwarded =
     (if is_path_excluded (ia_config s) path then None
      else if \<not> is_enabled s then None
      else
        let remote = (case peer of Some p \<Rightarrow> p | None \<Rightarrow> ''unknown'');
            client = extract_client_ip s remote forwarded
        in if \<not> is_allowed s client then Some (refusal_status (ia_config s), blocked_message (ia_config s))
           else None)"

subsection \<open>A CIDR range is an interval of addresses\<close>

lemma and_prefix_mask:
  fixes x :: "'a::len word"
  assumes "p \<le> LENGTH('a)"
  shows "x AND prefix_mask p = push_bit (LENGTH('a) - p) (drop_bit (LENGTH('a) - p) x)"
proof (cases "p = 0")
  case True
  have "drop_bit LENGTH('a) x = 0"
    by (rule bit_eqI) (auto simp: bit_drop_bit_eq dest: bit_imp_le_length)
  then show ?thesis using True by (simp add: prefix_mask_def)
next
  case False
  then show ?thesis
    by (intro bit_eqI)
      (auto simp: prefix_mask_def bit_and_iff bit_push_bit_iff bit_drop_bit_eq bit_not_iff bit_mask_iff)
qed

lemma push_drop_eq_iff:
  fixes x y :: "'a::len word"
  shows "push_bit k (drop_bit k x) = push_bit k (drop_bit k y) \<longleftrightarrow> unat x div 2 ^ k = unat y div 2 ^ k"
proof -
  have quotient: "unat (drop_bit k z) = unat z div 2 ^ k" for z :: "'a word"
    by (rule trans [OF unat_drop_bit_eq drop_bit_eq_div])
  have "drop_bit k x = drop_bit k y" if eq: "push_bit k (drop_bit k x) = push_bit k (drop_bit k y)"
  proof (rule bit_eqI)
    fix n
    show "bit (drop_bit k x) n = bit (drop_bit k y) n"
    proof (cases "k + n < LENGTH('a)")
      case True
      from eq have "bit (push_bit k (drop_bit k x)) (k + n) = bit (push_bit k (drop_bit k y)) (k + n)" by simp
      then show ?thesis using True by (simp add: bit_push_bit_iff)
    next
      case False
      then show ?thesis by (auto simp: bit_drop_bit_eq dest: bit_imp_le_length)
    qed
  qed
  then show ?thesis by (metis quotient unsigned_word_eqI)
qed

lemma div_eq_iff_interval:
  fixes m n :: nat
  shows "m div 2 ^ k = n div 2 ^ k \<longleftrightarrow> m - m mod 2 ^ k \<le> n \<and> n < m - m mod 2 ^ k + 2 ^ k"
proof -
  have "m - m mod 2 ^ k = m div 2 ^ k * 2 ^ k" by (simp add: minus_mod_eq_div_mult)
  moreover have "(n div 2 ^ k = q) = (q * 2 ^ k \<le> n \<and> n < q * 2 ^ k + 2 ^ k)" for q
    by (metis add.commute div_nat_eqI dividend_less_times_div mult.commute mult_Suc_right
        pos2 times_div_less_eq_dividend zero_less_power)
  ultimately show ?thesis by (metis (no_types, lifting))
qed

text \<open>The block of \<open>2\<close> to the power of the host bits addresses that starts at the network's address with
  its host bits cleared, and the addresses that a network and a prefix length denote.\<close>

definition address_block :: "nat \<Rightarrow> 'a::len word \<Rightarrow> 'a word set" where
  "address_block p net =
     (let size = 2 ^ (LENGTH('a) - p); lo = unat net - unat net mod size
      in {a. lo \<le> unat a \<and> unat a < lo + size})"

definition cidr_addresses :: "ip_addr \<Rightarrow> nat \<Rightarrow> ip_addr set" where
  "cidr_addresses net p = (case net of V4 n \<Rightarrow> V4 ` address_block p n | V6 n \<Rightarrow> V6 ` address_block p n)"

definition address_width :: "ip_addr \<Rightarrow> nat" where
  "address_width a = (case a of V4 _ \<Rightarrow> 32 | V6 _ \<Rightarrow> 128)"

lemma masked_eq_iff_block:
  fixes net a :: "'a::len word"
  assumes "p \<le> LENGTH('a)"
  shows "net AND prefix_mask p = a AND prefix_mask p \<longleftrightarrow> a \<in> address_block p net"
  using div_eq_iff_interval [of "unat net" "LENGTH('a) - p" "unat a"]
  by (simp only: and_prefix_mask [OF assms] push_drop_eq_iff address_block_def Let_def mem_Collect_eq)

definition cidr_wf :: "cidr_range \<Rightarrow> bool" where
  "cidr_wf c \<longleftrightarrow>
     unat (prefix_len c) \<le> address_width (network c) \<and>
     (case network c of
        V4 _ \<Rightarrow> mask_v4 c = Some (prefix_mask (unat (prefix_len c))) \<and> mask_v6 c = None
      | V6 _ \<Rightarrow> mask_v4 c = None \<and> mask_v6 c = Some (prefix_mask (unat (prefix_len c))))"

lemma cidr_contains_iff:
  assumes "cidr_wf c"
  shows "cidr_contains c ip \<longleftrightarrow> ip \<in> cidr_addresses (network c) (unat (prefix_len c))"
  using assms masked_eq_iff_block [where 'a = 32] masked_eq_iff_block [where 'a = 128]
  by (auto simp: cidr_wf_def cidr_contains_def cidr_addresses_def address_width_def split: ip_addr.splits)

lemma cidr_new_cases:
  "cidr_new net p = Inr c \<longleftrightarrow> cidr_wf c \<and> network c = net \<and> prefix_len c = p"
  by (cases c) (auto simp: cidr_new_def cidr_wf_def address_width_def word_less_nat_alt word_le_nat_alt not_less
      split: ip_addr.splits)

text \<open>C19. A CIDR rule means an interval of addresses.  Building a range fails exactly when the prefix
  is longer than the address is wide (32 bits for IPv4, 128 for IPv6).  Otherwise the masks that the
  constructor precomputes make the membership test accept exactly the block of addresses of the same
  family that starts at the network's address with its host bits cleared and holds two to the power of the
  host bits addresses; the prefix length 0, for which the source avoids a shift by the whole
  width, is included.\<close>

theorem cidr_range_is_interval:
  "(\<forall>c. cidr_new net p = Inr c \<longrightarrow> (\<forall>ip. cidr_contains c ip \<longleftrightarrow> ip \<in> cidr_addresses net (unat p)))
   \<and> ((\<exists>c. cidr_new net p = Inr c) \<longleftrightarrow> unat p \<le> address_width net)"
proof (intro conjI allI impI)
  show "cidr_contains c ip \<longleftrightarrow> ip \<in> cidr_addresses net (unat p)" if "cidr_new net p = Inr c" for c ip
    using that cidr_contains_iff by (auto simp: cidr_new_cases)
  show "(\<exists>c. cidr_new net p = Inr c) \<longleftrightarrow> unat p \<le> address_width net"
    by (auto simp: cidr_new_def address_width_def word_less_nat_alt word_le_nat_alt not_less split: ip_addr.splits)
qed

lemma cidr_range_is_interval_witness:
  "(\<exists>c. cidr_new (V4 0x0A010203) 9 = Inr c \<and> cidr_contains c (V4 0x0A7FFFFF) \<and> \<not> cidr_contains c (V4 0x0A800000))
   \<and> (\<nexists>c. cidr_new (V4 0x0A010203) 33 = Inr c)"
proof -
  from cidr_range_is_interval [of "V4 0x0A010203" 9] obtain c where c: "cidr_new (V4 0x0A010203) 9 = Inr c"
    by (auto simp: address_width_def)
  moreover from cidr_range_is_interval [of "V4 0x0A010203" 9] c
  have "cidr_contains c (V4 0x0A7FFFFF) \<and> \<not> cidr_contains c (V4 0x0A800000)"
    by (auto simp: cidr_addresses_def address_block_def Let_def)
  moreover have "\<nexists>c. cidr_new (V4 0x0A010203) 33 = Inr c"
    using cidr_range_is_interval [of "V4 0x0A010203" 33] by (auto simp: address_width_def)
  ultimately show ?thesis by blast
qed

subsection \<open>The lists as sets of addresses\<close>

definition rule_addresses :: "ip_rule \<Rightarrow> ip_addr set" where
  "rule_addresses r =
     (if \<not> rule_enabled r then {}
      else case rule_ip r of
        Some a \<Rightarrow> {a}
      | None \<Rightarrow> (case rule_cidr r of Some c \<Rightarrow> cidr_addresses (network c) (unat (prefix_len c)) | None \<Rightarrow> {}))"

text \<open>A rule holds an address or a range, never both; a range has the mask of its family and prefix.\<close>

definition rule_wf :: "ip_rule \<Rightarrow> bool" where
  "rule_wf r \<longleftrightarrow>
     (rule_ip r = None \<longleftrightarrow> rule_cidr r \<noteq> None) \<and> (\<forall>c. rule_cidr r = Some c \<longrightarrow> cidr_wf c)"

definition access_wf :: "ip_access_control \<Rightarrow> bool" where
  "access_wf s \<longleftrightarrow> (\<forall>r \<in> set (allowlist s) \<union> set (blocklist s) \<union> set (always_allow s). rule_wf r \<and> rule_enabled r)"

lemma cidr_from_str_wf: "cidr_from_str v = Inr c \<Longrightarrow> cidr_wf c"
  by (auto simp: cidr_from_str_def cidr_new_cases split: list.splits option.splits)

lemma rule_new_wf: "rule_new v = Inr r \<Longrightarrow> rule_wf r \<and> rule_enabled r \<and> rule_value r = v"
  by (auto simp: rule_new_def rule_parse_def rule_wf_def Let_def
      intro: cidr_from_str_wf split: sum.splits option.splits if_splits)

lemma configured_rule_wf: "configured_rule v = Inr r \<Longrightarrow> rule_wf r \<and> rule_enabled r"
  by (auto simp: configured_rule_def rule_with_description_def rule_wf_def
      dest!: rule_new_wf split: sum.splits option.splits)

lemma collect_rules_all:
  assumes "collect_rules f xs = Inr rs" and "\<And>x r. f x = Inr r \<Longrightarrow> P r"
  shows "\<forall>r \<in> set rs. P r"
  using assms(1) by (induction xs arbitrary: rs) (auto split: sum.splits dest: assms(2))

lemma ip_access_new_wf:
  assumes "ip_access_new cfg = Inr s"
  shows "access_wf s"
proof -
  let ?P = "\<lambda>r. rule_wf r \<and> rule_enabled r"
  from assms obtain allow block always where lists:
    "build_allowlist_rules cfg = Inr allow" "build_blocklist_rules cfg = Inr block"
    "build_always_allow_rules cfg = Inr always"
    and s: "s = \<lparr>ia_config = cfg, allowlist = allow, blocklist = block, always_allow = always\<rparr>"
    by (auto simp: ip_access_new_def split: sum.splits)
  have "\<forall>r \<in> set allow. ?P r"
    using lists(1) configured_rule_wf unfolding build_allowlist_rules_def by (rule collect_rules_all)
  moreover have "\<forall>r \<in> set block. ?P r"
    using lists(2) configured_rule_wf unfolding build_blocklist_rules_def by (rule collect_rules_all)
  moreover have "\<forall>r \<in> set always. ?P r"
    using lists(3) unfolding build_always_allow_rules_def by (rule collect_rules_all) (auto dest: rule_new_wf)
  ultimately show ?thesis by (auto simp: access_wf_def s)
qed

text \<open>The controllers the program can hold: one built from a configuration, changed by the run-time
  operations in any order.\<close>

inductive access_reachable :: "ip_access_control \<Rightarrow> bool" where
  configured: "ip_access_new cfg = Inr s \<Longrightarrow> access_reachable s"
| disabled: "access_reachable ip_access_disabled"
| allow_added: "access_reachable s \<Longrightarrow> add_to_allowlist s v = Inr s' \<Longrightarrow> access_reachable s'"
| block_added: "access_reachable s \<Longrightarrow> add_to_blocklist s v = Inr s' \<Longrightarrow> access_reachable s'"
| allow_removed: "access_reachable s \<Longrightarrow> remove_from_allowlist s v = (b, s') \<Longrightarrow> access_reachable s'"
| block_removed: "access_reachable s \<Longrightarrow> remove_from_blocklist s v = (b, s') \<Longrightarrow> access_reachable s'"

lemmas list_update_defs =
  add_to_allowlist_def add_to_blocklist_def remove_from_allowlist_def remove_from_blocklist_def Let_def

lemma access_reachable_wf: "access_reachable s \<Longrightarrow> access_wf s"
proof (induction rule: access_reachable.induct)
  case (configured cfg s)
  then show ?case by (rule ip_access_new_wf)
next
  case disabled
  show ?case by (simp add: access_wf_def ip_access_disabled_def)
qed (auto simp: access_wf_def list_update_defs dest!: rule_new_wf split: sum.splits)

lemma rule_matches_iff: "rule_wf r \<Longrightarrow> rule_matches r ip \<longleftrightarrow> ip \<in> rule_addresses r"
  by (auto simp: rule_matches_def rule_addresses_def rule_wf_def cidr_contains_iff split: option.splits)

lemma any_match_iff: "\<forall>r \<in> set rs. rule_wf r \<Longrightarrow> any_match rs ip \<longleftrightarrow> (\<exists>r \<in> set rs. ip \<in> rule_addresses r)"
  by (induction rs) (auto simp: rule_matches_iff)

definition listed :: "ip_rule list \<Rightarrow> ip_addr set" where
  "listed rs = (\<Union>r \<in> set rs. rule_addresses r)"

definition admitted :: "ip_access_mode \<Rightarrow> ip_addr set \<Rightarrow> ip_addr set \<Rightarrow> ip_addr set \<Rightarrow> ip_addr set" where
  "admitted mode allow block always =
     (case mode of DisabledMode \<Rightarrow> UNIV | Allowlist \<Rightarrow> allow \<union> always | Blocklist \<Rightarrow> - block \<union> always)"

definition effective_mode :: "ip_access_control \<Rightarrow> ip_access_mode" where
  "effective_mode s = (if ia_enabled (ia_config s) then ia_mode (ia_config s) else DisabledMode)"

lemma is_ip_allowed_iff:
  assumes "access_wf s"
  shows "is_ip_allowed s ip \<longleftrightarrow>
    ip \<in> admitted (effective_mode s) (listed (allowlist s)) (listed (blocklist s)) (listed (always_allow s))"
proof -
  have "any_match rs ip \<longleftrightarrow> ip \<in> listed rs" if "set rs \<subseteq> set (allowlist s) \<union> set (blocklist s) \<union> set (always_allow s)" for rs
    using any_match_iff [of rs ip] that assms by (auto simp: access_wf_def listed_def)
  then have "any_match (allowlist s) ip \<longleftrightarrow> ip \<in> listed (allowlist s)"
    "any_match (blocklist s) ip \<longleftrightarrow> ip \<in> listed (blocklist s)"
    "any_match (always_allow s) ip \<longleftrightarrow> ip \<in> listed (always_allow s)" by auto
  then show ?thesis
    by (cases "ia_mode (ia_config s)")
      (auto simp: is_ip_allowed_def is_enabled_def admitted_def effective_mode_def check_allowlist_def check_blocklist_def)
qed

text \<open>C20. Every rule the controller ever holds is well formed.  Whatever configuration it is built from
  and whatever sequence of run-time additions and removals follows, each rule of its three lists is
  enabled, holds either one address or one range, and a range has a prefix no longer than its
  family's width and the one mask that belongs to it, so that no membership test falls through to
  the missing-mask branch.\<close>

theorem ip_rules_well_formed:
  assumes "access_reachable s" and "r \<in> set (allowlist s) \<union> set (blocklist s) \<union> set (always_allow s)"
  shows "rule_enabled r \<and> (rule_ip r = None \<longleftrightarrow> rule_cidr r \<noteq> None) \<and>
    (\<forall>c. rule_cidr r = Some c \<longrightarrow> cidr_wf c)"
  using access_reachable_wf [OF assms(1)] assms(2) by (auto simp: access_wf_def rule_wf_def)

definition example_config :: ip_access_config where
  "example_config =
     ip_access_config_default
       \<lparr>ia_enabled := True, ia_always_allow := [''10.0.0.7''], trust_proxy := True, max_proxy_hops := 2\<rparr>"

definition example_control :: ip_access_control where
  "example_control =
     \<lparr>ia_config = example_config, allowlist = [], blocklist = [],
      always_allow = [\<lparr>rule_value = ''10.0.0.7'', rule_ip = Some (V4 0x0A000007), rule_cidr = None,
                       rule_description = None, rule_enabled = True\<rparr>]\<rparr>"

lemma parse_example:
  "parse_ip_addr ''10.0.0.7'' = Some (V4 0x0A000007)"
  "parse_ip_addr ''10.0.0.0'' = Some (V4 0x0A000000)"
  by code_simp+

lemma parse_unknown: "parse_ip_addr ''unknown'' = None"
proof -
  have numbers: "read_number 10 3 False 256 ''unknown'' = None" "read_number 16 4 True 65536 ''unknown'' = None"
    by (simp_all add: read_number_def digit_of_def)
  have quad: "read_ipv4_addr ''unknown'' = None"
    using read_quad.simps(2) [of 3 0 "''unknown''"] numbers by (simp add: read_ipv4_addr_def read_separator_def)
  have "read_groups 8 0 ''unknown'' = ([], False, ''unknown'')"
    using read_groups.simps(2) [of 7 0 "''unknown''"] quad numbers by (simp add: read_separator_def)
  then show ?thesis using quad by (simp add: parse_ip_addr_def read_ipv6_addr_def read_given_char_def)
qed

lemma example_new: "ip_access_new example_config = Inr example_control"
  by code_simp

lemma example_reachable: "access_reachable example_control"
  using example_new by (rule configured)

lemma ip_rules_well_formed_witness:
  "rule_enabled (hd (always_allow example_control)) \<and>
   (rule_ip (hd (always_allow example_control)) = None \<longleftrightarrow> rule_cidr (hd (always_allow example_control)) \<noteq> None)"
  using ip_rules_well_formed [OF example_reachable, of "hd (always_allow example_control)"]
  by (simp add: example_control_def)

text \<open>C17. The request filter decides by sets of addresses.  For every controller the program can hold,
  while the control is active and the path is not excluded, a request passes exactly if the text
  taken as its client's address parses and the address is in the admitted set: listed or always
  allowed in allowlist mode, not blocked or always allowed in blocklist mode.  In particular an
  address that does not parse is refused, and the always-allow list wins over the block list.\<close>

theorem middleware_admits_exactly:
  assumes "access_reachable s" and "effective_mode s \<noteq> DisabledMode" and "\<not> is_path_excluded (ia_config s) path"
  shows "middleware_call s path peer forwarded = None \<longleftrightarrow>
    (\<exists>ip. parse_ip_addr (extract_client_ip s (case peer of Some p \<Rightarrow> p | None \<Rightarrow> ''unknown'') forwarded) = Some ip \<and>
          ip \<in> admitted (effective_mode s) (listed (allowlist s)) (listed (blocklist s)) (listed (always_allow s)))"
proof -
  have "is_enabled s" using assms(2) by (auto simp: effective_mode_def is_enabled_def split: if_splits)
  then show ?thesis
    using assms(3) is_ip_allowed_iff [OF access_reachable_wf [OF assms(1)]]
    by (auto simp: middleware_call_def is_allowed_def Let_def split: option.split)
qed

lemma middleware_admits_exactly_witness:
  "middleware_call example_control ''/v1'' (Some ''10.0.0.7'') None = None \<and>
   middleware_call example_control ''/v1'' None None \<noteq> None"
proof -
  have prem: "effective_mode example_control \<noteq> DisabledMode" "\<not> is_path_excluded (ia_config example_control) ''/v1''"
    by code_simp+
  have remote: "extract_client_ip example_control a None = a" for a
    by (simp add: extract_client_ip_def)
  have "V4 0x0A000007 \<in> admitted (effective_mode example_control) (listed (allowlist example_control))
      (listed (blocklist example_control)) (listed (always_allow example_control))"
    by (simp add: admitted_def listed_def example_control_def effective_mode_def example_config_def
        ip_access_config_default_def)
  then show ?thesis
    using middleware_admits_exactly [OF example_reachable prem, of "Some ''10.0.0.7''" None]
      middleware_admits_exactly [OF example_reachable prem, of None None]
    by (simp add: remote parse_example(1) parse_unknown)
qed

text \<open>A run-time block takes effect at once, for exactly the addresses it names, and can be taken
  back.  Adding a rule text to the block list of an active controller in blocklist mode removes from the
  admitted addresses those of the rule that are not always allowed, and no others.  If the text was not
  listed before, removing it reports success and gives back the previous controller.\<close>

theorem block_takes_effect:
  assumes "access_reachable s" and "effective_mode s = Blocklist"
    and "rule_new v = Inr r" and "add_to_blocklist s v = Inr s'"
  shows "{ip. is_ip_allowed s' ip} = {ip. is_ip_allowed s ip} - (rule_addresses r - listed (always_allow s)) \<and>
    (v \<notin> rule_value ` set (blocklist s) \<longrightarrow> remove_from_blocklist s' v = (True, s))"
proof (intro conjI impI)
  have s': "s' = s\<lparr>blocklist := blocklist s @ [r]\<rparr>" using assms(3,4) by (simp add: add_to_blocklist_def)
  have wf: "access_wf s" "access_wf s'"
    using assms(1,4) by (auto intro: access_reachable_wf block_added)
  have mode: "effective_mode s' = Blocklist" using assms(2) by (auto simp: s' effective_mode_def split: if_splits)
  show "{ip. is_ip_allowed s' ip} = {ip. is_ip_allowed s ip} - (rule_addresses r - listed (always_allow s))"
    by (auto simp: is_ip_allowed_iff [OF wf(1)] is_ip_allowed_iff [OF wf(2)] mode assms(2) admitted_def)
      (auto simp: s' listed_def)
  assume fresh: "v \<notin> rule_value ` set (blocklist s)"
  have "filter (\<lambda>r. rule_value r \<noteq> v) (blocklist s) = blocklist s"
    using fresh by (force simp: filter_id_conv)
  then show "remove_from_blocklist s' v = (True, s)"
    using rule_new_wf [OF assms(3)] by (simp add: s' remove_from_blocklist_def Let_def)
qed

lemma block_takes_effect_witness:
  "(\<exists>s'. add_to_blocklist example_control ''10.0.0.0/8'' = Inr s' \<and>
         V4 0x0A000008 \<notin> {ip. is_ip_allowed s' ip} \<and> V4 0x0A000007 \<in> {ip. is_ip_allowed s' ip} \<and>
         remove_from_blocklist s' ''10.0.0.0/8'' = (True, example_control))"
proof -
  define r where "r = \<lparr>rule_value = ''10.0.0.0/8'', rule_ip = None,
    rule_cidr = Some \<lparr>network = V4 0x0A000000, prefix_len = 8, mask_v4 = Some (prefix_mask 8), mask_v6 = None\<rparr>,
    rule_description = None, rule_enabled = True\<rparr>"
  have new: "rule_new ''10.0.0.0/8'' = Inr r" unfolding r_def by code_simp
  then obtain s' where s': "add_to_blocklist example_control ''10.0.0.0/8'' = Inr s'"
    by (simp add: add_to_blocklist_def)
  have mode: "effective_mode example_control = Blocklist" by code_simp
  note effect = block_takes_effect [OF example_reachable mode new s']
  have "V4 0x0A000008 \<in> rule_addresses r - listed (always_allow example_control)"
    "V4 0x0A000007 \<in> listed (always_allow example_control)"
    by (auto simp: r_def rule_addresses_def cidr_addresses_def address_block_def Let_def listed_def example_control_def)
  moreover have "is_ip_allowed example_control (V4 0x0A000007)" by code_simp
  ultimately show ?thesis using s' effect by (auto simp: example_control_def)
qed

subsection \<open>The client's address behind trusted proxies\<close>

text \<open>A proxy appends the address of the peer it got the request from to the header.  The list is
  of the entries in the order the proxies add them: the client's address first, as seen by the
  first trusted proxy, then those of all the trusted proxies but the last.\<close>

definition proxy_append :: "string \<Rightarrow> string option \<Rightarrow> string option" where
  "proxy_append peer hdr = Some (case hdr of None \<Rightarrow> peer | Some h \<Rightarrow> h @ '', '' @ peer)"

definition plain_entry :: "string \<Rightarrow> bool" where
  "plain_entry e \<longleftrightarrow> list_all (\<lambda>c. \<not> white c \<and> c \<noteq> CHR '','') e"

lemma split_on_ne [simp]: "split_on sep xs \<noteq> []"
  by (induction xs) (auto split: list.splits)

lemma split_on_append: "split_on sep (xs @ sep # ys) = split_on sep xs @ split_on sep ys"
proof (induction xs)
  case (Cons c xs)
  then show ?case by (cases "split_on sep xs") auto
qed simp

lemma split_on_none: "sep \<notin> set xs \<Longrightarrow> split_on sep xs = [xs]"
  by (induction xs) auto

lemma dropWhile_none: "\<forall>c \<in> set xs. \<not> P c \<Longrightarrow> dropWhile P xs = xs"
  by (cases xs) auto

lemma plain_entryD: "plain_entry e \<Longrightarrow> trim e = e \<and> CHR '','' \<notin> set e"
  by (auto simp: plain_entry_def trim_def list_all_iff dropWhile_none)

lemma trim_space: "trim (CHR '' '' # e) = trim e"
  by (simp add: trim_def white_def)

lemma plain_entries: "plain_entry e \<Longrightarrow> map trim (split_on CHR '','' (CHR '' '' # e)) = [e]"
  by (simp add: plain_entryD split_on_none trim_space)

definition forwarded_entries :: "string option \<Rightarrow> string list" where
  "forwarded_entries hdr = (case hdr of None \<Rightarrow> [] | Some h \<Rightarrow> map trim (split_on CHR '','' h))"

lemma forwarded_entries_append:
  assumes "plain_entry e"
  shows "forwarded_entries (proxy_append e hdr) = forwarded_entries hdr @ [e]"
proof (cases hdr)
  case None
  then show ?thesis using assms
    by (simp add: forwarded_entries_def proxy_append_def plain_entryD split_on_none)
next
  case (Some h)
  then show ?thesis using plain_entries [OF assms]
    by (simp add: forwarded_entries_def proxy_append_def split_on_append)
qed

lemma forwarded_entries_fold:
  "list_all plain_entry es \<Longrightarrow> forwarded_entries (fold proxy_append es hdr) = forwarded_entries hdr @ es"
  by (induction es arbitrary: hdr) (auto simp: forwarded_entries_append)

lemma extract_client_ip_entries:
  assumes "trust_proxy (ia_config s)" and "hdr \<noteq> None" and "0 < max_proxy_hops (ia_config s)"
  shows "extract_client_ip s remote hdr =
    forwarded_entries hdr ! (length (forwarded_entries hdr) - max_proxy_hops (ia_config s))"
  using assms by (auto simp: extract_client_ip_def forwarded_entries_def Let_def)

text \<open>C18. A client behind the configured number of trusted proxies cannot choose the address it is
  judged by.  Whatever forwarding header it sends, after each trusted proxy has appended the address
  of its peer the extracted address is the one the first trusted proxy saw, and not anything the
  client wrote.\<close>

theorem forwarded_for_not_spoofable:
  assumes "trust_proxy (ia_config s)" and "max_proxy_hops (ia_config s) = Suc (length proxies)"
    and "plain_entry client" and "list_all plain_entry proxies"
  shows "extract_client_ip s remote (fold proxy_append (client # proxies) supplied) = client"
proof -
  let ?hdr = "fold proxy_append (client # proxies) supplied"
  have entries: "forwarded_entries ?hdr = forwarded_entries supplied @ client # proxies"
    using forwarded_entries_fold [of "client # proxies" supplied] assms(3,4) by simp
  have "?hdr \<noteq> None" using entries by (auto simp: forwarded_entries_def split: option.splits)
  then show ?thesis using extract_client_ip_entries [of s ?hdr remote] assms(1,2) entries by (simp del: fold.simps)
qed

lemma forwarded_for_not_spoofable_witness:
  "extract_client_ip example_control ''10.0.0.2''
     (fold proxy_append [''8.8.8.8'', ''10.0.0.1''] (Some ''127.0.0.1, 10.0.0.7'')) = ''8.8.8.8''"
  by (rule forwarded_for_not_spoofable)
    (simp_all add: example_control_def example_config_def plain_entry_def white_def)

end
