(* ===== verification/Ssrf_Guard.thy ===== *)
theory Ssrf_Guard
  imports Ip_Access Deployment
begin

section \<open>The guard of outbound addresses\<close>

text \<open>
  Models \<^verbatim>\<open>src/core/net/ssrf_guard.rs\<close>: the classification of addresses, the checks of an outbound
  URL with and without name resolution, and the policy that pins a private endpoint to the
  authority it was configured with.

  URLs are parsed by the \<open>url\<close> crate, which is not part of the program.  Its parser is an argument of
  the definitions that call it, and a parsed URL is a record of what the guard reads of it: its
  text, its scheme, its host and its port (or the default of its scheme).  The resolver of names is an
  argument, as in the source.  An error holds the values its message is made of, so a
  refused resolution holds the address beside the host instead of a text with both.
\<close>

subsection \<open>Classification of addresses\<close>

definition v4_is_metadata :: "ipv4 \<Rightarrow> bool" where
  "v4_is_metadata a \<longleftrightarrow> octets a = [169, 254, 169, 254] \<or> octets a = [168, 63, 129, 16]"

definition embedded_ipv4 :: "ipv6 \<Rightarrow> ipv4 option" where
  "embedded_ipv4 a =
     (case to_ipv4_mapped a of
        Some v4 \<Rightarrow> Some v4
      | None \<Rightarrow>
          (if take 6 (segments a) = [0x0064, 0xFF9B, 0, 0, 0, 0]
           then Some (push_bit 16 (ucast (segment 6 a)) OR ucast (segment 7 a))
           else None))"

definition is_metadata_ip :: "ip_addr \<Rightarrow> bool" where
  "is_metadata_ip ip =
     (case ip of
        V4 a \<Rightarrow> v4_is_metadata a
      | V6 a \<Rightarrow>
          segments a = [0xFD00, 0x0EC2, 0, 0, 0, 0, 0, 0x0254] \<or>
          (case embedded_ipv4 a of Some v4 \<Rightarrow> v4_is_metadata v4 | None \<Rightarrow> False))"

definition v4_is_private_network :: "ipv4 \<Rightarrow> bool" where
  "v4_is_private_network a \<longleftrightarrow>
     v4_is_loopback a \<or> octet 0 a = 10 \<or>
     octet 0 a = 172 \<and> 16 \<le> octet 1 a \<and> octet 1 a \<le> 31 \<or>
     octet 0 a = 192 \<and> octet 1 a = 168"

definition is_private_network_ip :: "ip_addr \<Rightarrow> bool" where
  "is_private_network_ip ip =
     (case ip of
        V4 a \<Rightarrow> v4_is_private_network a
      | V6 a \<Rightarrow>
          v6_is_loopback a \<or> segment 0 a AND 0xFE00 = 0xFC00 \<or>
          (case to_ipv4_mapped a of Some v4 \<Rightarrow> v4_is_private_network v4 | None \<Rightarrow> False))"

definition is_non_global_ietf_protocol_assignment :: "ipv6 \<Rightarrow> bool" where
  "is_non_global_ietf_protocol_assignment a =
     (if segment 0 a \<noteq> 0x2001 \<or> segment 1 a \<ge> 0x0200 then False
      else
        let anycast = (a - 0x20010001000000000000000000000001 \<le> 2);
            globally_reachable =
              anycast \<or> segment 1 a = 0x0003 \<or>
              segment 1 a = 0x0004 \<and> segment 2 a = 0x0112 \<or>
              0x0020 \<le> segment 1 a \<and> segment 1 a \<le> 0x003F
        in \<not> globally_reachable)"

definition v4_is_private_or_reserved :: "ipv4 \<Rightarrow> bool" where
  "v4_is_private_or_reserved a \<longleftrightarrow>
     octet 0 a = 0 \<or> octet 0 a = 10 \<or> octet 0 a = 127 \<or>
     octet 0 a = 100 \<and> 64 \<le> octet 1 a \<and> octet 1 a \<le> 127 \<or>
     octet 0 a = 169 \<and> octet 1 a = 254 \<or>
     octet 0 a = 172 \<and> 16 \<le> octet 1 a \<and> octet 1 a \<le> 31 \<or>
     octet 0 a = 192 \<and> octet 1 a = 168 \<or>
     octet 0 a = 192 \<and> octet 1 a = 0 \<and> octet 2 a = 0 \<or>
     octet 0 a = 192 \<and> octet 1 a = 0 \<and> octet 2 a = 2 \<or>
     octet 0 a = 198 \<and> 18 \<le> octet 1 a \<and> octet 1 a \<le> 19 \<or>
     octet 0 a = 198 \<and> octet 1 a = 51 \<and> octet 2 a = 100 \<or>
     octet 0 a = 203 \<and> octet 1 a = 0 \<and> octet 2 a = 113 \<or>
     octet 0 a = 192 \<and> octet 1 a = 88 \<and> octet 2 a = 99 \<or>
     240 \<le> octet 0 a \<or> v4_is_broadcast a \<or> v4_is_multicast a"

definition is_private_or_reserved_ip :: "ip_addr \<Rightarrow> bool" where
  "is_private_or_reserved_ip ip =
     (case ip of
        V4 a \<Rightarrow> v4_is_private_or_reserved a
      | V6 a \<Rightarrow>
          (if v6_is_loopback a \<or> v6_is_unspecified a \<or> v6_is_multicast a then True
           else case embedded_ipv4 a of
             Some v4 \<Rightarrow> v4_is_private_or_reserved v4
           | None \<Rightarrow>
               take 6 (segments a) = [0, 0, 0, 0, 0, 0] \<or>
               segment 0 a = 0x0064 \<and> segment 1 a = 0xFF9B \<and> segment 2 a = 1 \<or>
               take 4 (segments a) = [0x0100, 0, 0, 0] \<or>
               take 4 (segments a) = [0x0100, 0, 0, 1] \<or>
               is_non_global_ietf_protocol_assignment a \<or>
               segment 0 a = 0x2001 \<and> segment 1 a = 0x0DB8 \<or>
               segment 0 a = 0x2002 \<or>
               segment 0 a = 0x3FFF \<and> segment 1 a AND 0xF000 = 0 \<or>
               segment 0 a = 0x5F00 \<or>
               segment 0 a AND 0xFE00 = 0xFC00 \<or>
               segment 0 a AND 0xFFC0 = 0xFE80 \<or>
               segment 0 a AND 0xFFC0 = 0xFEC0 \<or>
               segment 0 a AND 0xE000 \<noteq> 0x2000))"

definition is_provider_endpoint_ip_allowed :: "provider_endpoint_access \<Rightarrow> ip_addr \<Rightarrow> bool" where
  "is_provider_endpoint_ip_allowed access ip \<longleftrightarrow>
     \<not> is_metadata_ip ip \<and>
     (\<not> is_private_or_reserved_ip ip \<or> access = PrivateNetwork \<and> is_private_network_ip ip)"

subsection \<open>Outbound URLs\<close>

datatype ssrf_error =
    InvalidUrl string
  | UnsupportedScheme string
  | MissingHost string
  | PrivateOrReservedHost string "ip_addr option"
  | HostResolutionFailed string string
  | AuthorityMismatch string string

record url =
  url_text :: string
  scheme :: string
  host_str :: "string option"
  port_or_known_default :: "u16 option"

type_synonym url_parser = "string \<Rightarrow> string + url"
type_synonym resolver = "string \<Rightarrow> u16 \<Rightarrow> ssrf_error + ip_addr list"

definition trim_matches :: "(char \<Rightarrow> bool) \<Rightarrow> string \<Rightarrow> string" where
  "trim_matches p s = rev (dropWhile p (rev (dropWhile p s)))"

definition trim_end_matches :: "(char \<Rightarrow> bool) \<Rightarrow> string \<Rightarrow> string" where
  "trim_end_matches p s = rev (dropWhile p (rev s))"

definition to_ascii_lowercase :: "string \<Rightarrow> string" where
  "to_ascii_lowercase s =
     map (\<lambda>c. let n = (of_char c :: nat) in if 65 \<le> n \<and> n \<le> 90 then char_of (n + 32) else c) s"

definition normalize_hostname :: "string \<Rightarrow> string" where
  "normalize_hostname host =
     to_ascii_lowercase
       (trim_end_matches (\<lambda>c. c = CHR ''.'')
         (trim_matches (\<lambda>c. c = CHR ''['' \<or> c = CHR '']'') (trim host)))"

definition ends_with :: "string \<Rightarrow> string \<Rightarrow> bool" where
  "ends_with s suffix \<longleftrightarrow> starts_with (rev s) (rev suffix)"

definition is_permanently_blocked_hostname :: "string \<Rightarrow> bool" where
  "is_permanently_blocked_hostname host =
     (let n = normalize_hostname host
      in n = ''metadata'' \<or> n = ''metadata.google.internal'' \<or> ends_with n ''.metadata.google.internal'' \<or>
         n = ''metadata.goog'' \<or> ends_with n ''.metadata.goog'')"

definition web_scheme :: "string \<Rightarrow> bool" where
  "web_scheme s \<longleftrightarrow> s \<in> {''http'', ''https'', ''ws'', ''wss''}"

definition extract_url_host :: "url_parser \<Rightarrow> string \<Rightarrow> string option" where
  "extract_url_host parse raw_url =
     (case parse raw_url of
        Inl _ \<Rightarrow> None
      | Inr u \<Rightarrow> if \<not> web_scheme (scheme u) then None else map_option normalize_hostname (host_str u))"

definition local_name :: "string \<Rightarrow> bool" where
  "local_name host \<longleftrightarrow>
     host \<in> {''localhost'', ''internal'', ''local''} \<or>
     list_ex (ends_with host) [''.localhost'', ''.internal'', ''.local'']"

definition resolution_target ::
  "url_parser \<Rightarrow> url \<Rightarrow> provider_endpoint_access \<Rightarrow> ssrf_error + (string \<times> u16) option" where
  "resolution_target parse u access =
     (if \<not> web_scheme (scheme u) then Inl (UnsupportedScheme (scheme u))
      else case extract_url_host parse (url_text u) of
        None \<Rightarrow> Inl (MissingHost (url_text u))
      | Some host \<Rightarrow>
          (if is_permanently_blocked_hostname host then Inl (PrivateOrReservedHost host None)
           else case parse_ip_addr host of
             Some ip \<Rightarrow>
               (if \<not> is_provider_endpoint_ip_allowed access ip then Inl (PrivateOrReservedHost host None)
                else Inr None)
           | None \<Rightarrow>
               (if access = PublicOnly \<and> local_name host then Inl (PrivateOrReservedHost host None)
                else Inr (Some (host, case port_or_known_default u of Some p \<Rightarrow> p | None \<Rightarrow> 0)))))"

definition validate_resolved_addresses ::
  "provider_endpoint_access \<Rightarrow> string \<Rightarrow> ip_addr list \<Rightarrow> ssrf_error + unit" where
  "validate_resolved_addresses access host addresses =
     (if addresses = [] then Inl (HostResolutionFailed host ''no addresses returned'')
      else case find (\<lambda>a. \<not> is_provider_endpoint_ip_allowed access a) addresses of
        Some a \<Rightarrow> Inl (PrivateOrReservedHost host (Some a))
      | None \<Rightarrow> Inr ())"

definition validate_provider_endpoint_url_with_resolver ::
  "url_parser \<Rightarrow> url \<Rightarrow> provider_endpoint_access \<Rightarrow> resolver \<Rightarrow> ssrf_error + unit" where
  "validate_provider_endpoint_url_with_resolver parse u access resolve =
     (case resolution_target parse u access of
        Inl e \<Rightarrow> Inl e
      | Inr None \<Rightarrow> Inr ()
      | Inr (Some (host, port)) \<Rightarrow>
          (case resolve host port of
             Inl e \<Rightarrow> Inl e
           | Inr addresses \<Rightarrow> validate_resolved_addresses access host addresses))"

definition validate_provider_endpoint_url_without_resolution ::
  "url_parser \<Rightarrow> url \<Rightarrow> provider_endpoint_access \<Rightarrow> ssrf_error + unit" where
  "validate_provider_endpoint_url_without_resolution parse u access =
     (case resolution_target parse u access of Inl e \<Rightarrow> Inl e | Inr _ \<Rightarrow> Inr ())"

definition validate_provider_endpoint_url_str ::
  "url_parser \<Rightarrow> resolver \<Rightarrow> string \<Rightarrow> provider_endpoint_access \<Rightarrow> ssrf_error + url" where
  "validate_provider_endpoint_url_str parse resolve raw_url access =
     (case parse raw_url of
        Inl _ \<Rightarrow> Inl (InvalidUrl raw_url)
      | Inr u \<Rightarrow>
          (case validate_provider_endpoint_url_with_resolver parse u access resolve of
             Inl e \<Rightarrow> Inl e
           | Inr _ \<Rightarrow> Inr u))"

definition validate_outbound_url_str :: "url_parser \<Rightarrow> resolver \<Rightarrow> string \<Rightarrow> ssrf_error + url" where
  "validate_outbound_url_str parse resolve raw_url =
     validate_provider_endpoint_url_str parse resolve raw_url PublicOnly"

definition validate_outbound_url_str_without_resolution :: "url_parser \<Rightarrow> string \<Rightarrow> ssrf_error + url" where
  "validate_outbound_url_str_without_resolution parse raw_url =
     (case parse raw_url of
        Inl _ \<Rightarrow> Inl (InvalidUrl raw_url)
      | Inr u \<Rightarrow>
          (case validate_provider_endpoint_url_without_resolution parse u PublicOnly of
             Inl e \<Rightarrow> Inl e
           | Inr _ \<Rightarrow> Inr u))"

definition is_private_or_reserved_host :: "string \<Rightarrow> bool" where
  "is_private_or_reserved_host host =
     (let n = normalize_hostname host
      in if n = ''localhost'' \<or> ends_with n ''.localhost'' \<or> is_permanently_blocked_hostname n then True
         else case parse_ip_addr n of
           Some ip \<Rightarrow> \<not> is_provider_endpoint_ip_allowed PublicOnly ip
         | None \<Rightarrow> False)"

subsection \<open>The policy of one endpoint\<close>

record provider_endpoint_policy =
  policy_access :: provider_endpoint_access
  private_authority :: "string option"

definition public_only :: provider_endpoint_policy where
  "public_only = \<lparr>policy_access = PublicOnly, private_authority = None\<rparr>"

definition endpoint_authority :: "url \<Rightarrow> ssrf_error + string" where
  "endpoint_authority u =
     (case host_str u of
        None \<Rightarrow> Inl (MissingHost (url_text u))
      | Some host \<Rightarrow>
          (case port_or_known_default u of
             None \<Rightarrow> Inl (MissingHost (url_text u))
           | Some port \<Rightarrow>
               Inr (scheme u @ ''://'' @ normalize_hostname host @ '':'' @ decimal (unat port))))"

definition for_base_url ::
  "url_parser \<Rightarrow> provider_endpoint_access \<Rightarrow> string \<Rightarrow> ssrf_error + provider_endpoint_policy" where
  "for_base_url parse access raw_base_url =
     (case parse raw_base_url of
        Inl _ \<Rightarrow> Inl (InvalidUrl raw_base_url)
      | Inr u \<Rightarrow>
          (case validate_provider_endpoint_url_without_resolution parse u access of
             Inl e \<Rightarrow> Inl e
           | Inr _ \<Rightarrow>
               (if access = PrivateNetwork then
                  (case endpoint_authority u of
                     Inl e \<Rightarrow> Inl e
                   | Inr auth \<Rightarrow> Inr \<lparr>policy_access = access, private_authority = Some auth\<rparr>)
                else Inr \<lparr>policy_access = access, private_authority = None\<rparr>)))"

definition validate_private_authority :: "provider_endpoint_policy \<Rightarrow> url \<Rightarrow> ssrf_error + unit" where
  "validate_private_authority policy u =
     (case private_authority policy of
        None \<Rightarrow> Inr ()
      | Some expected \<Rightarrow>
          (case endpoint_authority u of
             Inl e \<Rightarrow> Inl e
           | Inr actual \<Rightarrow> if actual \<noteq> expected then Inl (AuthorityMismatch expected actual) else Inr ()))"

definition validate_url_without_resolution ::
  "url_parser \<Rightarrow> provider_endpoint_policy \<Rightarrow> url \<Rightarrow> ssrf_error + unit" where
  "validate_url_without_resolution parse policy u =
     (case validate_provider_endpoint_url_without_resolution parse u (policy_access policy) of
        Inl e \<Rightarrow> Inl e
      | Inr _ \<Rightarrow> validate_private_authority policy u)"

subsection \<open>Octets and segments as digits of the address\<close>

lemma mem_block_div:
  fixes net a :: "'a::len word"
  shows "a \<in> address_block p net \<longleftrightarrow> unat a div 2 ^ (LENGTH('a) - p) = unat net div 2 ^ (LENGTH('a) - p)"
  using div_eq_iff_interval [of "unat net" "LENGTH('a) - p" "unat a"]
  by (auto simp: address_block_def Let_def)

lemma unat_drop: "unat (drop_bit k (a :: 'a::len word)) = unat a div 2 ^ k"
  by (rule trans [OF unat_drop_bit_eq drop_bit_eq_div])

lemma unat_octet: "unat (octet i a) = unat a div 2 ^ (24 - 8 * i) mod 256"
  by (simp add: octet_def unsigned_ucast_eq unat_drop take_bit_eq_mod)

lemma unat_segment: "unat (segment i a) = unat a div 2 ^ (112 - 16 * i) mod 65536"
  by (simp add: segment_def unsigned_ucast_eq unat_drop take_bit_eq_mod)

lemma digit_split:
  fixes x s c b :: nat
  assumes "s < b"
  shows "x * b + s = c \<longleftrightarrow> x = c div b \<and> s = c mod b"
  using assms by (metis add.commute add_0_right div_mult_self1 div_less less_nat_zero_code
      mod_less mod_mult_self1 mult_div_mod_eq mult.commute)

lemma div_step:
  fixes n b c :: nat
  shows "n div c = n div (c * b) * b + n div c mod b"
  by (simp add: div_mult2_eq)

lemma octet_digits:
  "unat a div 16777216 = unat (octet 0 a)"
  "unat a div 65536 = unat (octet 0 a) * 256 + unat (octet 1 a)"
  "unat a div 256 = (unat (octet 0 a) * 256 + unat (octet 1 a)) * 256 + unat (octet 2 a)"
  "unat a = ((unat (octet 0 a) * 256 + unat (octet 1 a)) * 256 + unat (octet 2 a)) * 256 + unat (octet 3 a)"
proof -
  have "unat a < 2 ^ 32" using unsigned_less [of a] by simp
  then show top: "unat a div 16777216 = unat (octet 0 a)" by (simp add: unat_octet)
  have step: "unat a div c = q * 256 + unat (octet i a)"
    if "unat a div (c * 256) = q" "c = 2 ^ (24 - 8 * i)" for c q i
    proof -
    have digit: "unat (octet i a) = unat a div c mod 256" by (simp add: unat_octet that(2))
    show ?thesis using div_step [of "unat a" c 256] unfolding that(1) digit .
  qed
  show 1: "unat a div 65536 = unat (octet 0 a) * 256 + unat (octet 1 a)" by (rule step) (simp_all add: top)
  show 2: "unat a div 256 = (unat (octet 0 a) * 256 + unat (octet 1 a)) * 256 + unat (octet 2 a)"
    by (rule step) (simp_all add: 1)
  show "unat a = ((unat (octet 0 a) * 256 + unat (octet 1 a)) * 256 + unat (octet 2 a)) * 256 + unat (octet 3 a)"
    using step [of 1 _ 3] 2 by simp
qed

lemma segment_digits:
  fixes a :: ipv6
  defines "s \<equiv> \<lambda>i. unat (segment i a)"
  shows "unat a div 2 ^ 112 = s 0"
    and "unat a div 2 ^ 96 = s 0 * 65536 + s 1"
    and "unat a div 2 ^ 80 = (s 0 * 65536 + s 1) * 65536 + s 2"
    and "unat a div 2 ^ 64 = ((s 0 * 65536 + s 1) * 65536 + s 2) * 65536 + s 3"
    and "unat a div 2 ^ 32 = ((((s 0 * 65536 + s 1) * 65536 + s 2) * 65536 + s 3) * 65536 + s 4) * 65536 + s 5"
    and "unat a = ((((((s 0 * 65536 + s 1) * 65536 + s 2) * 65536 + s 3) * 65536 + s 4) * 65536 + s 5)
                   * 65536 + s 6) * 65536 + s 7"
proof -
  have "unat a < 2 ^ 128" using unsigned_less [of a] by simp
  then show top: "unat a div 2 ^ 112 = s 0" by (simp add: s_def unat_segment)
  have step: "unat a div c = q * 65536 + s i"
    if "unat a div (c * 65536) = q" "c = 2 ^ (112 - 16 * i)" for c q i
    proof -
    have digit: "s i = unat a div c mod 65536" by (simp add: s_def unat_segment that(2))
    show ?thesis using div_step [of "unat a" c 65536] unfolding that(1) digit .
  qed
  show 1: "unat a div 2 ^ 96 = s 0 * 65536 + s 1" by (rule step) (use top in simp_all)
  show 2: "unat a div 2 ^ 80 = (s 0 * 65536 + s 1) * 65536 + s 2" by (rule step) (use 1 in simp_all)
  show 3: "unat a div 2 ^ 64 = ((s 0 * 65536 + s 1) * 65536 + s 2) * 65536 + s 3" by (rule step) (use 2 in simp_all)
  have 4: "unat a div 2 ^ 48 = (((s 0 * 65536 + s 1) * 65536 + s 2) * 65536 + s 3) * 65536 + s 4"
    by (rule step) (use 3 in simp_all)
  show 5: "unat a div 2 ^ 32 = ((((s 0 * 65536 + s 1) * 65536 + s 2) * 65536 + s 3) * 65536 + s 4) * 65536 + s 5"
    by (rule step) (use 4 in simp_all)
  have 6: "unat a div 2 ^ 16 =
      (((((s 0 * 65536 + s 1) * 65536 + s 2) * 65536 + s 3) * 65536 + s 4) * 65536 + s 5) * 65536 + s 6"
    by (rule step) (use 5 in simp_all)
  show "unat a = ((((((s 0 * 65536 + s 1) * 65536 + s 2) * 65536 + s 3) * 65536 + s 4) * 65536 + s 5)
                   * 65536 + s 6) * 65536 + s 7"
    using step [of 1 _ 7] 6 by simp
qed

subsection \<open>The classification as tables of address blocks\<close>

definition in_blocks :: "('a::len word \<times> nat) list \<Rightarrow> 'a word \<Rightarrow> bool" where
  "in_blocks table a \<longleftrightarrow> (\<exists>(net, p) \<in> set table. a \<in> address_block p net)"

text \<open>The blocks of IPv4 that are not globally reachable, and the private ones among them.\<close>

definition special_v4 :: "(ipv4 \<times> nat) list" where
  "special_v4 =
     [(0x00000000, 8), (0x0A000000, 8), (0x7F000000, 8), (0x64400000, 10), (0xA9FE0000, 16),
      (0xAC100000, 12), (0xC0A80000, 16), (0xC0000000, 24), (0xC0000200, 24), (0xC6120000, 15),
      (0xC6336400, 24), (0xCB007100, 24), (0xC0586300, 24), (0xF0000000, 4), (0xE0000000, 4)]"

definition private_v4 :: "(ipv4 \<times> nat) list" where
  "private_v4 = [(0x7F000000, 8), (0x0A000000, 8), (0xAC100000, 12), (0xC0A80000, 16)]"

text \<open>The addresses of the metadata services of the cloud platforms.\<close>

definition metadata_v4 :: "ipv4 set" where
  "metadata_v4 = {0xA9FEA9FE, 0xA83F8110}"

definition metadata_v6 :: ipv6 where
  "metadata_v6 = 0xFD000EC2000000000000000000000254"

lemma octet_bound: "unat (octet i a) < 256"
  by (simp add: unat_octet)

lemma split_low_digit:
  fixes x y k m :: nat
  assumes "y < k * m" and "0 < m"
  shows "(x * (k * m) + y) div m = c \<longleftrightarrow> x = c div k \<and> y div m = c mod k"
proof -
  have "(x * (k * m) + y) div m = x * k + y div m"
    using div_mult_self1 [of m y "x * k"] assms(2) by (simp add: algebra_simps)
  moreover have "y div m < k" using assms by (simp add: div_less_iff_less_mult)
  ultimately show ?thesis by (simp add: digit_split)
qed

lemma div_range:
  fixes y q m :: nat
  assumes "0 < m"
  shows "y div m = q \<longleftrightarrow> q * m \<le> y \<and> y \<le> q * m + (m - 1)"
proof -
  have "y div m = q \<longleftrightarrow> q * m \<le> y \<and> y < Suc q * m"
    using assms by (metis div_nat_eqI dividend_less_times_div mult.commute mult_Suc_right add.commute times_div_less_eq_dividend)
  then show ?thesis using assms by auto
qed

lemma v4_quotients:
  fixes a :: ipv4
  shows "unat a div 16777216 = c \<longleftrightarrow> unat (octet 0 a) = c"
    and "unat a div 65536 = c \<longleftrightarrow> unat (octet 0 a) = c div 256 \<and> unat (octet 1 a) = c mod 256"
    and "unat a div 256 = c \<longleftrightarrow>
      unat (octet 0 a) = c div 256 div 256 \<and> unat (octet 1 a) = c div 256 mod 256 \<and> unat (octet 2 a) = c mod 256"
  unfolding octet_digits(1-3) [of a] digit_split [OF octet_bound] by (rule refl conj_assoc)+

lemma v4_ranges:
  fixes a :: ipv4
  shows "unat a div 268435456 = c \<longleftrightarrow> unat (octet 0 a) div 16 = c"
    and "unat a div 4194304 = c \<longleftrightarrow> unat (octet 0 a) = c div 4 \<and> unat (octet 1 a) div 64 = c mod 4"
    and "unat a div 1048576 = c \<longleftrightarrow> unat (octet 0 a) = c div 16 \<and> unat (octet 1 a) div 16 = c mod 16"
    and "unat a div 131072 = c \<longleftrightarrow> unat (octet 0 a) = c div 128 \<and> unat (octet 1 a) div 2 = c mod 128"
  using div_mult2_eq [of "unat a" 16777216 16] div_mult2_eq [of "unat a" 65536 64] div_mult2_eq [of "unat a" 65536 16]
    div_mult2_eq [of "unat a" 65536 2] octet_bound [of 1 a]
    split_low_digit [of "unat (octet 1 a)" 4 64 "unat (octet 0 a)" c]
    split_low_digit [of "unat (octet 1 a)" 16 16 "unat (octet 0 a)" c]
    split_low_digit [of "unat (octet 1 a)" 128 2 "unat (octet 0 a)" c]
  by (simp_all only: octet_digits(1,2) mult_numeral_left_semiring_numeral semiring_norm num.simps mult_num_simps
      arith_simps)

lemmas octet_compare = word_unat_eq_iff word_le_nat_alt word_less_nat_alt

lemma v4_broadcast_high: "v4_is_broadcast a \<Longrightarrow> 240 \<le> octet 0 a"
  by (simp add: v4_is_broadcast_def max_value_def octet_def word_le_nat_alt unsigned_ucast_eq unat_drop
      unsigned_minus_1_eq_mask mask_eq_exp_minus_1 take_bit_eq_mod)

lemma v4_block_simps:
  fixes a :: ipv4
  shows "a \<in> address_block 8 net \<longleftrightarrow> unat a div 16777216 = unat net div 16777216"
    and "a \<in> address_block 16 net \<longleftrightarrow> unat a div 65536 = unat net div 65536"
    and "a \<in> address_block 24 net \<longleftrightarrow> unat a div 256 = unat net div 256"
    and "a \<in> address_block 4 net \<longleftrightarrow> unat a div 268435456 = unat net div 268435456"
    and "a \<in> address_block 10 net \<longleftrightarrow> unat a div 4194304 = unat net div 4194304"
    and "a \<in> address_block 12 net \<longleftrightarrow> unat a div 1048576 = unat net div 1048576"
    and "a \<in> address_block 15 net \<longleftrightarrow> unat a div 131072 = unat net div 131072"
  by (simp_all add: mem_block_div)

lemmas v4_table_simps =
  in_blocks_def v4_block_simps v4_quotients v4_ranges octet_compare div_range

lemma v4_high_iff:
  "240 \<le> octet 0 a \<or> v4_is_broadcast a \<or> v4_is_multicast a \<longleftrightarrow>
   a \<in> address_block 4 0xF0000000 \<or> a \<in> address_block 4 0xE0000000"
  using v4_broadcast_high [of a] octet_bound [of 0 a]
  by (auto simp: v4_is_multicast_def v4_table_simps)

lemma v4_reserved_iff: "v4_is_private_or_reserved a \<longleftrightarrow> in_blocks special_v4 a"
  unfolding v4_is_private_or_reserved_def v4_high_iff by (simp add: special_v4_def v4_table_simps)

lemma v4_private_iff: "v4_is_private_network a \<longleftrightarrow> in_blocks private_v4 a"
  by (simp add: v4_is_private_network_def v4_is_loopback_def private_v4_def v4_table_simps)

lemma v4_metadata_iff: "v4_is_metadata a \<longleftrightarrow> a \<in> metadata_v4"
proof -
  have "octets a = octets b \<longleftrightarrow> a = b" for b
  proof
    assume "octets a = octets b"
    then have "unat a = unat b" using octet_digits(4) [of a] octet_digits(4) [of b] by (simp add: octets_def)
    then show "a = b" by (rule unsigned_word_eqI)
  qed simp
  moreover have "octets 0xA9FEA9FE = [169, 254, 169, 254]" "octets 0xA83F8110 = [168, 63, 129, 16]"
    by (simp_all add: octets_def octet_def)
  ultimately show ?thesis unfolding v4_is_metadata_def metadata_v4_def by (metis insert_iff singletonD)
qed

text \<open>The global unicast space of IPv6, the blocks taken out of it, the protocol assignments that
  are globally reachable after all, and the blocks that embed an IPv4 address.\<close>

definition unicast_v6 :: "(ipv6 \<times> nat) list" where
  "unicast_v6 = [(0x20000000000000000000000000000000, 3)]"

definition special_v6 :: "(ipv6 \<times> nat) list" where
  "special_v6 =
     [(0x20010DB8000000000000000000000000, 32), (0x20020000000000000000000000000000, 16),
      (0x3FFF0000000000000000000000000000, 20)]"

definition assignments_v6 :: "(ipv6 \<times> nat) list" where
  "assignments_v6 = [(0x20010000000000000000000000000000, 23)]"

definition reachable_assignments_v6 :: "(ipv6 \<times> nat) list" where
  "reachable_assignments_v6 =
     [(0x20010001000000000000000000000001, 128), (0x20010001000000000000000000000002, 128),
      (0x20010001000000000000000000000003, 128), (0x20010003000000000000000000000000, 32),
      (0x20010004011200000000000000000000, 48), (0x20010020000000000000000000000000, 27)]"

definition mapped_v6 :: "(ipv6 \<times> nat) list" where
  "mapped_v6 = [(0x00000000000000000000FFFF00000000, 96)]"

definition nat64_v6 :: "(ipv6 \<times> nat) list" where
  "nat64_v6 = [(0x0064FF9B000000000000000000000000, 96)]"

definition local_v6 :: "(ipv6 \<times> nat) list" where
  "local_v6 = [(0x00000000000000000000000000000001, 128), (0xFC000000000000000000000000000000, 7)]"

lemma segment_bound: "unat (segment i a) < 65536"
  by (simp add: unat_segment)

lemma v6_quotients:
  fixes a :: ipv6
  shows "unat a div 2 ^ 112 = c \<longleftrightarrow> unat (segment 0 a) = c"
    and "unat a div 2 ^ 96 = c \<longleftrightarrow> unat (segment 0 a) = c div 65536 \<and> unat (segment 1 a) = c mod 65536"
    and "unat a div 2 ^ 80 = c \<longleftrightarrow>
      unat (segment 0 a) = c div 65536 div 65536 \<and> unat (segment 1 a) = c div 65536 mod 65536 \<and>
      unat (segment 2 a) = c mod 65536"
    and "unat a div 2 ^ 32 = c \<longleftrightarrow>
      unat (segment 0 a) = c div 65536 div 65536 div 65536 div 65536 div 65536 \<and>
      unat (segment 1 a) = c div 65536 div 65536 div 65536 div 65536 mod 65536 \<and>
      unat (segment 2 a) = c div 65536 div 65536 div 65536 mod 65536 \<and>
      unat (segment 3 a) = c div 65536 div 65536 mod 65536 \<and>
      unat (segment 4 a) = c div 65536 mod 65536 \<and> unat (segment 5 a) = c mod 65536"
  unfolding segment_digits(1-3,5) [of a] digit_split [OF segment_bound] by (rule refl conj_assoc | simp only: conj_assoc)+

lemma v6_ranges:
  fixes a :: ipv6
  shows "unat a div 2 ^ 125 = c \<longleftrightarrow> unat (segment 0 a) div 8192 = c"
    and "unat a div 2 ^ 121 = c \<longleftrightarrow> unat (segment 0 a) div 512 = c"
    and "unat a div 2 ^ 105 = c \<longleftrightarrow> unat (segment 0 a) = c div 128 \<and> unat (segment 1 a) div 512 = c mod 128"
    and "unat a div 2 ^ 108 = c \<longleftrightarrow> unat (segment 0 a) = c div 16 \<and> unat (segment 1 a) div 4096 = c mod 16"
    and "unat a div 2 ^ 101 = c \<longleftrightarrow> unat (segment 0 a) = c div 2048 \<and> unat (segment 1 a) div 32 = c mod 2048"
proof -
  have low: "unat a div (2 ^ 96 * m) = c \<longleftrightarrow> unat (segment 0 a) = c div k \<and> unat (segment 1 a) div m = c mod k"
    if "k * m = 65536" "0 < m" for k m
    using split_low_digit [of "unat (segment 1 a)" k m "unat (segment 0 a)" c] segment_bound [of 1 a] that
    by (simp only: div_mult2_eq segment_digits(2))
  have top: "unat a div (2 ^ 112 * m) = unat (segment 0 a) div m" for m
    by (simp only: div_mult2_eq segment_digits(1))
  show "unat a div 2 ^ 125 = c \<longleftrightarrow> unat (segment 0 a) div 8192 = c" using top [of 8192] by simp
  show "unat a div 2 ^ 121 = c \<longleftrightarrow> unat (segment 0 a) div 512 = c" using top [of 512] by simp
  show "unat a div 2 ^ 105 = c \<longleftrightarrow> unat (segment 0 a) = c div 128 \<and> unat (segment 1 a) div 512 = c mod 128"
    using low [of 128 512] by simp
  show "unat a div 2 ^ 108 = c \<longleftrightarrow> unat (segment 0 a) = c div 16 \<and> unat (segment 1 a) div 4096 = c mod 16"
    using low [of 16 4096] by simp
  show "unat a div 2 ^ 101 = c \<longleftrightarrow> unat (segment 0 a) = c div 2048 \<and> unat (segment 1 a) div 32 = c mod 2048"
    using low [of 2048 32] by simp
qed

lemma v6_block_iff:
  fixes a :: ipv6
  shows "a \<in> address_block 16 net \<longleftrightarrow> unat a div 2 ^ 112 = unat net div 2 ^ 112"
    and "a \<in> address_block 32 net \<longleftrightarrow> unat a div 2 ^ 96 = unat net div 2 ^ 96"
    and "a \<in> address_block 48 net \<longleftrightarrow> unat a div 2 ^ 80 = unat net div 2 ^ 80"
    and "a \<in> address_block 96 net \<longleftrightarrow> unat a div 2 ^ 32 = unat net div 2 ^ 32"
    and "a \<in> address_block 3 net \<longleftrightarrow> unat a div 2 ^ 125 = unat net div 2 ^ 125"
    and "a \<in> address_block 7 net \<longleftrightarrow> unat a div 2 ^ 121 = unat net div 2 ^ 121"
    and "a \<in> address_block 23 net \<longleftrightarrow> unat a div 2 ^ 105 = unat net div 2 ^ 105"
    and "a \<in> address_block 20 net \<longleftrightarrow> unat a div 2 ^ 108 = unat net div 2 ^ 108"
    and "a \<in> address_block 27 net \<longleftrightarrow> unat a div 2 ^ 101 = unat net div 2 ^ 101"
    and "a \<in> address_block 128 net \<longleftrightarrow> a = net"
  by (simp_all add: mem_block_div word_unat_eq_iff)

lemmas v6_block_simps =
  v6_block_iff(1) [unfolded v6_quotients] v6_block_iff(2) [unfolded v6_quotients]
  v6_block_iff(3) [unfolded v6_quotients] v6_block_iff(4) [unfolded v6_quotients]
  v6_block_iff(5-9) [unfolded v6_ranges] v6_block_iff(10)

lemma masked_prefix:
  fixes x n :: u16
  assumes "n AND prefix_mask p = n" and "p \<le> 16"
  shows "x AND prefix_mask p = n \<longleftrightarrow> unat x div 2 ^ (16 - p) = unat n div 2 ^ (16 - p)"
  using masked_eq_iff_block [of p n x] assms by (auto simp: mem_block_div)

lemma segment_masks:
  "prefix_mask 3 = (0xE000 :: u16)" "prefix_mask 7 = (0xFE00 :: u16)" "prefix_mask 10 = (0xFFC0 :: u16)"
  "prefix_mask 4 = (0xF000 :: u16)"
  by (simp_all add: prefix_mask_def push_bit_eq_mult del: push_bit_minus_one)

lemma masked_segment:
  fixes x :: u16
  shows "x AND 0xE000 = 0x2000 \<longleftrightarrow> unat x div 8192 = 1"
    and "x AND 0xFE00 = 0xFC00 \<longleftrightarrow> unat x div 512 = 126"
    and "x AND 0xFFC0 = 0xFE80 \<longleftrightarrow> unat x div 64 = 1018"
    and "x AND 0xFFC0 = 0xFEC0 \<longleftrightarrow> unat x div 64 = 1019"
    and "x AND 0xF000 = 0 \<longleftrightarrow> unat x div 4096 = 0"
  using masked_prefix [of "0x2000" 3 x] masked_prefix [of "0xFC00" 7 x] masked_prefix [of "0xFE80" 10 x] masked_prefix [of "0xFEC0" 10 x]
    masked_prefix [of "0" 4 x]
  by (simp_all add: segment_masks del: div_eq_0_iff)

definition global_v4 :: "ipv4 \<Rightarrow> bool" where
  "global_v4 a \<longleftrightarrow> \<not> in_blocks special_v4 a \<and> a \<notin> metadata_v4"

definition global_v6 :: "ipv6 \<Rightarrow> bool" where
  "global_v6 a \<longleftrightarrow>
     in_blocks unicast_v6 a \<and> \<not> in_blocks special_v6 a \<and>
     (in_blocks assignments_v6 a \<longrightarrow> in_blocks reachable_assignments_v6 a)"

lemmas v6_tables =
  unicast_v6_def special_v6_def assignments_v6_def reachable_assignments_v6_def mapped_v6_def nat64_v6_def local_v6_def

lemma to_ipv4_mapped_iff:
  "to_ipv4_mapped a = (if in_blocks mapped_v6 a then Some (ucast a) else None)"
  by (simp add: to_ipv4_mapped_def segments_def in_blocks_def mapped_v6_def v6_block_simps word_unat_eq_iff)

lemma low_segments: "push_bit 16 (ucast (segment 6 a)) OR ucast (segment 7 a) = (ucast a :: ipv4)"
  by (rule bit_eqI) (auto simp: segment_def bit_simps)

lemma embedded_ipv4_iff:
  "embedded_ipv4 a = (if in_blocks mapped_v6 a \<or> in_blocks nat64_v6 a then Some (ucast a) else None)"
  unfolding embedded_ipv4_def low_segments to_ipv4_mapped_iff
  by (simp add: segments_def in_blocks_def nat64_v6_def v6_block_simps word_unat_eq_iff)

lemma ietf_iff:
  "is_non_global_ietf_protocol_assignment a \<longleftrightarrow>
   in_blocks assignments_v6 a \<and> \<not> in_blocks reachable_assignments_v6 a"
proof -
  have small: "w \<le> 2 \<longleftrightarrow> w = 0 \<or> w = 1 \<or> w = 2" for w :: ipv6
    by (auto simp: word_le_nat_alt word_unat_eq_iff)
  have "a - 0x20010001000000000000000000000001 \<le> 2 \<longleftrightarrow>
      a = 0x20010001000000000000000000000001 \<or> a = 0x20010001000000000000000000000002 \<or>
      a = 0x20010001000000000000000000000003"
    unfolding small by (auto simp: diff_eq_eq)
  then show ?thesis
    by (simp add: is_non_global_ietf_protocol_assignment_def in_blocks_def v6_tables v6_block_simps Let_def
        word_unat_eq_iff word_le_nat_alt div_range) (intro impI, drule (1) mp, simp)
qed

lemma not_unicast_reserved:
  assumes "v6_is_loopback a \<or> v6_is_unspecified a \<or> v6_is_multicast a"
  shows "unat (segment 0 a) div 8192 \<noteq> 1"
proof -
  have "unat (segment 0 a) div 8192 = 7" if "v6_is_multicast a"
  proof -
    have "unat (segment 0 a) div 256 = 255"
      using that by (simp add: v6_is_multicast_def word_unat_eq_iff unat_drop)
    then show ?thesis using div_mult2_eq [of "unat (segment 0 a)" 256 32] by simp
  qed
  then show ?thesis using assms by (auto simp: v6_is_loopback_def v6_is_unspecified_def segment_def)
qed

lemma v6_reserved_iff:
  assumes "\<not> in_blocks mapped_v6 a" and "\<not> in_blocks nat64_v6 a"
  shows "is_private_or_reserved_ip (V6 a) \<longleftrightarrow> \<not> global_v6 a"
proof (cases "unat (segment 0 a) div 8192 = 1")
  case True
  then have "\<not> (v6_is_loopback a \<or> v6_is_unspecified a \<or> v6_is_multicast a)"
    using not_unicast_reserved by blast
  moreover have "8192 \<le> unat (segment 0 a)" "unat (segment 0 a) \<le> 16383"
    using True by (auto simp: div_range)
  then have "segment 0 a \<noteq> 0" "segment 0 a \<noteq> 0x64" "segment 0 a \<noteq> 0x100" "segment 0 a \<noteq> 0x5F00"
    by (auto simp: word_unat_eq_iff)
  moreover from \<open>unat (segment 0 a) \<le> 16383\<close>
  have "segment 0 a AND 0xFE00 \<noteq> 0xFC00" "segment 0 a AND 0xFFC0 \<noteq> 0xFE80" "segment 0 a AND 0xFFC0 \<noteq> 0xFEC0"
    by (auto simp: masked_segment div_range)
  moreover have "segment 0 a AND 0xE000 = 0x2000" using True by (simp add: masked_segment)
  moreover have "embedded_ipv4 a = None" using assms by (simp add: embedded_ipv4_iff)
  ultimately have "is_private_or_reserved_ip (V6 a) \<longleftrightarrow>
      is_non_global_ietf_protocol_assignment a \<or> segment 0 a = 0x2001 \<and> segment 1 a = 0x0DB8 \<or>
      segment 0 a = 0x2002 \<or> segment 0 a = 0x3FFF \<and> segment 1 a AND 0xF000 = 0"
    by (simp add: is_private_or_reserved_ip_def segments_def)
  moreover have "in_blocks special_v6 a \<longleftrightarrow> segment 0 a = 0x2001 \<and> segment 1 a = 0x0DB8 \<or>
      segment 0 a = 0x2002 \<or> segment 0 a = 0x3FFF \<and> segment 1 a AND 0xF000 = 0"
    unfolding masked_segment by (simp add: special_v6_def in_blocks_def v6_block_simps word_unat_eq_iff)
  moreover have "in_blocks unicast_v6 a" using True by (simp add: in_blocks_def unicast_v6_def v6_block_simps)
  ultimately show ?thesis unfolding ietf_iff global_v6_def by blast
next
  case False
  then have "segment 0 a AND 0xE000 \<noteq> 0x2000" "\<not> in_blocks unicast_v6 a"
    by (simp_all add: masked_segment in_blocks_def unicast_v6_def v6_block_simps)
  then show ?thesis using assms by (simp add: is_private_or_reserved_ip_def global_v6_def embedded_ipv4_iff)
qed

lemma embedding_top:
  assumes "in_blocks mapped_v6 a \<or> in_blocks nat64_v6 a"
  shows "unat (segment 0 a) \<le> 0x64"
  using assms by (auto simp: in_blocks_def v6_tables v6_block_simps)

lemma embedding_not_special:
  assumes "in_blocks mapped_v6 a \<or> in_blocks nat64_v6 a"
  shows "\<not> (v6_is_loopback a \<or> v6_is_unspecified a \<or> v6_is_multicast a)"
proof -
  have "\<not> in_blocks mapped_v6 1" "\<not> in_blocks nat64_v6 1" "\<not> in_blocks mapped_v6 0" "\<not> in_blocks nat64_v6 0"
    by (simp_all add: in_blocks_def v6_tables mem_block_div)
  moreover have "\<not> v6_is_multicast a"
    using embedding_top [OF assms] by (auto simp: v6_is_multicast_def word_unat_eq_iff unat_drop div_range)
  ultimately show ?thesis using assms by (auto simp: v6_is_loopback_def v6_is_unspecified_def)
qed

lemma segments_inject: "segments a = segments b \<longleftrightarrow> a = b"
proof
  assume "segments a = segments b"
  then have "unat a = unat b"
    using segment_digits(6) [of a] segment_digits(6) [of b] by (simp only: segments_def list.map list.inject)
  then show "a = b" by (rule unsigned_word_eqI)
qed simp

lemma metadata_v6_segments: "segments a = [0xFD00, 0x0EC2, 0, 0, 0, 0, 0, 0x0254] \<longleftrightarrow> a = metadata_v6"
proof -
  have "segments metadata_v6 = [0xFD00, 0x0EC2, 0, 0, 0, 0, 0, 0x0254]"
    by (simp add: segments_def segment_def metadata_v6_def)
  then show ?thesis using segments_inject [of a metadata_v6] by metis
qed

lemma metadata_v6_top: "unat (segment 0 metadata_v6) = 0xFD00"
  by (simp add: segment_def metadata_v6_def)

lemma is_metadata_iff:
  "is_metadata_ip (V4 b) \<longleftrightarrow> b \<in> metadata_v4"
  "is_metadata_ip (V6 a) \<longleftrightarrow> a = metadata_v6 \<or> (in_blocks mapped_v6 a \<or> in_blocks nat64_v6 a) \<and> ucast a \<in> metadata_v4"
  by (simp_all add: is_metadata_ip_def v4_metadata_iff metadata_v6_segments embedded_ipv4_iff)

lemma is_reserved_iff:
  "is_private_or_reserved_ip (V4 b) \<longleftrightarrow> in_blocks special_v4 b"
  "is_private_or_reserved_ip (V6 a) \<longleftrightarrow>
     (if in_blocks mapped_v6 a \<or> in_blocks nat64_v6 a then in_blocks special_v4 (ucast a) else \<not> global_v6 a)"
proof -
  show "is_private_or_reserved_ip (V4 b) \<longleftrightarrow> in_blocks special_v4 b"
    by (simp add: is_private_or_reserved_ip_def v4_reserved_iff)
  show "is_private_or_reserved_ip (V6 a) \<longleftrightarrow>
     (if in_blocks mapped_v6 a \<or> in_blocks nat64_v6 a then in_blocks special_v4 (ucast a) else \<not> global_v6 a)"
  proof (cases "in_blocks mapped_v6 a \<or> in_blocks nat64_v6 a")
    case True
    then show ?thesis using embedding_not_special [OF True]
      by (simp add: is_private_or_reserved_ip_def embedded_ipv4_iff v4_reserved_iff)
  qed (simp add: v6_reserved_iff)
qed

lemma is_private_network_iff:
  "is_private_network_ip (V4 b) \<longleftrightarrow> in_blocks private_v4 b"
  "is_private_network_ip (V6 a) \<longleftrightarrow> in_blocks local_v6 a \<or> in_blocks mapped_v6 a \<and> in_blocks private_v4 (ucast a)"
proof -
  show "is_private_network_ip (V4 b) \<longleftrightarrow> in_blocks private_v4 b"
    by (simp add: is_private_network_ip_def v4_private_iff)
  have "in_blocks local_v6 a \<longleftrightarrow> v6_is_loopback a \<or> segment 0 a AND 0xFE00 = 0xFC00"
    by (simp add: in_blocks_def local_v6_def v6_is_loopback_def v6_block_simps masked_segment)
  then show "is_private_network_ip (V6 a) \<longleftrightarrow>
      in_blocks local_v6 a \<or> in_blocks mapped_v6 a \<and> in_blocks private_v4 (ucast a)"
    by (auto simp: is_private_network_ip_def to_ipv4_mapped_iff v4_private_iff)
qed

lemma tables_disjoint:
  "in_blocks private_v4 b \<Longrightarrow> b \<notin> metadata_v4"
  "in_blocks local_v6 a \<Longrightarrow> \<not> in_blocks mapped_v6 a \<and> \<not> in_blocks nat64_v6 a"
  "global_v6 a \<Longrightarrow> a \<noteq> metadata_v6"
  "in_blocks mapped_v6 a \<or> in_blocks nat64_v6 a \<Longrightarrow> a \<noteq> metadata_v6"
proof -
  show "b \<notin> metadata_v4" if "in_blocks private_v4 b"
    using that by (auto simp: metadata_v4_def in_blocks_def private_v4_def mem_block_div)
  have top: "segment 0 a AND 0xFE00 = 0xFC00 \<Longrightarrow> 0x64 < unat (segment 0 a)" by (simp add: masked_segment div_range)
  show "\<not> in_blocks mapped_v6 a \<and> \<not> in_blocks nat64_v6 a" if "in_blocks local_v6 a"
  proof (cases "a = 1")
    case True
    then show ?thesis by (simp add: in_blocks_def v6_tables mem_block_div)
  next
    case False
    then have "0x64 < unat (segment 0 a)"
      using that by (intro top) (simp add: in_blocks_def local_v6_def v6_block_simps masked_segment)
    then show ?thesis using embedding_top [of a] by auto
  qed
  show "a \<noteq> metadata_v6" if "global_v6 a"
    using that metadata_v6_top by (auto simp: global_v6_def in_blocks_def unicast_v6_def v6_block_simps)
  show "a \<noteq> metadata_v6" if "in_blocks mapped_v6 a \<or> in_blocks nat64_v6 a"
    using embedding_top [OF that] metadata_v6_top by auto
qed

text \<open>The addresses the two kinds of access stand for.\<close>

definition public_addresses :: "ip_addr set" where
  "public_addresses =
     V4 ` {a. global_v4 a} \<union>
     V6 ` {a. if in_blocks mapped_v6 a \<or> in_blocks nat64_v6 a then global_v4 (ucast a) else global_v6 a}"

definition local_addresses :: "ip_addr set" where
  "local_addresses =
     V4 ` {a. in_blocks private_v4 a} \<union>
     V6 ` {a. in_blocks local_v6 a \<and> a \<noteq> metadata_v6 \<or> in_blocks mapped_v6 a \<and> in_blocks private_v4 (ucast a)}"

lemma allowed_iff:
  "is_provider_endpoint_ip_allowed access ip \<longleftrightarrow>
   ip \<in> public_addresses \<or> access = PrivateNetwork \<and> ip \<in> local_addresses"
proof (cases ip)
  case (V4 b)
  then show ?thesis using tables_disjoint(1) [of b]
    by (auto simp: is_provider_endpoint_ip_allowed_def is_metadata_iff is_reserved_iff is_private_network_iff
        public_addresses_def local_addresses_def global_v4_def)
next
  case (V6 a)
  show ?thesis
    using tables_disjoint(1) [of "ucast a"] tables_disjoint(2-4) [of a] V6
    by (auto simp: is_provider_endpoint_ip_allowed_def is_metadata_iff is_reserved_iff is_private_network_iff
        public_addresses_def local_addresses_def global_v4_def split: if_splits)
qed

text \<open>C13. The guard's chain of octet and segment tests decides membership in a table of address blocks.
  Public access admits exactly the IPv4 addresses outside the fifteen special blocks other
  than the two metadata addresses, the IPv6 addresses of 2000::/3 outside the documentation, 6to4 and
  protocol-assignment blocks (the globally reachable assignments excepted), and the IPv4-mapped and NAT64
  addresses whose embedded IPv4 address is admitted.  Private access adds loopback, the three private
  IPv4 blocks, also mapped, and the unique local IPv6 addresses without the metadata address, and
  nothing else: a private address behind NAT64, link-local and multicast addresses stay refused.\<close>

theorem endpoint_addresses_exact:
  "{ip. is_provider_endpoint_ip_allowed PublicOnly ip} = public_addresses \<and>
   {ip. is_provider_endpoint_ip_allowed PrivateNetwork ip} = public_addresses \<union> local_addresses"
  by (auto simp: allowed_iff)

subsection \<open>What a validated URL can reach\<close>

text \<open>The addresses a connection to a URL can use: the address its host spells, or those its name
  resolves to.\<close>

definition endpoint_targets :: "url \<Rightarrow> resolver \<Rightarrow> ip_addr set" where
  "endpoint_targets u resolve =
     (case host_str u of
        None \<Rightarrow> {}
      | Some h \<Rightarrow>
          (case parse_ip_addr (normalize_hostname h) of
             Some ip \<Rightarrow> {ip}
           | None \<Rightarrow>
               (case resolve (normalize_hostname h) (case port_or_known_default u of Some p \<Rightarrow> p | None \<Rightarrow> 0) of
                  Inl _ \<Rightarrow> {}
                | Inr addresses \<Rightarrow> set addresses)))"

lemma validate_resolved_iff:
  "validate_resolved_addresses access host addresses = Inr () \<longleftrightarrow>
   addresses \<noteq> [] \<and> (\<forall>a \<in> set addresses. is_provider_endpoint_ip_allowed access a)"
  by (auto simp: validate_resolved_addresses_def find_None_iff find_Some_iff split: option.splits)

lemma validated_targets:
  assumes "parse (url_text u) = Inr u"
    and "validate_provider_endpoint_url_with_resolver parse u access resolve = Inr ()"
  shows "endpoint_targets u resolve \<noteq> {}"
    and "\<forall>ip \<in> endpoint_targets u resolve. is_provider_endpoint_ip_allowed access ip"
  using assms
  by (auto simp: validate_provider_endpoint_url_with_resolver_def resolution_target_def extract_url_host_def
      endpoint_targets_def validate_resolved_iff split: if_splits sum.splits option.splits)

lemma never_metadata: "is_provider_endpoint_ip_allowed access ip \<Longrightarrow> \<not> is_metadata_ip ip"
  by (simp add: is_provider_endpoint_ip_allowed_def)


definition example_url :: url where
  "example_url =
     \<lparr>url_text = ''https://8.8.8.8/'', scheme = ''https'', host_str = Some ''8.8.8.8'',
      port_or_known_default = Some 443\<rparr>"


subsection \<open>A private endpoint is pinned to its authority\<close>

lemma decimal_digits: "c \<in> set (decimal n) \<Longrightarrow> 48 \<le> (of_char c :: nat) \<and> (of_char c :: nat) \<le> 57"
  by (induction n rule: decimal.induct) (subst (asm) (2) decimal.simps, auto split: if_splits)

lemma decimal_value: "foldl (\<lambda>n d. n * 10 + (of_char d - 48)) 0 (decimal n) = n"
proof (induction n rule: less_induct)
  case (less n)
  have digit: "(of_char (char_of (48 + k)) :: nat) - 48 = k" if "k < 10" for k :: nat
    using that by simp
  show ?case
  proof (cases "n < 10")
    case True
    then show ?thesis using digit [of n] by (simp add: decimal.simps [of n])
  next
    case False
    then have smaller: "n div 10 < n" by simp
    have low: "(of_char (char_of (48 + n mod 10)) :: nat) - 48 = n mod 10" by (rule digit) simp
    have "decimal n = decimal (n div 10) @ [char_of (48 + n mod 10)]" using decimal.simps [of n] by (simp only: False if_False)
    then show ?thesis by (simp only: foldl_append foldl.simps less.IH [OF smaller] low div_mult_mod_eq)
  qed
qed

lemma decimal_inject: "decimal m = decimal n \<longleftrightarrow> m = n"
  by (metis decimal_value)

lemma split_first:
  assumes "xs @ c # r = ys @ c # r'" and "c \<notin> set xs" and "c \<notin> set ys"
  shows "xs = ys \<and> r = r'"
  using assms
proof (induction xs arbitrary: ys)
  case Nil
  then show ?case by (cases ys) auto
next
  case (Cons x xs)
  then show ?case by (cases ys) auto
qed

lemma split_last:
  assumes "r @ c # xs = r' @ c # ys" and "c \<notin> set xs" and "c \<notin> set ys"
  shows "xs = ys \<and> r = r'"
proof -
  have "rev xs @ c # rev r = rev ys @ c # rev r'" using arg_cong [OF assms(1), of rev] by simp
  from split_first [OF this] assms(2,3) show ?thesis by simp
qed

lemma no_colon:
  "CHR '':'' \<notin> set (decimal n)" "web_scheme s \<Longrightarrow> CHR '':'' \<notin> set s"
  using decimal_digits [of "CHR '':''" n] by (auto simp: web_scheme_def)

lemma endpoint_authority_inject:
  assumes "endpoint_authority u = Inr auth" and "endpoint_authority v = Inr auth"
    and "web_scheme (scheme u)" and "web_scheme (scheme v)"
  shows "scheme u = scheme v \<and> port_or_known_default u = port_or_known_default v \<and>
    map_option normalize_hostname (host_str u) = map_option normalize_hostname (host_str v)"
proof -
  obtain h p where u: "host_str u = Some h" "port_or_known_default u = Some p"
    "auth = scheme u @ CHR '':'' # ''//'' @ normalize_hostname h @ CHR '':'' # decimal (unat p)"
    using assms(1) by (auto simp: endpoint_authority_def split: option.splits)
  obtain g q where v: "host_str v = Some g" "port_or_known_default v = Some q"
    "auth = scheme v @ CHR '':'' # ''//'' @ normalize_hostname g @ CHR '':'' # decimal (unat q)"
    using assms(2) by (auto simp: endpoint_authority_def split: option.splits)
  have first: "scheme u = scheme v \<and>
      ''//'' @ normalize_hostname h @ CHR '':'' # decimal (unat p) = ''//'' @ normalize_hostname g @ CHR '':'' # decimal (unat q)"
    using u(3) v(3) no_colon(2) assms(3,4) by (intro split_first [of _ "CHR '':''"]) auto
  then have "normalize_hostname h @ CHR '':'' # decimal (unat p) = normalize_hostname g @ CHR '':'' # decimal (unat q)"
    by simp
  from split_last [OF this no_colon(1) no_colon(1)] have "p = q" "normalize_hostname h = normalize_hostname g"
    by (simp_all add: decimal_inject word_unat_eq_iff)
  then show ?thesis using first u v by simp
qed

lemma without_resolution_scheme:
  "validate_provider_endpoint_url_without_resolution parse u access = Inr r \<Longrightarrow> web_scheme (scheme u)"
  by (auto simp: validate_provider_endpoint_url_without_resolution_def resolution_target_def split: if_splits sum.splits)

text \<open>C21. The private-network exception cannot be carried over to another service.  A policy that was
  made for a base URL with private access accepts only URLs with the scheme, the normalized host and the port of
  that base URL, although it keeps nothing but one text made of the three: neither a port nor a
  host with colons can be confused with another split of the text.\<close>

theorem private_policy_pins_authority:
  assumes "for_base_url parse PrivateNetwork base = Inr policy" and "parse base = Inr b"
    and "validate_url_without_resolution parse policy u = Inr ()"
  shows "scheme u = scheme b \<and> port_or_known_default u = port_or_known_default b \<and>
    map_option normalize_hostname (host_str u) = map_option normalize_hostname (host_str b)"
proof -
  obtain r auth where base: "validate_provider_endpoint_url_without_resolution parse b PrivateNetwork = Inr r"
    "endpoint_authority b = Inr auth" "private_authority policy = Some auth"
    using assms(1,2) by (auto simp: for_base_url_def split: sum.splits)
  obtain r' where url: "validate_provider_endpoint_url_without_resolution parse u (policy_access policy) = Inr r'"
    "endpoint_authority u = Inr auth"
    using assms(3) base(3)
    by (auto simp: validate_url_without_resolution_def validate_private_authority_def split: sum.splits if_splits)
  show ?thesis
    using endpoint_authority_inject [OF url(2) base(2)] without_resolution_scheme base(1) url(1) by blast
qed

lemma private_policy_pins_authority_witness:
  "scheme example_url = ''https'' \<and> port_or_known_default example_url = Some 443 \<and>
   map_option normalize_hostname (host_str example_url) = Some (normalize_hostname ''8.8.8.8'')"
proof -
  obtain policy where policy: "for_base_url (\<lambda>_. Inr example_url) PrivateNetwork ''https://8.8.8.8/'' = Inr policy"
    "validate_url_without_resolution (\<lambda>_. Inr example_url) policy example_url = Inr ()"
  proof
    let ?policy = "\<lparr>policy_access = PrivateNetwork, private_authority = Some ''https://8.8.8.8:443''\<rparr>"
    show "for_base_url (\<lambda>_. Inr example_url) PrivateNetwork ''https://8.8.8.8/'' = Inr ?policy" by code_simp
    show "validate_url_without_resolution (\<lambda>_. Inr example_url) ?policy example_url = Inr ()" by code_simp
  qed
  from private_policy_pins_authority [OF this(1) _ this(2)] show ?thesis by (simp add: example_url_def)
qed

end
