(* ===== verification/Spec2Isabelle.thy ===== *)
theory Spec2Isabelle
  imports Token_Ledger Shared_Circuit Probe_Group Shared_Admission Execute Shared_Rate SSE_Stream Anthropic_Stream Ssrf_Guard
begin

text \<open>
  A verification library for litellm-rs, a gateway that routes requests for language models to
  deployments of many providers.  All paths below are under \<^verbatim>\<open>src/src/\<close>.

  \<^bold>\<open>The program and what is modelled.\<close>  A request comes in through the HTTP server.  The \<^emph>\<open>IP filter\<close> and
  the \<^emph>\<open>rate limiter\<close> decide whether it is served.  The \<^emph>\<open>router\<close> resolves its model name through the
  aliases, reads the current routing snapshot, filters and ranks the deployments of the model, reserves
  a slot of one of them (in this process and, when Redis is configured, across replicas), calls the
  provider, records the outcome with the circuit breaker and the counters, and retries or falls back
  to other models.  A streamed answer is read by the \<^emph>\<open>event stream parser\<close>.  Addresses the program
  connects to on a user's behalf go through the \<^emph>\<open>outbound address guard\<close>.

  \<^bold>\<open>Theories.\<close>
  \<^item> \<open>Prelude\<close>: words and saturating arithmetic, lists and maps, text; the locale of systems with an
    inductive invariant, from which every reachability property is derived.
  \<^item> \<open>Deployment\<close>, \<open>Token_Ledger\<close> (\<^verbatim>\<open>core/router/deployment.rs\<close>, \<^verbatim>\<open>deployment/local_admission.rs\<close>,
    \<^verbatim>\<open>deployment/probe_state.rs\<close>): configuration and running state of a deployment, the lazily rolled minute
    windows, the token ledger with one-shot reservations, outcome recorders.  The ledger's
    estimate is the sum of the open reservations in every reachable state.
  \<^item> \<open>Router_Types\<close> (\<^verbatim>\<open>config.rs\<close>, \<^verbatim>\<open>error.rs\<close>), \<open>Circuit\<close> (\<^verbatim>\<open>circuit.rs\<close>, \<^verbatim>\<open>unified.rs\<close>): the
    local breaker and the handling of the shared breaker's answers, with the changes other tasks make
    during an await as arguments.  \<open>Shared_Circuit\<close> (\<^verbatim>\<open>storage/redis/circuit.rs\<close>): the script of the shared
    breaker as a transition of one key; the half-open probe is exclusive, and its holder recovers.
    \<open>Probe_Group\<close>: publication of a probe result to a whole group.
  \<^item> \<open>Float64\<close>, \<open>Strategy\<close> (\<^verbatim>\<open>strategy_impl.rs\<close>): rounding to doubles, and the seven strategies.
  \<^item> \<open>Aliases\<close> (\<^verbatim>\<open>unified.rs\<close>, \<^verbatim>\<open>gateway_aliases.rs\<close>, \<^verbatim>\<open>config/validation/config_validators.rs\<close>),
    \<open>Snapshot\<close> (\<^verbatim>\<open>unified.rs\<close>, \<^verbatim>\<open>provider_identity.rs\<close>), \<open>Fallback\<close> (\<^verbatim>\<open>fallback.rs\<close>): the tables the
    router reads and all their writers.
  \<^item> \<open>Provider_Error\<close> (\<^verbatim>\<open>core/providers/unified_provider_*.rs\<close>, \<^verbatim>\<open>failure.rs\<close>,
    \<^verbatim>\<open>utils/error/canonical.rs\<close>), \<open>Retry\<close> (\<^verbatim>\<open>retry_policy.rs\<close>, \<^verbatim>\<open>execution.rs\<close>): errors and the
    decision to retry.
  \<^item> \<open>Admission\<close> (\<^verbatim>\<open>admission.rs\<close>, \<^verbatim>\<open>selection.rs\<close>), \<open>Shared_Admission\<close>
    (\<^verbatim>\<open>storage/redis/admission.rs\<close>), \<open>Selection\<close> (\<^verbatim>\<open>selection.rs\<close>), \<open>Execute\<close> (\<^verbatim>\<open>execute_impl.rs\<close>):
    slots and leases, the admission script against an abstract quota, the candidate filter and the
    reservation loop, and the retry, streaming and fallback loops.
  \<^item> \<open>Rate_Limiter\<close>, \<open>Rate_Bounds\<close> (\<^verbatim>\<open>core/rate_limiter/\<close>, \<^verbatim>\<open>config/models/rate_limit.rs\<close>): the three
    strategies on one entry per key, and what each guarantees for any interleaving of checks, releases and
    clean-ups, through one locale instantiated three times.  \<open>Shared_Rate\<close>
    (\<^verbatim>\<open>storage/redis/rate_limit.rs\<close>): the scripts, and the limit across replicas.
  \<^item> \<open>Utf8\<close>, \<open>SSE\<close>, \<open>SSE_Stream\<close> (\<^verbatim>\<open>core/providers/base/sse.rs\<close>, \<^verbatim>\<open>sse/termination.rs\<close>): decoding across
    pieces, lines, events and the polled stream, which refines reading the whole body at once.
  \<^item> \<open>Anthropic_State\<close>, \<open>Anthropic_Stream\<close> (\<^verbatim>\<open>core/providers/base/sse/anthropic*.rs\<close>): one vendor's transformer, as an
    instance of the transformers the stream takes.  The life cycle of a message is a state machine over
    block indexes; its invariant is proved index by index, together with a trace of the events, from
    which lossless thinking blocks and complete streams follow.
  \<^item> \<open>Ip_Address\<close>, \<open>Ip_Access\<close> (\<^verbatim>\<open>core/ip_access/\<close>): addresses and their parser, rules, the controller and
    the request filter, against sets of addresses.  \<open>Ssrf_Guard\<close> (\<^verbatim>\<open>core/net/ssrf_guard.rs\<close>): the
    classification against a table of blocks, and what a validated URL can reach.

  \<^bold>\<open>How code is modelled.\<close>  A struct is a record, an enum a datatype, a fixed-width integer a word whose
  arithmetic wraps, saturates or is checked as in the source; \<open>Duration\<close> and \<open>Instant\<close> are numbers of
  nanoseconds.  Errors are values.  An operation under a lock, an atomic step or a Lua script
  is one function of the state; a function that awaits takes as arguments what may change
  meanwhile, and runs of many tasks are step relations over such functions.  Clock readings, random
  draws and replies of Redis are arguments.  Floating-point operations round to nearest even
  without overflow, which the magnitudes involved never reach; where a proof needs nothing about an
  operation it is a parameter.

  \<^bold>\<open>Loops.\<close>  A loop the source leaves unbounded is a \<open>partial_function\<close> on options (the alias walks, the
  retry and reservation loops), and its end is proved as the existence of a result.  The polls of a
  stream are counted: the number the theorem gives is the length of the body and the number of
  chunks plus three, which is enough for every body.

  \<^bold>\<open>Third-party code.\<close>  The transformer of a vendor's stream format, the caller's operation, the URL
  parser and the resolver are arguments.  The only law assumed of any is that the URL parser gives a
  URL back from the URL's own text.

  \<^bold>\<open>Not modelled.\<close>  HTTP handlers and middleware other than the IP filter, the clients of the
  vendors, the response cache (a wrapper around a concurrent cache library), persistence, authentication
  (cryptographic libraries and database queries), audit, guardrails and metrics, the SDK, and the
  deserialisation of configuration: glue around libraries or I/O, with little state of their own.  Logging
  is left out everywhere.
\<close>

end
